(* ===== verification/Go_Prelude.thy ===== *)
theory Go_Prelude
  imports Main
begin

text \<open>
  Shared vocabulary of the development: what a blocking Go operation can do, the error
  values the program passes around, the machines (labelled transition functions and the
  states they reach) in which its goroutines are described, and the list facts that the
  component theories share.
\<close>

section \<open>Collections of facts\<close>

named_theorems go_simps \<open>unfolding rules of the outcome type and of the machines\<close>
named_theorems calls \<open>definitions of the operations one component calls on another\<close>

section \<open>Outcomes of blocking operations\<close>

text \<open>
  A channel operation either completes, has to wait for another goroutine, or panics (a send
  on a closed channel, a second close, a slice out of range). A panic in any goroutine ends
  the whole process.
\<close>

datatype 'a go = Done 'a | Blocked | Panic

fun go_map :: "('a \<Rightarrow> 'b) \<Rightarrow> 'a go \<Rightarrow> 'b go" where
  "go_map f (Done x) = Done (f x)"
| "go_map f Blocked = Blocked"
| "go_map f Panic = Panic"

lemma go_map_eq [go_simps]:
  "go_map f r = Done y \<longleftrightarrow> (\<exists>x. r = Done x \<and> y = f x)"
  "go_map f r = Blocked \<longleftrightarrow> r = Blocked"
  "go_map f r = Panic \<longleftrightarrow> r = Panic"
  by (cases r; auto)+

section \<open>Error values\<close>

text \<open>
  The errors the code returns. \<open>ErrExtern\<close> carries an error of docker, of the network, of a
  database or of the operating system, which the code passes on without looking into it.
\<close>

datatype go_error =
    ErrCanceled
  | ErrDeadlineExceeded
  | ErrNotRunning
  | ErrRetryCountExceeded
  | ErrActionNotConfigured
  | ErrKeyPathNotFound
  | ErrField string go_error
  | ErrText string
  | ErrExtern string

section \<open>Machines\<close>

text \<open>
  A goroutine, or a group of them, is a function \<open>exec\<close> that takes a label (which
  \<^theory_text>\<open>select\<close> case fires, which message arrives) and a state and returns the next
  state, or \<open>None\<close> when that step cannot be taken there. \<open>run\<close> follows a list of labels;
  \<open>reach\<close> collects the states some list of labels leads to.
\<close>

fun run :: "('l \<Rightarrow> 's \<Rightarrow> 's option) \<Rightarrow> 'l list \<Rightarrow> 's \<Rightarrow> 's option" where
  "run exec [] s = Some s"
| "run exec (l # ls) s = (case exec l s of None \<Rightarrow> None | Some t \<Rightarrow> run exec ls t)"

inductive reach :: "('l \<Rightarrow> 's \<Rightarrow> 's option) \<Rightarrow> 's \<Rightarrow> 's \<Rightarrow> bool" for exec s0 where
  reach_start: "reach exec s0 s0"
| reach_step: "reach exec s0 s \<Longrightarrow> exec l s = Some t \<Longrightarrow> reach exec s0 t"

lemma run_append:
  "run exec (xs @ ys) s = (case run exec xs s of None \<Rightarrow> None | Some t \<Rightarrow> run exec ys t)"
  by (induction xs arbitrary: s) (auto split: option.splits)

lemma run_reach_from:
  "run exec ls s = Some t \<Longrightarrow> reach exec s0 s \<Longrightarrow> reach exec s0 t"
  by (induction ls arbitrary: s) (auto split: option.splits intro: reach_step)

lemma run_reach: "run exec ls s = Some t \<Longrightarrow> reach exec s t"
  by (rule run_reach_from) (auto intro: reach_start)

lemma reach_trans: "reach exec b c \<Longrightarrow> reach exec a b \<Longrightarrow> reach exec a c"
  by (induction rule: reach.induct) (auto intro: reach_step)

lemma reach_run: "reach exec s t \<Longrightarrow> \<exists>ls. run exec ls s = Some t"
proof (induction rule: reach.induct)
  case reach_start
  have "run exec [] s = Some s" by simp
  then show ?case ..
next
  case (reach_step u l t)
  then obtain ls where "run exec ls s = Some u" by blast
  with reach_step.hyps have "run exec (ls @ [l]) s = Some t" by (simp add: run_append)
  then show ?case ..
qed

text \<open>
  The contract of an invariant: it holds in the start state and every step keeps it. Each
  machine of the development interprets this locale with its own invariant.
\<close>

locale invariant =
  fixes exec :: "'l \<Rightarrow> 's \<Rightarrow> 's option"
    and start :: 's
    and inv :: "'s \<Rightarrow> bool"
  assumes start_inv: "inv start"
    and step_inv: "inv s \<Longrightarrow> exec l s = Some t \<Longrightarrow> inv t"
begin

lemma reach_inv: "reach exec start s \<Longrightarrow> inv s"
  by (induction rule: reach.induct) (auto intro: start_inv step_inv)

lemma run_inv: "run exec ls start = Some s \<Longrightarrow> inv s"
  by (rule reach_inv) (rule run_reach)

lemma inv_run: "inv s \<Longrightarrow> run exec ls s = Some t \<Longrightarrow> inv t"
  by (induction ls arbitrary: s) (auto split: option.splits dest: step_inv)

end

text \<open>
  A trap is a set of states no step leaves: once the machine is in it, whatever is scheduled
  afterwards, it stays there. Deadlocks and leaks are stated as traps.
\<close>

locale trap =
  fixes exec :: "'l \<Rightarrow> 's \<Rightarrow> 's option"
    and stuck :: "'s \<Rightarrow> bool"
  assumes step_stuck: "stuck s \<Longrightarrow> exec l s = Some t \<Longrightarrow> stuck t"
begin

lemma reach_stuck: "reach exec s t \<Longrightarrow> stuck s \<Longrightarrow> stuck t"
  by (induction rule: reach.induct) (auto intro: step_stuck)

end

section \<open>Facts about lists\<close>

lemma count_list_remove1 [simp]:
  "count_list (remove1 a xs) b = count_list xs b - (if a = b then 1 else 0)"
  by (induction xs) auto

lemma count_list_pos: "a \<in> set xs \<Longrightarrow> 0 < count_list xs a"
  by (induction xs) auto

lemma count_list_append [simp]: "count_list (xs @ ys) a = count_list xs a + count_list ys a"
  by (induction xs) auto

lemma count_list_le1_distinct: "(\<forall>a. count_list xs a \<le> 1) \<Longrightarrow> distinct xs"
proof (induction xs)
  case (Cons x xs)
  have "count_list xs a \<le> 1" for a
    using spec [OF Cons.prems, of a] by (auto split: if_splits)
  moreover have "x \<notin> set xs"
    using spec [OF Cons.prems, of x] by (auto dest: count_list_pos)
  ultimately show ?case using Cons.IH by simp
qed simp

lemma length_removeAll_distinct:
  "distinct xs \<Longrightarrow> length (removeAll a xs) = length xs - (if a \<in> set xs then 1 else 0)"
  by (simp add: distinct_remove1_removeAll [symmetric] length_remove1)

end
