(* ===== verification/Go_Strings.thy ===== *)
theory Go_Strings
  imports Go_Prelude
begin

text \<open>
  The string functions of Go's standard library that the program calls:
  \<^verbatim>\<open>strconv.Itoa\<close>, \<^verbatim>\<open>strconv.Atoi\<close>, \<^verbatim>\<open>url.QueryEscape\<close>, the decoding of a URL
  path, and \<^verbatim>\<open>strings.Split\<close> on one byte. A Go string is a sequence of bytes, here a list
  of \<^typ>\<open>char\<close>.
\<close>

section \<open>Decimal numbers\<close>

definition digit_char :: "nat \<Rightarrow> char" where
  "digit_char d = char_of (48 + d)"

definition digit_val :: "char \<Rightarrow> nat option" where
  "digit_val c = (let n = of_char c in if 48 \<le> n \<and> n \<le> 57 then Some (n - 48) else None)"

lemma digit_val_char [simp]: "d < 10 \<Longrightarrow> digit_val (digit_char d) = Some d"
  by (simp add: digit_val_def digit_char_def of_char_of Let_def)

fun show_nat :: "nat \<Rightarrow> string" where
  "show_nat n = (if n < 10 then [digit_char n] else show_nat (n div 10) @ [digit_char (n mod 10)])"

declare show_nat.simps [simp del]

text \<open>\<^verbatim>\<open>strconv.Itoa\<close>, also what \<^verbatim>\<open>%v\<close> prints for an \<^verbatim>\<open>int\<close>.\<close>

definition itoa :: "int \<Rightarrow> string" where
  "itoa i = (if i < 0 then CHR ''-'' # show_nat (nat (- i)) else show_nat (nat i))"

fun digits_val :: "nat \<Rightarrow> string \<Rightarrow> nat option" where
  "digits_val acc [] = Some acc"
| "digits_val acc (c # cs) =
     (case digit_val c of None \<Rightarrow> None | Some d \<Rightarrow> digits_val (10 * acc + d) cs)"

text \<open>
  \<^verbatim>\<open>strconv.Atoi\<close> (and \<^verbatim>\<open>strconv.ParseInt\<close> in base 10 with 64 bits): an optional sign,
  at least one digit, nothing else, within the range of \<^verbatim>\<open>int64\<close>.
\<close>

definition atoi_unsigned :: "string \<Rightarrow> nat option" where
  "atoi_unsigned s = (if s = [] then None else digits_val 0 s)"

definition atoi :: "string \<Rightarrow> int option" where
  "atoi s =
     (case s of
        [] \<Rightarrow> None
      | c # cs \<Rightarrow>
          if c = CHR ''-'' then
            (case atoi_unsigned cs of
               None \<Rightarrow> None
             | Some n \<Rightarrow> if int n \<le> 2 ^ 63 then Some (- int n) else None)
          else
            (case atoi_unsigned (if c = CHR ''+'' then cs else c # cs) of
               None \<Rightarrow> None
             | Some n \<Rightarrow> if int n < 2 ^ 63 then Some (int n) else None))"

lemma digits_val_append:
  "digits_val a (xs @ ys) = (case digits_val a xs of None \<Rightarrow> None | Some b \<Rightarrow> digits_val b ys)"
  by (induction xs arbitrary: a) (auto split: option.splits)

lemma digits_val_show [simp]: "digits_val 0 (show_nat n) = Some n"
proof (induction n rule: show_nat.induct)
  case (1 n)
  then show ?case
    by (subst show_nat.simps) (auto simp: digits_val_append)
qed

lemma show_nat_Cons: "\<exists>d cs. show_nat n = digit_char d # cs \<and> d < 10"
proof (induction n rule: show_nat.induct)
  case (1 n)
  then show ?case by (subst show_nat.simps) (cases "n < 10"; fastforce)
qed

lemma show_nat_ne [simp]: "show_nat n \<noteq> []"
  using show_nat_Cons [of n] by auto

lemma digit_char_sign: "d < 10 \<Longrightarrow> digit_char d \<noteq> CHR ''-'' \<and> digit_char d \<noteq> CHR ''+''"
proof -
  assume d: "d < 10"
  have "digit_val CHR ''-'' = None" "digit_val CHR ''+'' = None"
    by (simp_all add: digit_val_def)
  with digit_val_char [OF d] show ?thesis by (metis option.distinct(1))
qed

lemma show_nat_inject [simp]: "show_nat m = show_nat n \<longleftrightarrow> m = n"
  by (metis digits_val_show option.inject)

lemma atoi_show_nat: "int n < 2 ^ 63 \<Longrightarrow> atoi (show_nat n) = Some (int n)"
proof -
  assume n: "int n < 2 ^ 63"
  obtain d cs where s: "show_nat n = digit_char d # cs" and d: "d < 10"
    using show_nat_Cons by blast
  have "atoi_unsigned (digit_char d # cs) = Some n"
    using digits_val_show [of n] s by (simp add: atoi_unsigned_def)
  then show ?thesis using s n digit_char_sign [OF d] by (simp add: atoi_def)
qed

lemma atoi_itoa: "- (2 ^ 63) \<le> i \<Longrightarrow> i < 2 ^ 63 \<Longrightarrow> atoi (itoa i) = Some i"
proof (cases "i < 0")
  case True
  assume "- (2 ^ 63) \<le> i"
  with True show ?thesis by (simp add: itoa_def atoi_def atoi_unsigned_def)
next
  case False
  assume "i < 2 ^ 63"
  with False show ?thesis using atoi_show_nat [of "nat i"] by (simp add: itoa_def)
qed

lemma itoa_inject [simp]: "itoa i = itoa j \<longleftrightarrow> i = j"
proof
  assume e: "itoa i = itoa j"
  have neg: "show_nat m \<noteq> CHR ''-'' # show_nat n" for m n
    using show_nat_Cons [of m] digit_char_sign by (metis list.inject)
  show "i = j"
    using e neg [of "nat i" "nat (- j)"] neg [of "nat j" "nat (- i)"]
    by (auto simp: itoa_def split: if_splits)
qed simp

section \<open>URL escaping\<close>

definition hex_char :: "nat \<Rightarrow> char" where
  "hex_char d = char_of (if d < 10 then 48 + d else 55 + d)"

definition hex_val :: "char \<Rightarrow> nat option" where
  "hex_val c =
     (let n = of_char c in
      if 48 \<le> n \<and> n \<le> 57 then Some (n - 48)
      else if 65 \<le> n \<and> n \<le> 70 then Some (n - 55)
      else if 97 \<le> n \<and> n \<le> 102 then Some (n - 87)
      else None)"

lemma hex_val_char [simp]: "d < 16 \<Longrightarrow> hex_val (hex_char d) = Some d"
  by (auto simp: hex_val_def hex_char_def of_char_of Let_def)

text \<open>The bytes that \<^verbatim>\<open>url.QueryEscape\<close> leaves alone: letters, digits, \<open>- _ . ~\<close>.\<close>

definition unreserved :: "char \<Rightarrow> bool" where
  "unreserved c =
     (let n = (of_char c :: nat) in
      (97 \<le> n \<and> n \<le> 122) \<or> (65 \<le> n \<and> n \<le> 90) \<or> (48 \<le> n \<and> n \<le> 57)
      \<or> n = 45 \<or> n = 95 \<or> n = 46 \<or> n = 126)"

fun query_escape :: "string \<Rightarrow> string" where
  "query_escape [] = []"
| "query_escape (c # cs) =
     (if unreserved c then c # query_escape cs
      else if c = CHR '' '' then CHR ''+'' # query_escape cs
      else CHR ''%'' # hex_char (of_char c div 16) # hex_char (of_char c mod 16) # query_escape cs)"

text \<open>
  Decoding: \<open>query\<close> says whether a plus sign stands for a space, as it does in a query
  component (\<^verbatim>\<open>url.QueryUnescape\<close>) and does not in a path.
\<close>

fun url_unescape :: "bool \<Rightarrow> string \<Rightarrow> string option" where
  "url_unescape query [] = Some []"
| "url_unescape query (c # cs) =
     (if c = CHR ''%'' then
        (case cs of
           h # l # rest \<Rightarrow>
             (case (hex_val h, hex_val l, url_unescape query rest) of
                (Some a, Some b, Some s) \<Rightarrow> Some (char_of (16 * a + b) # s)
              | _ \<Rightarrow> None)
         | _ \<Rightarrow> None)
      else map_option ((#) (if query \<and> c = CHR ''+'' then CHR '' '' else c)) (url_unescape query cs))"

lemma unreserved_plain: "unreserved c \<Longrightarrow> c \<noteq> CHR ''%'' \<and> c \<noteq> CHR ''+'' \<and> c \<noteq> CHR ''/''"
  by (auto simp: unreserved_def)

lemma of_char_lt [simp]: "(of_char c :: nat) < 256"
  using of_char_mod_256 [of c, where 'a = nat] by (metis mod_less_divisor zero_less_numeral)

lemma query_roundtrip: "url_unescape True (query_escape s) = Some s"
proof (induction s)
  case (Cons c cs)
  have "(of_char c :: nat) div 16 < 16"
    using of_char_lt [of c] by linarith
  with Cons unreserved_plain [of c] show ?case by auto
qed simp

text \<open>In a path the same encoding decodes to the text with its spaces replaced by plus signs.\<close>

lemma path_unescape_query:
  "url_unescape False (query_escape s) = Some (map (\<lambda>c. if c = CHR '' '' then CHR ''+'' else c) s)"
proof (induction s)
  case (Cons c cs)
  have "(of_char c :: nat) div 16 < 16"
    using of_char_lt [of c] by linarith
  moreover have "unreserved c \<Longrightarrow> c \<noteq> CHR '' ''"
    by (auto simp: unreserved_def)
  ultimately show ?case using Cons unreserved_plain [of c] by auto
qed simp

lemma hex_char_slash: "d < 16 \<Longrightarrow> hex_char d \<noteq> CHR ''/''"
proof -
  assume d: "d < 16"
  have "hex_val CHR ''/'' = None" by (simp add: hex_val_def)
  with hex_val_char [OF d] show ?thesis by (metis option.distinct(1))
qed

lemma set_query_escape: "x \<in> set (query_escape s) \<Longrightarrow> x \<noteq> CHR ''/''"
proof (induction s)
  case (Cons c cs)
  have "(of_char c :: nat) div 16 < 16" "(of_char c :: nat) mod 16 < 16"
    using of_char_lt [of c] by linarith+
  from this [THEN hex_char_slash] Cons unreserved_plain [of c] show ?case
    by (auto split: if_splits)
qed simp

section \<open>Splitting\<close>

text \<open>\<^verbatim>\<open>strings.Split(s, sep)\<close> for a separator of one byte.\<close>

fun split_on :: "char \<Rightarrow> string \<Rightarrow> string list" where
  "split_on sep [] = [[]]"
| "split_on sep (c # cs) =
     (if c = sep then [] # split_on sep cs
      else case split_on sep cs of [] \<Rightarrow> [[c]] | p # ps \<Rightarrow> (c # p) # ps)"

lemma split_on_ne [simp]: "split_on sep s \<noteq> []"
  by (induction s) (auto split: list.splits)

lemma split_on_plain: "sep \<notin> set s \<Longrightarrow> split_on sep s = [s]"
  by (induction s) auto

lemma split_on_append:
  "sep \<notin> set s \<Longrightarrow> split_on sep (s @ sep # t) = s # split_on sep t"
  by (induction s) auto

section \<open>The text of an error\<close>

text \<open>What \<^verbatim>\<open>fmt.Sprint\<close> prints for an error value.\<close>

fun error_text :: "go_error \<Rightarrow> string" where
  "error_text ErrCanceled = ''context canceled''"
| "error_text ErrDeadlineExceeded = ''context deadline exceeded''"
| "error_text ErrNotRunning = ''pool not running''"
| "error_text ErrRetryCountExceeded = ''retry count exceeded''"
| "error_text ErrActionNotConfigured = ''action not configured''"
| "error_text ErrKeyPathNotFound = ''Key path not found''"
| "error_text (ErrField f e) =
     ''error parsing field '' @ [CHR 0x27] @ f @ [CHR 0x27] @ '': '' @ error_text e"
| "error_text (ErrText s) = s"
| "error_text (ErrExtern s) = s"

end
