(* ===== verification/Item_Params.thy ===== *)
theory Item_Params
  imports Go_Strings
begin

text \<open>
  Connection parameters, \<^verbatim>\<open>params/params.go\<close>: what a checkout hands to a client. The
  template engine (Go's \<^verbatim>\<open>text/template\<close>, whose language is far larger than what the
  program needs) is an argument of the operations that use it, constrained by the locale
  \<open>template_engine\<close> and instantiated below with the field references that the program's
  documentation describes.
\<close>

section \<open>Docker's container status\<close>

text \<open>
  The parts of \<^verbatim>\<open>types.ContainerJSON\<close> that are read. \<open>None\<close> is a nil pointer. The exposed
  ports are a set in Go; the list is the order in which one \<^verbatim>\<open>range\<close> visits them.
\<close>

record port_binding =
  host_ip :: string
  host_port :: string

record container_json =
  exposed_ports :: "string list option" \<comment> \<open>\<open>Config.ExposedPorts\<close>\<close>
  network_ports :: "(string \<rightharpoonup> port_binding list) option" \<comment> \<open>\<open>NetworkSettings.Ports\<close>\<close>

definition no_status :: container_json where
  "no_status = \<lparr>exposed_ports = None, network_ports = None\<rparr>"

text \<open>\<^verbatim>\<open>nat.SplitProtoPort\<close>: the protocol and the number of a port such as \<open>5432/tcp\<close>.\<close>

definition split_proto_port :: "string \<Rightarrow> string \<times> string" where
  "split_proto_port raw =
     (case split_on CHR ''/'' raw of
        [] \<Rightarrow> ([], [])
      | p # ps \<Rightarrow>
          if raw = [] \<or> p = [] then ([], [])
          else case ps of
            [] \<Rightarrow> (''tcp'', raw)
          | q # _ \<Rightarrow> if q = [] then (''tcp'', p) else (q, p))"

fun tcp_ports_loop ::
  "(string \<rightharpoonup> port_binding list) \<Rightarrow> string list \<Rightarrow> (string \<rightharpoonup> string) \<Rightarrow> (string \<rightharpoonup> string)" where
  "tcp_ports_loop net [] ports = ports"
| "tcp_ports_loop net (port # rest) ports =
     (if fst (split_proto_port port) \<noteq> ''tcp'' then tcp_ports_loop net rest ports
      else case net port of
        None \<Rightarrow> tcp_ports_loop net rest ports
      | Some [] \<Rightarrow> tcp_ports_loop net rest ports
      | Some (b # _) \<Rightarrow>
          tcp_ports_loop net rest (ports(snd (split_proto_port port) \<mapsto> host_port b)))"

definition TCPPortsFor :: "container_json \<Rightarrow> (string \<rightharpoonup> string)" where
  "TCPPortsFor status =
     (case exposed_ports status of
        None \<Rightarrow> Map.empty
      | Some exposed \<Rightarrow>
          (case network_ports status of
             None \<Rightarrow> Map.empty
           | Some net \<Rightarrow> tcp_ports_loop net exposed Map.empty))"

text \<open>A missing key of a Go map reads as the zero value, the empty string.\<close>

definition TCPPortFor :: "container_json \<Rightarrow> int \<Rightarrow> string" where
  "TCPPortFor status port =
     (case TCPPortsFor status (itoa port) of None \<Rightarrow> [] | Some p \<Rightarrow> p)"

section \<open>Parameters\<close>

record 't param_config =
  username :: string
  password :: string
  database :: string
  url :: string
  url_template :: "'t option"

text \<open>\<open>Params\<close> embeds \<open>Config\<close>; its own fields are the identifier and the address.\<close>

record 't params = "'t param_config" +
  param_id :: string
  hostname :: string
  port :: string

definition default_hostname :: string where
  "default_hostname = ''localhost''"

record 't engine =
  template_parse :: "string \<Rightarrow> go_error + 't"
  template_execute :: "'t \<Rightarrow> 't params \<Rightarrow> go_error + string"

text \<open>Executing a nil template is a nil dereference.\<close>

definition ExecuteTemplate ::
  "'t engine \<Rightarrow> 't params \<Rightarrow> 't option \<Rightarrow> (go_error + string) go" where
  "ExecuteTemplate eng p tmpl =
     (case tmpl of None \<Rightarrow> Panic | Some t \<Rightarrow> Done (template_execute eng t p))"

definition Interpolate :: "'t engine \<Rightarrow> 't params \<Rightarrow> string \<Rightarrow> (go_error + string) go" where
  "Interpolate eng p text =
     (case template_parse eng text of
        Inl e \<Rightarrow> Done (Inl e)
      | Inr t \<Rightarrow> ExecuteTemplate eng p (Some t))"

text \<open>\<open>queryEscape\<close> builds a new value: \<open>Url\<close> and the template are left at their zero values.\<close>

definition queryEscape :: "'t params \<Rightarrow> 't params" where
  "queryEscape p =
     \<lparr>username = query_escape (username p), password = query_escape (password p),
      database = query_escape (database p), url = [], url_template = None,
      param_id = query_escape (param_id p), hostname = query_escape (hostname p),
      port = query_escape (port p)\<rparr>"

definition generateURL :: "'t engine \<Rightarrow> 't params \<Rightarrow> (go_error + string) go" where
  "generateURL eng p = ExecuteTemplate eng (queryEscape p) (url_template p)"

text \<open>\<open>ForHost\<close> returns the updated copy beside the error; on an error the url is empty.\<close>

definition ForHost :: "'t engine \<Rightarrow> string \<Rightarrow> 't params \<Rightarrow> ('t params \<times> go_error option) go" where
  "ForHost eng host p =
     (let p1 = p\<lparr>hostname := host\<rparr> in
      go_map (\<lambda>r. case r of
          Inl e \<Rightarrow> (p1\<lparr>url := []\<rparr>, Some e)
        | Inr u \<Rightarrow> (p1\<lparr>url := u\<rparr>, None)) (generateURL eng p1))"

definition ParamsFor ::
  "'t engine \<Rightarrow> 't param_config \<Rightarrow> string \<Rightarrow> container_json \<Rightarrow> int
     \<Rightarrow> ('t params \<times> go_error option) go" where
  "ParamsFor eng c i status prt =
     ForHost eng default_hostname
       \<lparr>username = username c, password = password c, database = database c, url = url c,
        url_template = url_template c, param_id = i, hostname = [],
        port = TCPPortFor status prt\<rparr>"

section \<open>Ports\<close>

lemma split_proto_port_slash:
  "CHR ''/'' \<notin> set n \<Longrightarrow> n \<noteq> [] \<Longrightarrow> CHR ''/'' \<notin> set q \<Longrightarrow> q \<noteq> [] \<Longrightarrow>
     split_proto_port (n @ CHR ''/'' # q) = (q, n)"
  by (simp add: split_proto_port_def split_on_append split_on_plain)

lemma show_nat_digits: "c \<in> set (show_nat n) \<Longrightarrow> \<exists>d < 10. c = digit_char d"
proof (induction n rule: show_nat.induct)
  case (1 n)
  have "n mod 10 < 10" by simp
  with 1 show ?case by (subst (asm) (2) show_nat.simps) (fastforce split: if_splits)
qed

lemma itoa_no_slash: "CHR ''/'' \<notin> set (itoa i)"
proof -
  have "digit_val CHR ''/'' = None" by (simp add: digit_val_def)
  then have "d < 10 \<Longrightarrow> CHR ''/'' \<noteq> digit_char d" for d
    using digit_val_char [of d] by (metis option.distinct(1))
  then show ?thesis
    using show_nat_digits [of "CHR ''/''"] by (auto simp: itoa_def)
qed

lemma itoa_ne [simp]: "itoa i \<noteq> []"
  by (simp add: itoa_def)

lemma tcp_port_split: "split_proto_port (itoa i @ ''/tcp'') = (''tcp'', itoa i)"
  using split_proto_port_slash [of "itoa i" "''tcp''"] itoa_no_slash [of i] by simp

text \<open>
  What one entry of the result comes from, when no two exposed ports have the same number:
  docker writes every port with its protocol, so \<open>number/tcp\<close> is the only spelling.
\<close>

definition tcp_binding :: "(string \<rightharpoonup> port_binding list) \<Rightarrow> string \<Rightarrow> string option" where
  "tcp_binding net p =
     (if fst (split_proto_port p) = ''tcp'' then
        (case net p of Some (b # _) \<Rightarrow> Some (host_port b) | _ \<Rightarrow> None)
      else None)"

lemma tcp_ports_loop_other:
  "(\<forall>p \<in> set ps. snd (split_proto_port p) = k \<longrightarrow> tcp_binding net p = None) \<Longrightarrow>
     tcp_ports_loop net ps m k = m k"
  by (induction ps arbitrary: m) (auto simp: tcp_binding_def split: option.splits list.splits)

lemma tcp_ports_loop_hit:
  "(\<exists>p \<in> set ps. snd (split_proto_port p) = k \<and> tcp_binding net p = Some h) \<or> m k = Some h \<Longrightarrow>
   (\<forall>q \<in> set ps. snd (split_proto_port q) = k \<longrightarrow> tcp_binding net q \<in> {None, Some h}) \<Longrightarrow>
     tcp_ports_loop net ps m k = Some h"
proof (induction ps arbitrary: m)
  case (Cons q ps)
  define m' where "m' = (case tcp_binding net q of None \<Rightarrow> m | Some b \<Rightarrow> m(snd (split_proto_port q) \<mapsto> b))"
  have "tcp_ports_loop net (q # ps) m = tcp_ports_loop net ps m'"
    by (auto simp: m'_def tcp_binding_def split: option.splits list.splits)
  moreover have "(\<exists>p \<in> set ps. snd (split_proto_port p) = k \<and> tcp_binding net p = Some h) \<or> m' k = Some h"
    using Cons.prems by (auto simp: m'_def split: option.splits)
  ultimately show ?case using Cons.IH [of m'] Cons.prems(2) by simp
qed simp

text \<open>
  The host port of the configured port: docker lists each exposed port once, so the first
  binding of \<open>number/tcp\<close> is what the client is given, in whatever order the map is visited.
\<close>

lemma TCPPortFor_bound:
  assumes "exposed_ports st = Some ps" "network_ports st = Some net"
    and "itoa n @ ''/tcp'' \<in> set ps" "net (itoa n @ ''/tcp'') = Some (b # bs)"
    and "\<forall>q \<in> set ps. snd (split_proto_port q) = itoa n \<longrightarrow> q = itoa n @ ''/tcp'' \<or> tcp_binding net q = None"
  shows "TCPPortFor st n = host_port b"
proof -
  have h: "tcp_binding net (itoa n @ ''/tcp'') = Some (host_port b)"
    using assms(4) tcp_port_split [of n] by (simp add: tcp_binding_def)
  then have "tcp_ports_loop net ps Map.empty (itoa n) = Some (host_port b)"
    using assms(3,5) tcp_port_split [of n]
    by (intro tcp_ports_loop_hit) (auto intro!: bexI [of _ "itoa n @ ''/tcp''"])
  then show ?thesis using assms(1,2) by (simp add: TCPPortFor_def TCPPortsFor_def)
qed

lemma TCPPortFor_unbound:
  assumes "exposed_ports st = Some ps" "network_ports st = Some net"
    and "\<forall>q \<in> set ps. snd (split_proto_port q) = itoa n \<longrightarrow> tcp_binding net q = None"
  shows "TCPPortFor st n = []"
  using assms by (simp add: TCPPortFor_def TCPPortsFor_def tcp_ports_loop_other)

lemma TCPPortFor_no_status: "TCPPortFor no_status n = []"
  by (simp add: TCPPortFor_def TCPPortsFor_def no_status_def)

section \<open>What a checkout hands out\<close>

lemma ForHost_fields:
  "ForHost eng host p = Done (q, err) \<Longrightarrow>
     q = p\<lparr>hostname := host, url := url q\<rparr> \<and> (err \<noteq> None \<longrightarrow> url q = [])"
proof -
  assume "ForHost eng host p = Done (q, err)"
  then obtain r where "(q, err) = (case r of
      Inl e \<Rightarrow> (p\<lparr>hostname := host, url := []\<rparr>, Some e)
    | Inr u \<Rightarrow> (p\<lparr>hostname := host, url := u\<rparr>, None))"
    by (auto simp: ForHost_def Let_def go_simps)
  then show ?thesis by (cases r) auto
qed

lemma generateURL_url [simp]:
  "generateURL eng (p\<lparr>url := u, hostname := h\<rparr>) = generateURL eng (p\<lparr>hostname := h\<rparr>)"
  by (simp add: generateURL_def queryEscape_def)

text \<open>Only the last host counts: the url of an earlier rewriting is not part of the new one.\<close>

lemma ForHost_again: "ForHost eng h1 p = Done (q, err) \<Longrightarrow> ForHost eng h2 q = ForHost eng h2 p"
proof -
  assume "ForHost eng h1 p = Done (q, err)"
  then have q: "q = p\<lparr>hostname := h1, url := url q\<rparr>" by (blast dest: ForHost_fields)
  show ?thesis by (subst q) (simp add: ForHost_def Let_def)
qed

lemma ForHost_total: "url_template p = Some t \<Longrightarrow> \<exists>q err. ForHost eng h p = Done (q, err)"
  by (simp add: ForHost_def generateURL_def ExecuteTemplate_def Let_def split: sum.split)

lemma ParamsFor_fields:
  "ParamsFor eng c i st n = Done (p, err) \<Longrightarrow>
     param_id p = i \<and> hostname p = default_hostname \<and> port p = TCPPortFor st n
     \<and> username p = username c \<and> password p = password c \<and> database p = database c
     \<and> (err \<noteq> None \<longrightarrow> url p = [])"
  unfolding ParamsFor_def by (drule ForHost_fields) (metis params.ext_inject params.surjective
    params.update_convs(2) param_config.select_convs param_config.update_convs(4) params.select_convs)

section \<open>The template engine\<close>

text \<open>
  What the program relies on: a text without an action is its own rendering, and a text before
  and after the reference of a field renders with the field's value in its place.
\<close>

definition field_of :: "'t params \<Rightarrow> string \<Rightarrow> string option" where
  "field_of p f =
     (if f = ''Id'' then Some (param_id p)
      else if f = ''Hostname'' then Some (hostname p)
      else if f = ''Port'' then Some (port p)
      else if f = ''Username'' then Some (username p)
      else if f = ''Password'' then Some (password p)
      else if f = ''Database'' then Some (database p)
      else if f = ''Url'' then Some (url p)
      else None)"

definition literal_text :: "string \<Rightarrow> bool" where
  "literal_text s \<longleftrightarrow> CHR ''{'' \<notin> set s"

locale template_engine =
  fixes eng :: "'t engine"
  assumes parse_literal: "literal_text s \<Longrightarrow> \<exists>t. template_parse eng s = Inr t
                            \<and> (\<forall>p. template_execute eng t p = Inr s)"
    and parse_field: "literal_text s \<Longrightarrow> template_parse eng r = Inr tr \<Longrightarrow> field_of (p0 :: 't params) f \<noteq> None \<Longrightarrow>
          \<exists>t. template_parse eng (s @ ''{{.'' @ f @ ''}}'' @ r) = Inr t
            \<and> (\<forall>p v out. field_of p f = Some v \<longrightarrow> template_execute eng tr p = Inr out \<longrightarrow>
                 template_execute eng t p = Inr (s @ v @ out))"
begin

lemma interpolate_literal: "literal_text s \<Longrightarrow> Interpolate eng p s = Done (Inr s)"
  using parse_literal [of s] by (auto simp: Interpolate_def ExecuteTemplate_def)

lemma interpolate_field:
  assumes "literal_text s" "literal_text r" "field_of p f = Some v"
  shows "Interpolate eng p (s @ ''{{.'' @ f @ ''}}'' @ r) = Done (Inr (s @ v @ r))"
proof -
  obtain tr where tr: "template_parse eng r = Inr tr" "\<forall>p. template_execute eng tr p = Inr r"
    using parse_literal [OF assms(2)] by blast
  have "field_of p f \<noteq> None" using assms(3) by simp
  from parse_field [OF assms(1) tr(1) this] obtain t where
    "template_parse eng (s @ ''{{.'' @ f @ ''}}'' @ r) = Inr t"
    "\<forall>p v out. field_of p f = Some v \<longrightarrow> template_execute eng tr p = Inr out \<longrightarrow>
                 template_execute eng t p = Inr (s @ v @ out)"
    by blast
  with tr(2) assms(3) show ?thesis by (simp add: Interpolate_def ExecuteTemplate_def)
qed

end

text \<open>
  The engine on the documented language: texts in which the only actions are references to a
  field. Everything else is an error of this engine.
\<close>

datatype tnode = TChar char | TField string

function parse_nodes :: "string \<Rightarrow> go_error + tnode list" where
  "parse_nodes s =
     (case s of
        [] \<Rightarrow> Inr []
      | c # cs \<Rightarrow>
          if take 3 s = ''{{.'' then
            (let f = takeWhile (\<lambda>x. x \<noteq> CHR ''}'') (drop 3 s);
                 rest = drop (3 + length f) s in
             if take 2 rest = ''}}'' then
               map_sum id ((#) (TField f)) (parse_nodes (drop 2 rest))
             else Inl (ErrText ''template: unclosed action''))
          else if take 2 s = ''{{'' then Inl (ErrText ''template: action outside the language'')
          else map_sum id ((#) (TChar c)) (parse_nodes cs))"
  by pat_completeness auto
termination
  by (relation "measure length") auto

declare parse_nodes.simps [simp del]

fun execute_nodes :: "tnode list \<Rightarrow> tnode list params \<Rightarrow> go_error + string" where
  "execute_nodes [] p = Inr []"
| "execute_nodes (TChar c # ns) p = map_sum id ((#) c) (execute_nodes ns p)"
| "execute_nodes (TField f # ns) p =
     (case field_of p f of
        None \<Rightarrow> Inl (ErrText ''template: no such field'')
      | Some v \<Rightarrow> map_sum id ((@) v) (execute_nodes ns p))"

definition field_engine :: "tnode list engine" where
  "field_engine = \<lparr>template_parse = parse_nodes, template_execute = execute_nodes\<rparr>"

lemma parse_nodes_literal:
  "literal_text s \<Longrightarrow> parse_nodes (s @ r) = map_sum id ((@) (map TChar s)) (parse_nodes r)"
proof (induction s)
  case Nil
  then show ?case by (cases "parse_nodes r") auto
next
  case (Cons c s)
  have "c \<noteq> CHR ''{''" using Cons.prems by (auto simp: literal_text_def)
  then have "parse_nodes ((c # s) @ r) = map_sum id ((#) (TChar c)) (parse_nodes (s @ r))"
    by (subst parse_nodes.simps) (simp add: numeral_3_eq_3 numeral_2_eq_2)
  with Cons show ?case by (cases "parse_nodes r") (auto simp: literal_text_def)
qed

lemma execute_nodes_literal: "execute_nodes (map TChar s @ ns) p = map_sum id ((@) s) (execute_nodes ns p)"
  by (induction s) (auto simp: map_sum.compositionality comp_def sum.map_ident)

lemma field_of_plain: "field_of p f \<noteq> None \<Longrightarrow> CHR ''}'' \<notin> set f"
  by (auto simp: field_of_def split: if_splits)

lemma parse_nodes_field:
  assumes "CHR ''}'' \<notin> set f"
  shows "parse_nodes (''{{.'' @ f @ ''}}'' @ r) = map_sum id ((#) (TField f)) (parse_nodes r)"
proof -
  have "takeWhile (\<lambda>x. x \<noteq> CHR ''}'') (f @ ''}}'' @ r) = f"
    using assms by (subst takeWhile_append2) auto
  then show ?thesis
    by (subst parse_nodes.simps) (simp add: Let_def numeral_3_eq_3 numeral_2_eq_2)
qed

interpretation fields: template_engine field_engine
proof unfold_locales
  fix s :: string
  assume s: "literal_text s"
  show "\<exists>t. template_parse field_engine s = Inr t \<and> (\<forall>p. template_execute field_engine t p = Inr s)"
    using parse_nodes_literal [OF s, of "[]"] execute_nodes_literal [of s "[]"]
    by (simp add: field_engine_def parse_nodes.simps)
next
  fix s r f :: string and tr and p0 :: "tnode list params"
  assume s: "literal_text s" and r: "template_parse field_engine r = Inr tr"
    and f: "field_of p0 f \<noteq> None"
  have "parse_nodes (s @ ''{{.'' @ f @ ''}}'' @ r) = Inr (map TChar s @ TField f # tr)"
    using r parse_nodes_literal [OF s] parse_nodes_field [OF field_of_plain [OF f], of r]
    by (simp add: field_engine_def)
  then show "\<exists>t. template_parse field_engine (s @ ''{{.'' @ f @ ''}}'' @ r) = Inr t
            \<and> (\<forall>p v out. field_of p f = Some v \<longrightarrow> template_execute field_engine tr p = Inr out \<longrightarrow>
                 template_execute field_engine t p = Inr (s @ v @ out))"
    by (simp add: field_engine_def execute_nodes_literal)
qed

end
