(* ===== verification/Pool_Container.thy ===== *)
theory Pool_Container
  imports Item_Params "HOL-Library.Word"
begin

text \<open>
  A docker container as the pool sees it, \<^verbatim>\<open>container.go\<close>: starting and stopping it, each at
  most once, and the goroutine that turns docker's event stream into container events.
\<close>

section \<open>State\<close>

datatype container_event = CStarted | CStartFailed | CExitSuccess | CExitError

text \<open>
  Besides the struct's fields, the state says which goroutines of the container are alive:
  \<open>starting\<close> and \<open>stopping\<close> (\<open>doStart\<close>, \<open>doStop\<close> before their docker calls have answered),
  \<open>start_send\<close> (\<open>doStart\<close> blocked in its send on \<open>eventch\<close>), \<open>wait_status\<close> and \<open>mon_send\<close> (the
  local variable of \<open>doMonitor\<close>, and the send it is blocked in) and \<open>monitoring\<close>.
\<close>

record pcontainer =
  start_once :: bool
  stop_once :: bool
  starting :: bool
  stopping :: bool
  start_send :: "container_event option"
  wait_status :: "32 word"
  mon_send :: "container_event option"
  monitoring :: bool
  status :: container_json

definition createPoolContainer :: pcontainer where
  "createPoolContainer =
     \<lparr>start_once = False, stop_once = False, starting = False, stopping = False,
      start_send = None, wait_status = 0, mon_send = None, monitoring = True,
      status = no_status\<rparr>"

section \<open>Starting and stopping\<close>

definition container_start :: "pcontainer \<Rightarrow> pcontainer" where
  "container_start c =
     (if start_once c then c else c\<lparr>start_once := True, starting := True\<rparr>)"

definition container_stop :: "pcontainer \<Rightarrow> pcontainer" where
  "container_stop c =
     (if stop_once c then c else c\<lparr>stop_once := True, stopping := True\<rparr>)"

text \<open>
  \<open>doStart\<close>, given docker's answers to the start call (an error or none) and to the inspect
  call that follows it.
\<close>

definition doStart ::
  "go_error option \<Rightarrow> (go_error + container_json) \<Rightarrow> pcontainer \<Rightarrow> pcontainer go" where
  "doStart start_err inspect c =
     (if starting c then
        Done (case start_err of
            Some _ \<Rightarrow> c\<lparr>starting := False, start_send := Some CStartFailed\<rparr>
          | None \<Rightarrow>
              (case inspect of
                 Inl _ \<Rightarrow> c\<lparr>starting := False, start_send := Some CStartFailed\<rparr>
               | Inr st \<Rightarrow> c\<lparr>starting := False, status := st, start_send := Some CStarted\<rparr>))
      else Blocked)"

text \<open>\<open>doStop\<close>: the kill's answer is only logged.\<close>

definition doStop :: "pcontainer \<Rightarrow> pcontainer go" where
  "doStop c = (if stopping c then Done (c\<lparr>stopping := False\<rparr>) else Blocked)"

section \<open>The monitor\<close>

text \<open>
  What arrives from docker: an event with its status and its \<open>exitCode\<close> attribute, if it has
  one, or the end of the stream, by an error or by \<^verbatim>\<open>io.EOF\<close>.
\<close>

datatype docker_msg =
    DockerEvent string "string option"
  | StreamError go_error
  | StreamEOF

definition exit_status :: "string option \<Rightarrow> 32 word \<Rightarrow> 32 word" where
  "exit_status attr st =
     (case attr of
        None \<Rightarrow> st
      | Some v \<Rightarrow> (case atoi v of None \<Rightarrow> st | Some code \<Rightarrow> word_of_int code))"

definition exit_event :: "32 word \<Rightarrow> container_event" where
  "exit_event st = (if st = 0 then CExitSuccess else CExitError)"

text \<open>
  One turn of the loop of \<open>doMonitor\<close>. After a stream error \<open>monitor\<close> calls \<open>doMonitor\<close> again,
  whose local \<open>status\<close> starts at zero; after \<^verbatim>\<open>io.EOF\<close> it returns.
\<close>

definition monitor_step :: "docker_msg \<Rightarrow> pcontainer \<Rightarrow> pcontainer go" where
  "monitor_step m c =
     (if monitoring c \<and> mon_send c = None then
        Done (case m of
            DockerEvent s attr \<Rightarrow>
              if s = ''die'' then c\<lparr>wait_status := exit_status attr (wait_status c)\<rparr>
              else if s = ''detach'' \<or> s = ''destroy'' then
                c\<lparr>mon_send := Some (exit_event (wait_status c))\<rparr>
              else c
          | StreamError _ \<Rightarrow> c\<lparr>wait_status := 0\<rparr>
          | StreamEOF \<Rightarrow> c\<lparr>monitoring := False\<rparr>)
      else Blocked)"

text \<open>A receive on \<open>events()\<close>: either blocked sender may be the one that is served.\<close>

definition recv_container_event :: "container_event \<Rightarrow> pcontainer \<Rightarrow> pcontainer go" where
  "recv_container_event e c =
     (if start_send c = Some e then Done (c\<lparr>start_send := None\<rparr>)
      else if mon_send c = Some e then Done (c\<lparr>mon_send := None\<rparr>)
      else Blocked)"

lemmas container_calls [calls] =
  container_start_def container_stop_def doStart_def doStop_def monitor_step_def
  recv_container_event_def

section \<open>The container as a machine\<close>

datatype container_op =
    KStart
  | KStop
  | KDoStart "go_error option" "go_error + container_json"
  | KDoStop
  | KMonitor docker_msg
  | KRecv container_event

fun container_exec :: "container_op \<Rightarrow> pcontainer \<Rightarrow> pcontainer go" where
  "container_exec KStart c = Done (container_start c)"
| "container_exec KStop c = Done (container_stop c)"
| "container_exec (KDoStart e i) c = doStart e i c"
| "container_exec KDoStop c = doStop c"
| "container_exec (KMonitor m) c = monitor_step m c"
| "container_exec (KRecv e) c = recv_container_event e c"

text \<open>
  The monitor alone on a stream of messages whose events are received at once: the container
  events it reports.
\<close>

fun monitor_events :: "docker_msg list \<Rightarrow> 32 word \<Rightarrow> container_event list" where
  "monitor_events [] st = []"
| "monitor_events (m # ms) st =
     (case m of
        DockerEvent s attr \<Rightarrow>
          if s = ''die'' then monitor_events ms (exit_status attr st)
          else if s = ''detach'' \<or> s = ''destroy'' then exit_event st # monitor_events ms st
          else monitor_events ms st
      | StreamError _ \<Rightarrow> monitor_events ms 0
      | StreamEOF \<Rightarrow> [])"

fun monitor_run :: "docker_msg list \<Rightarrow> pcontainer \<Rightarrow> container_event list \<times> pcontainer" where
  "monitor_run [] c = ([], c)"
| "monitor_run (m # ms) c =
     (case monitor_step m c of
        Done c' \<Rightarrow>
          (case mon_send c' of
             None \<Rightarrow> monitor_run ms c'
           | Some e \<Rightarrow> (case monitor_run ms (c'\<lparr>mon_send := None\<rparr>) of (es, c'') \<Rightarrow> (e # es, c'')))
      | _ \<Rightarrow> ([], c))"

lemma monitor_run_stopped: "\<not> monitoring c \<Longrightarrow> monitor_run ms c = ([], c)"
  by (cases ms) (simp_all add: monitor_step_def)

lemma monitor_run_events:
  "monitoring c \<Longrightarrow> mon_send c = None \<Longrightarrow> fst (monitor_run ms c) = monitor_events ms (wait_status c)"
proof (induction ms arbitrary: c)
  case (Cons m ms)
  show ?case
  proof (cases m)
    case (DockerEvent s attr)
    with Cons.prems Cons.IH [of c] Cons.IH [of "c\<lparr>wait_status := exit_status attr (wait_status c)\<rparr>"]
      Cons.IH [of "c\<lparr>mon_send := None\<rparr>"]
    show ?thesis by (simp add: monitor_step_def case_prod_beta)
  next
    case (StreamError e)
    with Cons show ?thesis by (simp add: monitor_step_def)
  next
    case StreamEOF
    with Cons.prems show ?thesis by (simp add: monitor_step_def monitor_run_stopped)
  qed
qed simp

section \<open>Invariants\<close>

text \<open>
  \<open>doStart\<close> runs at most once and after \<open>start\<close>; the monitor only ever sends exit events; a
  container that has not been started has no start event under way.
\<close>

definition container_ok :: "pcontainer \<Rightarrow> bool" where
  "container_ok c \<longleftrightarrow>
     (starting c \<longrightarrow> start_once c \<and> start_send c = None)
     \<and> (\<not> start_once c \<longrightarrow> start_send c = None \<and> status c = no_status)
     \<and> start_send c \<noteq> Some CExitSuccess \<and> start_send c \<noteq> Some CExitError
     \<and> mon_send c \<noteq> Some CStarted \<and> mon_send c \<noteq> Some CStartFailed
     \<and> (stopping c \<longrightarrow> stop_once c)"

lemma container_ok_create: "container_ok createPoolContainer"
  by (simp add: container_ok_def createPoolContainer_def)

lemma container_ok_start: "container_ok c \<Longrightarrow> container_ok (container_start c)"
  by (auto simp: container_ok_def container_start_def)

lemma container_ok_stop: "container_ok c \<Longrightarrow> container_ok (container_stop c)"
  by (auto simp: container_ok_def container_stop_def)

lemma container_ok_doStart: "container_ok c \<Longrightarrow> doStart e i c = Done c' \<Longrightarrow> container_ok c'"
  by (cases e; cases i) (auto simp: container_ok_def doStart_def split: if_splits)

lemma container_ok_doStop: "container_ok c \<Longrightarrow> doStop c = Done c' \<Longrightarrow> container_ok c'"
  by (auto simp: container_ok_def doStop_def split: if_splits)

lemma monitor_step_cases:
  assumes "monitor_step m c = Done c'"
  obtains st where "c' = c\<lparr>wait_status := st\<rparr>"
  | "c' = c\<lparr>mon_send := Some (exit_event (wait_status c))\<rparr>" "mon_send c = None"
  | "c' = c\<lparr>monitoring := False\<rparr>"
proof (cases m)
  case (DockerEvent s attr)
  with assms have "monitoring c \<and> mon_send c = None"
    and "c' = c\<lparr>wait_status := exit_status attr (wait_status c)\<rparr>
      \<or> c' = c\<lparr>mon_send := Some (exit_event (wait_status c))\<rparr> \<or> c' = c"
    by (simp_all add: monitor_step_def split: if_split_asm)
  moreover have "c = c\<lparr>wait_status := wait_status c\<rparr>" by simp
  ultimately show ?thesis using that by metis
next
  case (StreamError e)
  with assms have "c' = c\<lparr>wait_status := 0\<rparr>" by (simp add: monitor_step_def split: if_split_asm)
  then show ?thesis by (rule that(1))
next
  case StreamEOF
  with assms have "c' = c\<lparr>monitoring := False\<rparr>" by (simp add: monitor_step_def split: if_split_asm)
  then show ?thesis by (rule that(3))
qed

lemma container_ok_monitor: "container_ok c \<Longrightarrow> monitor_step m c = Done c' \<Longrightarrow> container_ok c'"
  by (erule monitor_step_cases) (simp_all add: container_ok_def exit_event_def)

lemma container_ok_recv: "container_ok c \<Longrightarrow> recv_container_event e c = Done c' \<Longrightarrow> container_ok c'"
  by (auto simp: container_ok_def recv_container_event_def split: if_splits)

lemmas container_ok_ops =
  container_ok_start container_ok_stop container_ok_doStart container_ok_doStop
  container_ok_monitor container_ok_recv

lemma container_exec_ok: "container_ok c \<Longrightarrow> container_exec op c = Done c' \<Longrightarrow> container_ok c'"
  by (cases op) (auto intro: container_ok_ops)

text \<open>
  How many started events can still come from a container: one while it has not been started
  or its start is under way. No operation increases it.
\<close>

definition start_budget :: "pcontainer \<Rightarrow> nat" where
  "start_budget c =
     (if \<not> start_once c \<or> starting c \<or> start_send c = Some CStarted then 1 else 0)"

end
