(* ===== verification/Pool_Item.thy ===== *)
theory Pool_Item
  imports Pool_Container
begin

text \<open>
  One item of a pool, \<^verbatim>\<open>item.go\<close>: the goroutine that drives a container through its life
  (joined to a pool, started, live, ready, reset, exited), the goroutines it starts for the
  lifecycle actions, and the events it sends to the pool.
\<close>

section \<open>Events and state\<close>

datatype item_event =
    EvStart | EvReset | EvKill
  | EvLiveError | EvLive | EvResetError | EvReady | EvReadyError

datatype pool_event_id = ItemReady | ItemReturned | ItemExit

text \<open>The functions that \<open>do\<close> runs in a goroutine of their own.\<close>

datatype child = OnChildStarted | OnChildLive | OnChildReset

datatype item_emit =
    EmitCreated | EmitStarted | EmitLive | EmitReady | EmitResetting | EmitExiting | EmitExited

text \<open>
  Where \<open>run\<close> is: in \<open>runWaitJoin\<close>, at the \<open>select\<close> of \<open>runMainLoop\<close>, blocked there in the send of
  a ready or of an exit event to the pool, in \<open>drain\<close>, or returned.
\<close>

datatype item_pc = WaitJoin | MainLoop | SendReady | SendExit | ItemDrain | ItemDone

text \<open>What the lifecycle manager of the container answers to its \<open>Has\<close> questions.\<close>

record lifecycle_flags =
  has_initialize :: bool
  has_healthcheck :: bool
  has_reset :: bool

text \<open>
  \<open>posts\<close> are the goroutines of \<open>start\<close>, \<open>reset\<close> and \<open>kill\<close> still in \<open>sendEvent\<close>; \<open>children\<close>
  the functions run by \<open>do\<close> that have not finished their action; \<open>child_sends\<close> those blocked in
  their final send on \<open>events\<close>. The wait group counts the last two.
\<close>

record pitem =
  ipc :: item_pc
  container :: pcontainer
  posts :: "item_event list"
  children :: "child list"
  child_sends :: "item_event list"
  exited :: bool
  cancelled :: bool
  emits :: "item_emit list"

definition createPoolItem :: pitem where
  "createPoolItem =
     \<lparr>ipc = WaitJoin, container = createPoolContainer, posts = [], children = [],
      child_sends = [], exited = False, cancelled = False, emits = [EmitCreated]\<rparr>"

section \<open>Operations called by the pool\<close>

text \<open>
  \<open>join\<close> is a send on \<open>joinch\<close>, which \<open>runWaitJoin\<close> closes when it returns; the other three
  start a goroutine.
\<close>

definition item_join :: "pitem \<Rightarrow> pitem go" where
  "item_join i = (if ipc i = WaitJoin then Done (i\<lparr>ipc := MainLoop\<rparr>) else Panic)"

definition item_start :: "pitem \<Rightarrow> pitem" where
  "item_start i = i\<lparr>posts := posts i @ [EvStart]\<rparr>"

definition item_reset :: "pitem \<Rightarrow> pitem" where
  "item_reset i = i\<lparr>posts := posts i @ [EvReset]\<rparr>"

definition item_kill :: "pitem \<Rightarrow> pitem" where
  "item_kill i = i\<lparr>posts := posts i @ [EvKill]\<rparr>"

section \<open>The actions run by \<open>do\<close>\<close>

text \<open>
  \<open>par\<close> is the error of \<open>currentParams\<close> and \<open>act\<close> that of the lifecycle action, if any. The
  result is the event that is sent at the end.
\<close>

definition onChildStarted ::
  "lifecycle_flags \<Rightarrow> go_error option \<Rightarrow> go_error option \<Rightarrow> item_event" where
  "onChildStarted lc par act =
     (if has_healthcheck lc then
        (case par of
           Some _ \<Rightarrow> EvLiveError
         | None \<Rightarrow> (case act of Some _ \<Rightarrow> EvLiveError | None \<Rightarrow> EvLive))
      else EvLive)"

definition onChildLive ::
  "lifecycle_flags \<Rightarrow> go_error option \<Rightarrow> go_error option \<Rightarrow> item_event" where
  "onChildLive lc par act =
     (if has_initialize lc then
        (case par of
           Some _ \<Rightarrow> EvReadyError
         | None \<Rightarrow> (case act of Some _ \<Rightarrow> EvReadyError | None \<Rightarrow> EvReady))
      else EvReady)"

text \<open>Without a reset action the container is stopped and no event is sent: \<open>None\<close>.\<close>

definition onChildReset ::
  "lifecycle_flags \<Rightarrow> go_error option \<Rightarrow> go_error option \<Rightarrow> item_event option" where
  "onChildReset lc par act =
     (if has_reset lc then
        (case par of
           Some _ \<Rightarrow> Some EvResetError
         | None \<Rightarrow> (case act of Some _ \<Rightarrow> Some EvResetError | None \<Rightarrow> Some EvReady))
      else None)"

fun child_result ::
  "lifecycle_flags \<Rightarrow> child \<Rightarrow> go_error option \<Rightarrow> go_error option \<Rightarrow> item_event option" where
  "child_result lc OnChildStarted par act = Some (onChildStarted lc par act)"
| "child_result lc OnChildLive par act = Some (onChildLive lc par act)"
| "child_result lc OnChildReset par act = onChildReset lc par act"

definition item_child ::
  "lifecycle_flags \<Rightarrow> child \<Rightarrow> go_error option \<Rightarrow> go_error option \<Rightarrow> pitem \<Rightarrow> pitem go" where
  "item_child lc c par act i =
     (if c \<in> set (children i) then
        Done (case child_result lc c par act of
            Some e \<Rightarrow>
              i\<lparr>children := remove1 c (children i), child_sends := child_sends i @ [e]\<rparr>
          | None \<Rightarrow>
              i\<lparr>children := remove1 c (children i), container := container_stop (container i)\<rparr>)
      else Blocked)"

section \<open>The goroutine\<close>

definition emit :: "item_emit \<Rightarrow> pitem \<Rightarrow> pitem" where
  "emit u i = i\<lparr>emits := emits i @ [u]\<rparr>"

definition stop_container :: "pitem \<Rightarrow> pitem" where
  "stop_container i = i\<lparr>container := container_stop (container i)\<rparr>"

definition run_child :: "child \<Rightarrow> pitem \<Rightarrow> pitem" where
  "run_child c i = i\<lparr>children := children i @ [c]\<rparr>"

text \<open>The event case of \<open>runWaitJoin\<close>: everything but a kill is dropped.\<close>

definition wait_join_event :: "item_event \<Rightarrow> pitem \<Rightarrow> pitem" where
  "wait_join_event e i = (case e of EvKill \<Rightarrow> stop_container (emit EmitExiting i) | _ \<Rightarrow> i)"

text \<open>The event case of \<open>runMainLoop\<close>. A reset error has no case of its own.\<close>

definition main_loop_event :: "item_event \<Rightarrow> pitem \<Rightarrow> pitem" where
  "main_loop_event e i =
     (case e of
        EvKill \<Rightarrow> stop_container (emit EmitExiting i)
      | EvStart \<Rightarrow> i\<lparr>container := container_start (container i)\<rparr>
      | EvLive \<Rightarrow> run_child OnChildLive (emit EmitLive i)
      | EvLiveError \<Rightarrow> stop_container (emit EmitExiting i)
      | EvReady \<Rightarrow> (emit EmitReady i)\<lparr>ipc := SendReady\<rparr>
      | EvReadyError \<Rightarrow> stop_container (emit EmitExiting i)
      | EvReset \<Rightarrow> run_child OnChildReset (emit EmitResetting i)
      | EvResetError \<Rightarrow> i)"

text \<open>The container case of \<open>runMainLoop\<close>.\<close>

definition main_loop_container :: "container_event \<Rightarrow> pitem \<Rightarrow> pitem" where
  "main_loop_container e i =
     (case e of
        CStarted \<Rightarrow> run_child OnChildStarted (emit EmitStarted i)
      | _ \<Rightarrow> (emit EmitExited i)\<lparr>ipc := SendExit\<rparr>)"

text \<open>
  A receive on \<open>events\<close>: from a goroutine of \<open>sendEvent\<close>, or from a child. In \<open>drain\<close> the event
  is dropped.
\<close>

definition take_event :: "bool \<Rightarrow> item_event \<Rightarrow> pitem \<Rightarrow> pitem option" where
  "take_event from_child e i =
     (if from_child then
        (if e \<in> set (child_sends i) then Some (i\<lparr>child_sends := remove1 e (child_sends i)\<rparr>) else None)
      else
        (if e \<in> set (posts i) then Some (i\<lparr>posts := remove1 e (posts i)\<rparr>) else None))"

definition item_recv :: "bool \<Rightarrow> item_event \<Rightarrow> pitem \<Rightarrow> pitem go" where
  "item_recv from_child e i =
     (case take_event from_child e i of
        None \<Rightarrow> Blocked
      | Some i' \<Rightarrow>
          (case ipc i of
             WaitJoin \<Rightarrow> Done (wait_join_event e i')
           | MainLoop \<Rightarrow> Done (main_loop_event e i')
           | ItemDrain \<Rightarrow> Done i'
           | _ \<Rightarrow> Blocked))"

definition item_container :: "container_event \<Rightarrow> pitem \<Rightarrow> pitem go" where
  "item_container e i =
     (if ipc i = MainLoop then
        go_map (\<lambda>c. main_loop_container e (i\<lparr>container := c\<rparr>)) (recv_container_event e (container i))
      else Blocked)"

text \<open>
  The pool receives the event the goroutine is sending. After an exit event the deferred calls
  cancel the context and close \<open>exited\<close>.
\<close>

definition item_deliver :: "pitem \<Rightarrow> (pool_event_id \<times> pitem) go" where
  "item_deliver i =
     (case ipc i of
        SendReady \<Rightarrow> Done (ItemReady, i\<lparr>ipc := MainLoop\<rparr>)
      | SendExit \<Rightarrow> Done (ItemExit, i\<lparr>ipc := ItemDrain, exited := True, cancelled := True\<rparr>)
      | _ \<Rightarrow> Blocked)"

text \<open>\<open>drain\<close> returns when the wait group is empty.\<close>

definition item_drained :: "pitem \<Rightarrow> pitem go" where
  "item_drained i =
     (if ipc i = ItemDrain \<and> children i = [] \<and> child_sends i = [] then Done (i\<lparr>ipc := ItemDone\<rparr>)
      else Blocked)"

text \<open>A goroutine of \<open>sendEvent\<close> that finds \<open>exited\<close> closed.\<close>

definition item_drop_post :: "item_event \<Rightarrow> pitem \<Rightarrow> pitem go" where
  "item_drop_post e i =
     (if exited i \<and> e \<in> set (posts i) then Done (i\<lparr>posts := remove1 e (posts i)\<rparr>) else Blocked)"

lemmas item_steps [calls] =
  item_join_def item_start_def item_reset_def item_kill_def item_child_def item_recv_def
  item_container_def item_deliver_def item_drained_def item_drop_post_def

lemmas item_bodies =
  emit_def stop_container_def run_child_def wait_join_event_def main_loop_event_def
  main_loop_container_def take_event_def

section \<open>The item as a machine\<close>

datatype item_op =
    IJoin | IStart | IReset | IKill
  | IRecv bool item_event
  | IContainer container_event
  | IChild child "go_error option" "go_error option"
  | IDeliver
  | IDrained
  | IDropPost item_event
  | IDoStart "go_error option" "go_error + container_json"
  | IDoStop
  | IMonitor docker_msg

fun item_exec ::
  "lifecycle_flags \<Rightarrow> item_op \<Rightarrow> pitem \<Rightarrow> (pool_event_id option \<times> pitem) go" where
  "item_exec lc IJoin i = go_map (Pair None) (item_join i)"
| "item_exec lc IStart i = Done (None, item_start i)"
| "item_exec lc IReset i = Done (None, item_reset i)"
| "item_exec lc IKill i = Done (None, item_kill i)"
| "item_exec lc (IRecv b e) i = go_map (Pair None) (item_recv b e i)"
| "item_exec lc (IContainer e) i = go_map (Pair None) (item_container e i)"
| "item_exec lc (IChild c par act) i = go_map (Pair None) (item_child lc c par act i)"
| "item_exec lc IDeliver i = go_map (\<lambda>(e, i'). (Some e, i')) (item_deliver i)"
| "item_exec lc IDrained i = go_map (Pair None) (item_drained i)"
| "item_exec lc (IDropPost e) i = go_map (Pair None) (item_drop_post e i)"
| "item_exec lc (IDoStart e s) i =
     go_map (\<lambda>c. (None, i\<lparr>container := c\<rparr>)) (doStart e s (container i))"
| "item_exec lc IDoStop i = go_map (\<lambda>c. (None, i\<lparr>container := c\<rparr>)) (doStop (container i))"
| "item_exec lc (IMonitor m) i =
     go_map (\<lambda>c. (None, i\<lparr>container := c\<rparr>)) (monitor_step m (container i))"

text \<open>A history of an item: the events it delivered to the pool, and its final state.\<close>

fun item_run ::
  "lifecycle_flags \<Rightarrow> item_op list \<Rightarrow> pitem \<Rightarrow> (pool_event_id list \<times> pitem) go" where
  "item_run lc [] i = Done ([], i)"
| "item_run lc (op # ops) i =
     (case item_exec lc op i of
        Done (x, i') \<Rightarrow>
          go_map (\<lambda>(es, i''). ((case x of None \<Rightarrow> es | Some e \<Rightarrow> e # es), i'')) (item_run lc ops i')
      | Blocked \<Rightarrow> Blocked
      | Panic \<Rightarrow> Panic)"

section \<open>Invariant\<close>

text \<open>
  The container is sound; nothing has been started before the join; \<open>exited\<close> is closed exactly
  when the main loop has returned; only children send lifecycle results and only the pool's
  calls post requests; the drain ends with no goroutine of the wait group left.
\<close>

definition posted_event :: "item_event \<Rightarrow> bool" where
  "posted_event e \<longleftrightarrow> e = EvStart \<or> e = EvReset \<or> e = EvKill"

definition item_ok :: "pitem \<Rightarrow> bool" where
  "item_ok i \<longleftrightarrow>
     container_ok (container i)
     \<and> (ipc i = WaitJoin \<longrightarrow> \<not> start_once (container i) \<and> children i = [] \<and> child_sends i = [])
     \<and> (exited i \<longleftrightarrow> ipc i = ItemDrain \<or> ipc i = ItemDone) \<and> cancelled i = exited i
     \<and> list_all posted_event (posts i)
     \<and> list_all (\<lambda>e. \<not> posted_event e) (child_sends i)
     \<and> (ipc i = ItemDone \<longrightarrow> children i = [] \<and> child_sends i = [])"

lemma list_all_remove1: "list_all P xs \<Longrightarrow> list_all P (remove1 x xs)"
  by (auto simp: list_all_iff dest: notin_set_remove1 set_remove1_subset [THEN subsetD])

lemma item_ok_create: "item_ok createPoolItem"
  by (simp add: item_ok_def createPoolItem_def container_ok_create) (simp add: createPoolContainer_def)

lemma item_ok_post:
  "item_ok i \<Longrightarrow> item_ok (item_start i)" "item_ok i \<Longrightarrow> item_ok (item_reset i)"
  "item_ok i \<Longrightarrow> item_ok (item_kill i)"
  by (simp_all add: item_ok_def item_start_def item_reset_def item_kill_def posted_event_def)

lemma item_ok_join: "item_ok i \<Longrightarrow> item_join i = Done i' \<Longrightarrow> item_ok i'"
  by (auto simp: item_ok_def item_join_def split: if_splits)

lemma child_result_event: "child_result lc c par act = Some e \<Longrightarrow> \<not> posted_event e"
  by (cases c) (auto simp: posted_event_def onChildStarted_def onChildLive_def onChildReset_def
      split: if_splits option.splits)

lemma item_ok_child:
  assumes "item_ok i" "item_child lc c par act i = Done i'"
  shows "item_ok i'"
proof -
  from assms have c: "c \<in> set (children i)" by (simp add: item_child_def split: if_splits)
  with assms have "ipc i \<noteq> WaitJoin" "ipc i \<noteq> ItemDone" by (auto simp: item_ok_def)
  with assms c show ?thesis
    by (cases "child_result lc c par act")
      (auto simp: item_ok_def item_child_def container_ok_stop dest: child_result_event)
qed

lemma start_once_stop [simp]: "start_once (container_stop c) = start_once c"
  by (simp add: container_stop_def)

lemma take_event_ok:
  assumes "item_ok i" "take_event b e i = Some j"
  shows "item_ok j" and "ipc j = ipc i" and "posted_event e \<longleftrightarrow> \<not> b"
    and "b \<Longrightarrow> ipc i \<noteq> WaitJoin"
proof -
  have t: "(b \<and> e \<in> set (child_sends i) \<and> j = i\<lparr>child_sends := remove1 e (child_sends i)\<rparr>)
      \<or> (\<not> b \<and> e \<in> set (posts i) \<and> j = i\<lparr>posts := remove1 e (posts i)\<rparr>)"
    using assms(2) by (cases b) (simp_all add: take_event_def split: if_split_asm)
  then show "ipc j = ipc i" by (elim disjE) simp_all
  show "item_ok j"
    using t assms(1) by (elim disjE) (simp_all add: item_ok_def list_all_remove1)
  have "list_all posted_event (posts i)" "list_all (\<lambda>e. \<not> posted_event e) (child_sends i)"
    "ipc i = WaitJoin \<longrightarrow> child_sends i = []"
    using assms(1) by (simp_all add: item_ok_def)
  with t show "posted_event e \<longleftrightarrow> \<not> b" "b \<Longrightarrow> ipc i \<noteq> WaitJoin"
    by (auto simp: list_all_iff)
qed

lemma item_ok_wait_event: "item_ok i \<Longrightarrow> ipc i = WaitJoin \<Longrightarrow> item_ok (wait_join_event e i)"
  by (cases e) (simp_all add: item_bodies item_ok_def container_ok_stop)

lemma item_ok_main_event: "item_ok i \<Longrightarrow> ipc i = MainLoop \<Longrightarrow> item_ok (main_loop_event e i)"
  by (cases e) (simp_all add: item_bodies item_ok_def container_ok_stop container_ok_start)

lemma item_ok_recv:
  assumes "item_ok i" "item_recv b e i = Done i'"
  shows "item_ok i'"
proof -
  from assms obtain j where j: "take_event b e i = Some j"
    by (auto simp: item_recv_def split: option.splits)
  note tj = take_event_ok [OF assms(1) j]
  show ?thesis
    using assms(2) tj(1,2) j
    by (cases "ipc i") (auto simp: item_recv_def intro: item_ok_wait_event item_ok_main_event)
qed

lemma item_ok_container:
  assumes "item_ok i" "item_container e i = Done i'"
  shows "item_ok i'"
proof -
  obtain c where c: "recv_container_event e (container i) = Done c" "ipc i = MainLoop"
    "i' = main_loop_container e (i\<lparr>container := c\<rparr>)"
    using assms(2) by (auto simp: item_container_def go_simps split: if_splits)
  have "container_ok c" using assms(1) c(1) container_ok_recv by (auto simp: item_ok_def)
  with assms(1) c(2) show ?thesis
    by (cases e) (simp_all add: c(3) item_ok_def main_loop_container_def run_child_def emit_def)
qed

lemma item_ok_deliver: "item_ok i \<Longrightarrow> item_deliver i = Done (x, i') \<Longrightarrow> item_ok i'"
  by (cases "ipc i") (auto simp: item_deliver_def item_ok_def)

lemma item_ok_drained: "item_ok i \<Longrightarrow> item_drained i = Done i' \<Longrightarrow> item_ok i'"
  by (auto simp: item_drained_def item_ok_def split: if_splits)

lemma item_ok_drop: "item_ok i \<Longrightarrow> item_drop_post e i = Done i' \<Longrightarrow> item_ok i'"
  by (auto simp: item_drop_post_def item_ok_def list_all_remove1 split: if_splits)

lemma item_ok_container_upd:
  "item_ok i \<Longrightarrow> container_ok c \<Longrightarrow> start_once c = start_once (container i) \<Longrightarrow> item_ok (i\<lparr>container := c\<rparr>)"
  by (simp add: item_ok_def)

lemma start_once_steps:
  "doStart err st c = Done c' \<Longrightarrow> start_once c' = start_once c"
  "doStop c = Done c' \<Longrightarrow> start_once c' = start_once c"
  "monitor_step m c = Done c' \<Longrightarrow> start_once c' = start_once c"
proof -
  show "doStart err st c = Done c' \<Longrightarrow> start_once c' = start_once c"
    by (cases err; cases st) (auto simp: doStart_def split: if_splits)
  show "doStop c = Done c' \<Longrightarrow> start_once c' = start_once c"
    by (auto simp: doStop_def split: if_splits)
  show "monitor_step m c = Done c' \<Longrightarrow> start_once c' = start_once c"
    by (erule monitor_step_cases) simp_all
qed

lemma item_ok_docker:
  assumes "item_ok i"
  shows "doStart err st (container i) = Done c \<Longrightarrow> item_ok (i\<lparr>container := c\<rparr>)"
    and "doStop (container i) = Done c \<Longrightarrow> item_ok (i\<lparr>container := c\<rparr>)"
    and "monitor_step m (container i) = Done c \<Longrightarrow> item_ok (i\<lparr>container := c\<rparr>)"
proof -
  have k: "container_ok (container i)" using assms by (simp add: item_ok_def)
  show "doStart err st (container i) = Done c \<Longrightarrow> item_ok (i\<lparr>container := c\<rparr>)"
    by (rule item_ok_container_upd [OF assms container_ok_doStart [OF k]]) (simp_all add: start_once_steps)
  show "doStop (container i) = Done c \<Longrightarrow> item_ok (i\<lparr>container := c\<rparr>)"
    by (rule item_ok_container_upd [OF assms container_ok_doStop [OF k]]) (simp_all add: start_once_steps)
  show "monitor_step m (container i) = Done c \<Longrightarrow> item_ok (i\<lparr>container := c\<rparr>)"
    by (rule item_ok_container_upd [OF assms container_ok_monitor [OF k]]) (simp_all add: start_once_steps)
qed

lemmas item_ok_steps =
  item_ok_post item_ok_join item_ok_child item_ok_recv item_ok_container item_ok_deliver
  item_ok_drained item_ok_drop item_ok_docker

lemma item_exec_ok: "item_ok i \<Longrightarrow> item_exec lc op i = Done (x, i') \<Longrightarrow> item_ok i'"
  by (cases op) (auto simp: go_simps intro: item_ok_steps)

lemma item_run_ok: "item_run lc ops i = Done (es, i') \<Longrightarrow> item_ok i \<Longrightarrow> item_ok i'"
proof (induction ops arbitrary: i es)
  case (Cons op ops)
  then obtain x j fs where "item_exec lc op i = Done (x, j)" "item_run lc ops j = Done (fs, i')"
    by (auto simp: go_simps split: go.splits prod.splits)
  with Cons.IH [of j fs] Cons.prems(2) show ?case by (blast intro: item_exec_ok)
qed simp

end
