(* ===== verification/Pool_Loop.thy ===== *)
theory Pool_Loop
  imports Pool_Item
begin

text \<open>
  The goroutine of a pool, \<^verbatim>\<open>pool.go\<close>. Each \<^theory_text>\<open>select\<close> case is a function from the
  pool's own state to the new state and the calls it then makes, in order, on the buffer, the
  spawner and the items. The calls are carried out one by one in \<open>Pool_System\<close>, because each
  of them can block while the other goroutines go on.
\<close>

section \<open>State\<close>

text \<open>The identifiers docker gives to containers, and that clients send back.\<close>

type_synonym cid = string

datatype pool_state = StateInitializing | StateRunning | StateShutdown

text \<open>
  Where \<open>run\<close> is: before or in \<open>runInitialize\<close>, in its own call of \<open>Stop\<close> after a failed
  initialisation, at the \<open>select\<close> of \<open>runRunning\<close>, of \<open>runDrainSpawner\<close>, of \<open>runDrainItems\<close>, or
  returned.
\<close>

datatype pool_pc = PInit | PSelfStop | PRunning | PDrainSpawner | PDrainItems | PDone

text \<open>
  The map \<open>items\<close> is kept as the list of its keys: the item of a key is the one with that
  identifier. The loops over the map post independent messages, so their order is immaterial.
\<close>

record pool =
  ppc :: pool_pc
  pstate :: pool_state
  psize :: int
  pitems :: "cid list"
  init_err :: "go_error option"
  initch_closed :: bool
  donech_closed :: bool

datatype pool_emit =
    PoolInitializing | PoolInitializeError go_error | PoolRunning | PoolDraining | PoolDone
  | PoolNumItems nat

datatype pool_call =
    CallPut cid
  | CallBufferStop
  | CallSpawnerStop
  | CallRequest int
  | CallJoin cid
  | CallStart cid
  | CallReset cid
  | CallKill cid
  | CallCloseInit
  | CallCloseDone
  | CallEmit pool_emit

definition newPool :: "int \<Rightarrow> pool" where
  "newPool n =
     \<lparr>ppc = PInit, pstate = StateInitializing, psize = n, pitems = [], init_err = None,
      initch_closed = False, donech_closed = False\<rparr>"

section \<open>The map of items\<close>

definition items_insert :: "cid \<Rightarrow> cid list \<Rightarrow> cid list" where
  "items_insert i ids = (if i \<in> set ids then ids else ids @ [i])"

definition items_delete :: "cid \<Rightarrow> cid list \<Rightarrow> cid list" where
  "items_delete i ids = removeAll i ids"

lemma set_items [simp]:
  "set (items_insert i ids) = insert i (set ids)"
  "set (items_delete i ids) = set ids - {i}"
  by (auto simp: items_insert_def items_delete_def)

lemma distinct_items [simp]:
  "distinct ids \<Longrightarrow> distinct (items_insert i ids)"
  "distinct ids \<Longrightarrow> distinct (items_delete i ids)"
  by (auto simp: items_insert_def items_delete_def distinct_removeAll)

section \<open>Shared pieces\<close>

text \<open>\<open>lcid\<close> (\<^verbatim>\<open>util.go\<close>) takes the first twelve bytes of an identifier, for the log.\<close>

definition lcid :: "cid \<Rightarrow> string go" where
  "lcid i = (if length i < 12 then Panic else Done (take 12 i))"

definition primeBacklog :: "pool \<Rightarrow> pool_call list" where
  "primeBacklog p =
     (let current = int (length (pitems p)) in
      if current < psize p then [CallRequest (psize p - current)] else [])"

definition killItems :: "pool \<Rightarrow> pool_call list" where
  "killItems p = map CallKill (pitems p)"

definition emit_num_items :: "pool \<Rightarrow> pool_call" where
  "emit_num_items p = CallEmit (PoolNumItems (length (pitems p)))"

section \<open>\<open>run\<close> and \<open>runInitialize\<close>\<close>

text \<open>The argument is what \<open>ensureImage\<close> returned.\<close>

definition runInitialize :: "go_error option \<Rightarrow> pool \<Rightarrow> pool \<times> pool_call list" where
  "runInitialize err p =
     (case err of
        Some e \<Rightarrow>
          (p\<lparr>pstate := StateShutdown, init_err := Some e, ppc := PSelfStop\<rparr>,
           [CallCloseInit, CallEmit (PoolInitializeError e)])
      | None \<Rightarrow>
          (p\<lparr>pstate := StateRunning, ppc := PRunning\<rparr>,
           primeBacklog p @ [CallCloseInit, CallEmit PoolRunning]))"

text \<open>
  The pool's call of its own \<open>Stop\<close> waits for a receiver on \<open>shutdownch\<close>, and the only one is
  \<open>runRunning\<close>, or for \<open>donech\<close> to be closed.
\<close>

definition run_self_stop :: "pool \<Rightarrow> (pool \<times> pool_call list) go" where
  "run_self_stop p = (if donech_closed p then Done (p\<lparr>ppc := PRunning\<rparr>, []) else Blocked)"

section \<open>\<open>runRunning\<close>\<close>

definition running_shutdown :: "pool \<Rightarrow> pool \<times> pool_call list" where
  "running_shutdown p =
     (p\<lparr>pstate := StateShutdown, ppc := PDrainSpawner\<rparr>,
      [CallBufferStop, CallSpawnerStop] @ killItems p @ [CallEmit PoolDraining] @ killItems p)"

text \<open>A nil item, which a closed channel yields, is dereferenced.\<close>

definition running_next :: "cid option \<Rightarrow> pool \<Rightarrow> (pool \<times> pool_call list) go" where
  "running_next r p =
     (case r of
        None \<Rightarrow> Panic
      | Some i \<Rightarrow>
          (let p' = p\<lparr>pitems := items_insert i (pitems p)\<rparr> in
           Done (p', [CallJoin i, CallStart i, emit_num_items p'])))"

text \<open>\<open>debugEvent\<close> calls \<open>lcid\<close> at every log level, so it is part of every event's handling.\<close>

definition running_event :: "pool_event_id \<Rightarrow> cid \<Rightarrow> pool \<Rightarrow> (pool \<times> pool_call list) go" where
  "running_event e i p =
     (case lcid i of
        Done _ \<Rightarrow>
          (case e of
             ItemReady \<Rightarrow> Done (p, if i \<in> set (pitems p) then [CallPut i] else [])
           | ItemReturned \<Rightarrow> Done (p, if i \<in> set (pitems p) then [CallReset i] else [])
           | ItemExit \<Rightarrow>
               (let p' = p\<lparr>pitems := items_delete i (pitems p)\<rparr> in
                Done (p', emit_num_items p' # primeBacklog p')))
      | _ \<Rightarrow> Panic)"

section \<open>\<open>runDrainSpawner\<close> and \<open>runDrainItems\<close>\<close>

definition handleDrainingEvent :: "pool_event_id \<Rightarrow> cid \<Rightarrow> pool \<Rightarrow> (pool \<times> pool_call list) go" where
  "handleDrainingEvent e i p =
     (case lcid i of
        Done _ \<Rightarrow>
          (case e of
             ItemExit \<Rightarrow>
               (let p' = p\<lparr>pitems := items_delete i (pitems p)\<rparr> in Done (p', [emit_num_items p']))
           | _ \<Rightarrow> Done (p, if i \<in> set (pitems p) then [CallKill i] else []))
      | _ \<Rightarrow> Panic)"

text \<open>The top of the loop of \<open>runDrainItems\<close>; when it returns, so does \<open>run\<close>.\<close>

definition drain_items_top :: "pool \<Rightarrow> pool \<times> pool_call list" where
  "drain_items_top p =
     (if pitems p = [] then (p\<lparr>ppc := PDone\<rparr>, [CallEmit PoolDone, CallCloseDone])
      else (p, killItems p))"

definition drain_spawner_next :: "cid option \<Rightarrow> pool \<Rightarrow> pool \<times> pool_call list" where
  "drain_spawner_next r p =
     (case r of
        None \<Rightarrow> drain_items_top (p\<lparr>ppc := PDrainItems\<rparr>)
      | Some i \<Rightarrow> (p, CallKill i # killItems p))"

text \<open>After an event the loop starts again from its top.\<close>

definition drain_event :: "pool_event_id \<Rightarrow> cid \<Rightarrow> pool \<Rightarrow> (pool \<times> pool_call list) go" where
  "drain_event e i p =
     go_map (\<lambda>(p', cs).
        case ppc p' of
          PDrainItems \<Rightarrow> (case drain_items_top p' of (p'', ks) \<Rightarrow> (p'', cs @ ks))
        | _ \<Rightarrow> (p', cs @ killItems p'))
       (handleDrainingEvent e i p)"

text \<open>The event case of whichever loop is running.\<close>

definition pool_event :: "pool_event_id \<Rightarrow> cid \<Rightarrow> pool \<Rightarrow> (pool \<times> pool_call list) go" where
  "pool_event e i p =
     (case ppc p of
        PRunning \<Rightarrow> running_event e i p
      | PDrainSpawner \<Rightarrow> drain_event e i p
      | PDrainItems \<Rightarrow> drain_event e i p
      | _ \<Rightarrow> Blocked)"

lemmas pool_handlers [calls] =
  runInitialize_def run_self_stop_def running_shutdown_def running_next_def running_event_def
  handleDrainingEvent_def drain_items_top_def drain_spawner_next_def drain_event_def pool_event_def

section \<open>What an event does to the pool\<close>

text \<open>The handlers agree on the map: only an exit changes it, by removing the item.\<close>

lemma lcid_Done [simp]: "lcid i = Done x \<longleftrightarrow> x = take 12 i \<and> \<not> length i < 12"
  by (auto simp: lcid_def)

lemma pool_event_panic: "length i < 12 \<Longrightarrow> ppc p \<in> {PRunning, PDrainSpawner, PDrainItems} \<Longrightarrow> pool_event e i p = Panic"
  by (auto simp: pool_event_def running_event_def drain_event_def handleDrainingEvent_def lcid_def)

lemma pool_event_no_panic: "\<not> length i < 12 \<Longrightarrow> pool_event e i p \<noteq> Panic"
  by (cases "ppc p"; cases e)
    (auto simp: pool_event_def running_event_def drain_event_def handleDrainingEvent_def lcid_def Let_def)

end
