(* ===== verification/Item_Buffer.thy ===== *)
theory Item_Buffer
  imports Go_Prelude
begin

text \<open>
  The buffer of ready items, \<^verbatim>\<open>buffer.go\<close>. Its goroutine owns a slice and serves two
  unbuffered channels: \<^verbatim>\<open>inch\<close>, on which the pool puts items, and \<^verbatim>\<open>outch\<close>, on which
  checkouts take them.
\<close>

section \<open>State and operations\<close>

record 'i pibuffer =
  buf :: "'i list"
  inch_closed :: bool
  outch_closed :: bool
  num_ready :: nat \<comment> \<open>the last value given to \<open>uie.EmitNumReady\<close>\<close>

definition newPoolItemBuffer :: "'i pibuffer" where
  "newPoolItemBuffer = \<lparr>buf = [], inch_closed = False, outch_closed = False, num_ready = 0\<rparr>"

text \<open>\<open>put\<close>: the send on \<open>inch\<close> meets the receive of \<open>run\<close>, which appends and loops.\<close>

definition buffer_put :: "'i \<Rightarrow> 'i pibuffer \<Rightarrow> 'i pibuffer go" where
  "buffer_put c b =
     (if inch_closed b then Panic
      else Done (b\<lparr>buf := buf b @ [c], num_ready := length (buf b @ [c])\<rparr>))"

text \<open>
  A receive on \<open>outch\<close> (the channel that \<open>get\<close> returns). The send case of \<open>run\<close> is armed only
  while the slice is not empty; a closed \<open>outch\<close> yields the zero value with \<open>ok = false\<close>.
  Closing \<open>inch\<close> does not disarm the send case: while \<open>run\<close> has not taken the closing into
  account, a waiting receiver can still be served.
\<close>

definition buffer_get :: "'i pibuffer \<Rightarrow> ('i option \<times> 'i pibuffer) go" where
  "buffer_get b =
     (if outch_closed b then Done (None, b)
      else case buf b of
        [] \<Rightarrow> Blocked
      | x # xs \<Rightarrow> Done (Some x, b\<lparr>buf := xs, num_ready := length xs\<rparr>))"

definition buffer_stop :: "'i pibuffer \<Rightarrow> 'i pibuffer go" where
  "buffer_stop b = (if inch_closed b then Panic else Done (b\<lparr>inch_closed := True\<rparr>))"

text \<open>The \<open>!ok\<close> branch of \<open>run\<close>: the goroutine returns and its deferred close runs.\<close>

definition buffer_exit :: "'i pibuffer \<Rightarrow> 'i pibuffer go" where
  "buffer_exit b =
     (if inch_closed b \<and> \<not> outch_closed b
      then Done (b\<lparr>outch_closed := True, num_ready := 0\<rparr>) else Blocked)"

lemmas buffer_calls [calls] = buffer_put_def buffer_get_def buffer_stop_def buffer_exit_def

section \<open>The goroutine as a machine\<close>

datatype 'i buffer_op = BPut 'i | BGet | BStop | BExit

fun buffer_exec :: "'i buffer_op \<Rightarrow> 'i pibuffer \<Rightarrow> ('i option \<times> 'i pibuffer) go" where
  "buffer_exec (BPut c) b = go_map (Pair None) (buffer_put c b)"
| "buffer_exec BGet b = buffer_get b"
| "buffer_exec BStop b = go_map (Pair None) (buffer_stop b)"
| "buffer_exec BExit b = go_map (Pair None) (buffer_exit b)"

text \<open>A history: the operations that took place, the items they handed out, the final state.\<close>

fun buffer_run :: "'i buffer_op list \<Rightarrow> 'i pibuffer \<Rightarrow> ('i list \<times> 'i pibuffer) go" where
  "buffer_run [] b = Done ([], b)"
| "buffer_run (op # ops) b =
     (case buffer_exec op b of
        Done (x, b') \<Rightarrow>
          go_map (\<lambda>(ys, b''). ((case x of None \<Rightarrow> ys | Some y \<Rightarrow> y # ys), b'')) (buffer_run ops b')
      | Blocked \<Rightarrow> Blocked
      | Panic \<Rightarrow> Panic)"

fun puts :: "'i buffer_op list \<Rightarrow> 'i list" where
  "puts [] = []"
| "puts (BPut c # ops) = c # puts ops"
| "puts (_ # ops) = puts ops"

section \<open>The interface the pool relies on\<close>

text \<open>
  What a pool needs of a ready buffer: a queue \<open>contents\<close>, a put that appends, a take that
  removes the oldest, and a stop after which a put is a fault.
\<close>

locale ready_queue =
  fixes put :: "'i \<Rightarrow> 'q \<Rightarrow> 'q go"
    and take :: "'q \<Rightarrow> ('i option \<times> 'q) go"
    and contents :: "'q \<Rightarrow> 'i list"
    and accepting :: "'q \<Rightarrow> bool"
    and serving :: "'q \<Rightarrow> bool"
  assumes put_open: "accepting q \<Longrightarrow> \<exists>q'. put c q = Done q' \<and> contents q' = contents q @ [c]
                        \<and> accepting q' \<and> serving q' = serving q"
    and put_shut: "\<not> accepting q \<Longrightarrow> put c q = Panic"
    and take_some: "serving q \<Longrightarrow> contents q = x # xs \<Longrightarrow>
                      \<exists>q'. take q = Done (Some x, q') \<and> contents q' = xs
                        \<and> accepting q' = accepting q \<and> serving q'"
    and take_empty: "serving q \<Longrightarrow> contents q = [] \<Longrightarrow> take q = Blocked"
    and take_shut: "\<not> serving q \<Longrightarrow> take q = Done (None, q)"
begin

lemma put_Done:
  "put c q = Done q' \<Longrightarrow> contents q' = contents q @ [c] \<and> accepting q \<and> accepting q'
     \<and> serving q' = serving q"
  using put_open [of q c] put_shut [of q c] by (cases "accepting q") auto

lemma take_Done:
  "take q = Done (r, q') \<Longrightarrow>
     (case r of None \<Rightarrow> q' = q \<and> \<not> serving q | Some x \<Rightarrow> contents q = x # contents q' \<and> serving q)"
proof (cases "serving q")
  case False
  assume "take q = Done (r, q')"
  with False show ?thesis by (simp add: take_shut)
next
  case True
  assume t: "take q = Done (r, q')"
  show ?thesis
  proof (cases "contents q")
    case Nil
    with True t show ?thesis by (simp add: take_empty)
  next
    case (Cons x xs)
    with take_some [OF True Cons] t True show ?thesis by auto
  qed
qed

lemma put_take:
  "accepting q \<Longrightarrow> serving q \<Longrightarrow> contents q = [] \<Longrightarrow> put c q = Done q' \<Longrightarrow>
     \<exists>q''. take q' = Done (Some c, q'') \<and> contents q'' = []"
  using put_Done [of c q q'] take_some [of q' c "[]"] by auto

end

interpretation rbuf: ready_queue buffer_put buffer_get buf
  "\<lambda>b. \<not> inch_closed b" "\<lambda>b. \<not> outch_closed b"
  by unfold_locales (auto simp: calls)

section \<open>Histories are first-in first-out\<close>

lemma buffer_exec_Done:
  assumes "buffer_exec op b = Done (x, b')"
  shows "buf b @ puts [op] = (case x of None \<Rightarrow> [] | Some y \<Rightarrow> [y]) @ buf b'"
proof (cases op)
  case (BPut c)
  with assms show ?thesis by (auto simp: go_simps dest: rbuf.put_Done)
next
  case BGet
  with assms show ?thesis by (auto dest: rbuf.take_Done split: option.splits)
qed (use assms in \<open>auto simp: go_simps calls split: if_splits\<close>)

lemma puts_Cons: "puts (op # ops) = puts [op] @ puts ops"
  by (cases op) auto

lemma buffer_run_queue:
  "buffer_run ops b = Done (ys, b') \<Longrightarrow> buf b @ puts ops = ys @ buf b'"
proof (induction ops arbitrary: b ys)
  case (Cons op ops)
  then obtain x b1 zs where e: "buffer_exec op b = Done (x, b1)"
    and r: "buffer_run ops b1 = Done (zs, b')"
    and ys: "ys = (case x of None \<Rightarrow> zs | Some y \<Rightarrow> y # zs)"
    by (auto simp: go_simps split: go.splits prod.splits)
  from Cons.IH [OF r] buffer_exec_Done [OF e] ys
  show ?case
    by (subst puts_Cons) (auto simp: append_assoc [symmetric] simp del: append_assoc split: option.splits)
qed simp

text \<open>
  The number shown in the user interface is the number of waiting items, and the output
  channel is closed only after the input channel.
\<close>

definition buffer_ok :: "'i pibuffer \<Rightarrow> bool" where
  "buffer_ok b \<longleftrightarrow> num_ready b = (if outch_closed b then 0 else length (buf b))
     \<and> (outch_closed b \<longrightarrow> inch_closed b)"

lemma buffer_ok_new: "buffer_ok newPoolItemBuffer"
  by (simp add: buffer_ok_def newPoolItemBuffer_def)

lemma buffer_exec_ok: "buffer_exec op b = Done (x, b') \<Longrightarrow> buffer_ok b \<Longrightarrow> buffer_ok b'"
  by (cases op) (auto simp: buffer_ok_def go_simps calls split: if_splits list.splits)

lemma buffer_run_ok: "buffer_run ops b = Done (ys, b') \<Longrightarrow> buffer_ok b \<Longrightarrow> buffer_ok b'"
proof (induction ops arbitrary: b ys)
  case (Cons op ops)
  then obtain x b1 zs where "buffer_exec op b = Done (x, b1)" "buffer_run ops b1 = Done (zs, b')"
    by (auto simp: go_simps split: go.splits prod.splits)
  with Cons.IH [of b1 zs] Cons.prems(2) show ?case by (blast intro: buffer_exec_ok)
qed simp

end
