(* ===== verification/Item_Spawner.thy ===== *)
theory Item_Spawner
  imports Go_Prelude
begin

text \<open>
  The spawner, \<^verbatim>\<open>spawner.go\<close>: a goroutine that keeps \<^verbatim>\<open>needed\<close> container creations
  in flight and hands the created items to the pool over the unbuffered \<^verbatim>\<open>nextch\<close>.
  Requests arrive on \<^verbatim>\<open>requestch\<close>, which has room for five.
\<close>

section \<open>State\<close>

text \<open>
  Where the goroutine is: at the \<open>select\<close> of \<open>fillRequests\<close>, blocked in its send on \<open>nextch\<close>,
  at the \<open>select\<close> of \<open>drain\<close>, blocked in the send of \<open>drain\<close>, or returned (\<open>nextch\<close> closed).
  \<open>workers\<close> counts the goroutines started by \<open>fill\<close> whose result has not been received.
\<close>

datatype 'i spawner_pc = SFilling | SSending 'i | SDraining | SDrainSending 'i | SExited

record 'i pispawner =
  pending :: int
  needed :: int
  requestch :: "int list"
  requestch_closed :: bool
  workers :: nat
  spc :: "'i spawner_pc"
  num_pending :: int \<comment> \<open>the last value given to \<open>uie.EmitNumPending\<close>\<close>

definition request_cap :: nat where
  "request_cap = 5"

section \<open>Operations\<close>

text \<open>\<open>fill\<close>: the loop starts one goroutine per missing creation.\<close>

function spawner_fill :: "'i pispawner \<Rightarrow> 'i pispawner" where
  "spawner_fill s =
     (if pending s < needed s
      then spawner_fill (s\<lparr>pending := pending s + 1, workers := Suc (workers s)\<rparr>)
      else s)"
  by pat_completeness auto
termination
  by (relation "measure (\<lambda>s. nat (needed s - pending s))") auto

declare spawner_fill.simps [simp del]

text \<open>The top of the \<open>fillRequests\<close> loop, up to its \<open>select\<close>.\<close>

definition fill_top :: "'i pispawner \<Rightarrow> 'i pispawner" where
  "fill_top s = (let s' = spawner_fill s in s'\<lparr>spc := SFilling, num_pending := pending s'\<rparr>)"

text \<open>The top of the \<open>drain\<close> loop: return (closing \<open>nextch\<close>) or wait for a result.\<close>

definition drain_top :: "'i pispawner \<Rightarrow> 'i pispawner" where
  "drain_top s = s\<lparr>num_pending := pending s, spc := (if pending s \<le> 0 then SExited else SDraining)\<rparr>"

definition newPoolItemSpawner :: "'i pispawner" where
  "newPoolItemSpawner = fill_top
     \<lparr>pending = 0, needed = 0, requestch = [], requestch_closed = False, workers = 0,
      spc = SFilling, num_pending = 0\<rparr>"

definition spawner_request :: "int \<Rightarrow> 'i pispawner \<Rightarrow> 'i pispawner go" where
  "spawner_request count s =
     (if requestch_closed s then Panic
      else if length (requestch s) < request_cap then Done (s\<lparr>requestch := requestch s @ [count]\<rparr>)
      else Blocked)"

definition spawner_stop :: "'i pispawner \<Rightarrow> 'i pispawner go" where
  "spawner_stop s = (if requestch_closed s then Panic else Done (s\<lparr>requestch_closed := True\<rparr>))"

text \<open>The request case of \<open>fillRequests\<close>: buffered requests are received before the close is.\<close>

definition spawner_recv_request :: "'i pispawner \<Rightarrow> 'i pispawner go" where
  "spawner_recv_request s =
     (case spc s of
        SFilling \<Rightarrow>
          (case requestch s of
             r # rs \<Rightarrow> Done (fill_top (s\<lparr>requestch := rs, needed := r\<rparr>))
           | [] \<Rightarrow> if requestch_closed s then Done (drain_top s) else Blocked)
      | _ \<Rightarrow> Blocked)"

text \<open>The result case of either loop: \<open>None\<close> is a failed creation.\<close>

definition spawner_result :: "'i option \<Rightarrow> 'i pispawner \<Rightarrow> 'i pispawner go" where
  "spawner_result r s =
     (if workers s = 0 then Blocked
      else let s1 = s\<lparr>pending := pending s - 1, workers := workers s - 1\<rparr> in
        case spc s of
          SFilling \<Rightarrow>
            (case r of
               None \<Rightarrow> Done (fill_top s1)
             | Some i \<Rightarrow>
                 Done (s1\<lparr>needed := (if 0 < needed s1 then needed s1 - 1 else needed s1),
                          spc := SSending i\<rparr>))
        | SDraining \<Rightarrow>
            (case r of
               None \<Rightarrow> Done (drain_top s1)
             | Some i \<Rightarrow> Done (s1\<lparr>spc := SDrainSending i\<rparr>))
        | _ \<Rightarrow> Blocked)"

text \<open>A receive on \<open>nextch\<close>, and what the goroutine does once its send has gone through.\<close>

definition spawner_next :: "'i pispawner \<Rightarrow> ('i option \<times> 'i pispawner) go" where
  "spawner_next s =
     (case spc s of
        SSending i \<Rightarrow> Done (Some i, fill_top s)
      | SDrainSending i \<Rightarrow> Done (Some i, drain_top s)
      | SExited \<Rightarrow> Done (None, s)
      | _ \<Rightarrow> Blocked)"

lemmas spawner_calls [calls] =
  spawner_request_def spawner_stop_def spawner_recv_request_def spawner_result_def spawner_next_def

section \<open>What \<open>fill\<close> computes\<close>

lemma spawner_fill_eq:
  "spawner_fill s =
     s\<lparr>pending := max (pending s) (needed s), workers := workers s + nat (needed s - pending s)\<rparr>"
proof (induction s rule: spawner_fill.induct)
  case (1 s)
  show ?case
  proof (cases "pending s < needed s")
    case True
    from 1 [OF True] True show ?thesis
      by (subst spawner_fill.simps) (auto simp: max_def nat_diff_distrib' Suc_nat_eq_nat_zadd1 nat_eq_iff)
  next
    case False
    then show ?thesis by (subst spawner_fill.simps) (simp add: max_def)
  qed
qed

lemma fill_top_eq:
  "fill_top s =
     s\<lparr>pending := max (pending s) (needed s), workers := workers s + nat (needed s - pending s),
       spc := SFilling, num_pending := max (pending s) (needed s)\<rparr>"
  by (simp add: fill_top_def spawner_fill_eq)

section \<open>The invariant\<close>

text \<open>
  \<open>pending\<close> is exactly the number of creations in flight, so it is never negative and no
  result is left over when the drain ends; at the \<open>select\<close> of \<open>fillRequests\<close> at least
  \<open>needed\<close> creations are in flight; the drain starts after the requests are closed and read.
\<close>

definition spawner_ok :: "'i pispawner \<Rightarrow> bool" where
  "spawner_ok s \<longleftrightarrow>
     pending s = int (workers s) \<and> length (requestch s) \<le> request_cap
     \<and> (spc s = SFilling \<longrightarrow> needed s \<le> pending s \<and> num_pending s = pending s)
     \<and> (spc s = SDraining \<longrightarrow> 0 < workers s \<and> num_pending s = pending s)
     \<and> (spc s = SExited \<longrightarrow> workers s = 0 \<and> num_pending s = 0)
     \<and> ((case spc s of SFilling \<Rightarrow> False | SSending _ \<Rightarrow> False | _ \<Rightarrow> True) \<longrightarrow>
          requestch s = [] \<and> requestch_closed s)"

lemma spawner_ok_new: "spawner_ok newPoolItemSpawner"
  by (simp add: newPoolItemSpawner_def fill_top_eq spawner_ok_def)

lemma spawner_ok_request: "spawner_ok s \<Longrightarrow> spawner_request n s = Done s' \<Longrightarrow> spawner_ok s'"
  by (auto simp: spawner_ok_def spawner_request_def split: if_splits spawner_pc.splits)

lemma spawner_ok_stop: "spawner_ok s \<Longrightarrow> spawner_stop s = Done s' \<Longrightarrow> spawner_ok s'"
  by (auto simp: spawner_ok_def spawner_stop_def split: if_splits spawner_pc.splits)

lemma spawner_ok_recv: "spawner_ok s \<Longrightarrow> spawner_recv_request s = Done s' \<Longrightarrow> spawner_ok s'"
  by (auto simp: spawner_ok_def spawner_recv_request_def fill_top_eq drain_top_def
      split: if_splits spawner_pc.splits list.splits)

lemma spawner_ok_result: "spawner_ok s \<Longrightarrow> spawner_result r s = Done s' \<Longrightarrow> spawner_ok s'"
  by (auto simp: spawner_ok_def spawner_result_def fill_top_eq drain_top_def Let_def
      split: if_splits spawner_pc.splits option.splits)

lemma spawner_ok_next: "spawner_ok s \<Longrightarrow> spawner_next s = Done (r, s') \<Longrightarrow> spawner_ok s'"
  by (auto simp: spawner_ok_def spawner_next_def fill_top_eq drain_top_def
      split: if_splits spawner_pc.splits)

section \<open>The interface the pool relies on\<close>

text \<open>
  A source of new items: a request is a fault once the source has been stopped and before that
  either accepted or made to wait; the supply ends only after a stop, with nothing outstanding.
\<close>

locale item_source =
  fixes request :: "int \<Rightarrow> 's \<Rightarrow> 's go"
    and halt :: "'s \<Rightarrow> 's go"
    and provide :: "'s \<Rightarrow> ('i option \<times> 's) go"
    and outstanding :: "'s \<Rightarrow> nat"
    and requests_open :: "'s \<Rightarrow> bool"
    and ok :: "'s \<Rightarrow> bool"
  assumes request_open: "ok s \<Longrightarrow> requests_open s \<Longrightarrow> request n s \<noteq> Panic"
    and request_shut: "\<not> requests_open s \<Longrightarrow> request n s = Panic"
    and request_keeps: "request n s = Done s' \<Longrightarrow> requests_open s' \<and> outstanding s' = outstanding s"
    and halt_open: "requests_open s \<Longrightarrow> \<exists>s'. halt s = Done s' \<and> \<not> requests_open s'"
    and halt_shut: "\<not> requests_open s \<Longrightarrow> halt s = Panic"
    and provide_end: "ok s \<Longrightarrow> provide s = Done (None, s') \<Longrightarrow>
                       s' = s \<and> outstanding s = 0 \<and> \<not> requests_open s"
    and provide_sound: "provide s \<noteq> Panic"
    and provide_open: "provide s = Done (r, s') \<Longrightarrow> requests_open s' = requests_open s"
    and ok_request: "ok s \<Longrightarrow> request n s = Done s' \<Longrightarrow> ok s'"
    and ok_halt: "ok s \<Longrightarrow> halt s = Done s' \<Longrightarrow> ok s'"
    and ok_supply: "ok s \<Longrightarrow> provide s = Done (r, s') \<Longrightarrow> ok s'"
begin

lemma halt_once: "halt s = Done s' \<Longrightarrow> halt s' = Panic"
  using halt_open [of s] halt_shut [of s] halt_shut [of s'] by (cases "requests_open s") auto

lemma request_after_halt: "halt s = Done s' \<Longrightarrow> request n s' = Panic"
  using halt_open [of s] halt_shut [of s] request_shut [of s'] by (cases "requests_open s") auto

lemma provide_lasts: "ok s \<Longrightarrow> requests_open s \<Longrightarrow> provide s = Done (r, s') \<Longrightarrow> r \<noteq> None"
  using provide_end by (cases r) auto

end

interpretation spn: item_source spawner_request spawner_stop spawner_next workers
  "\<lambda>s. \<not> requestch_closed s" spawner_ok
proof unfold_locales
  fix s s' :: "'b pispawner"
  assume "spawner_ok s" "spawner_next s = Done (None, s')"
  then show "s' = s \<and> workers s = 0 \<and> \<not> \<not> requestch_closed s"
    by (auto simp: spawner_next_def spawner_ok_def split: spawner_pc.splits)
next
  fix r and s s' :: "'b pispawner"
  assume "spawner_next s = Done (r, s')"
  then show "(\<not> requestch_closed s') = (\<not> requestch_closed s)"
    by (auto simp: spawner_next_def fill_top_eq drain_top_def split: spawner_pc.splits)
qed (auto simp: spawner_request_def spawner_stop_def spawner_next_def
    intro: spawner_ok_request spawner_ok_stop spawner_ok_next split: if_splits spawner_pc.splits)

section \<open>The goroutine as a machine\<close>

datatype 'i spawner_op = SRequest int | SStop | SRecv | SResult "'i option" | SNext

fun spawner_exec :: "'i spawner_op \<Rightarrow> 'i pispawner \<Rightarrow> ('i option \<times> 'i pispawner) go" where
  "spawner_exec (SRequest n) s = go_map (Pair None) (spawner_request n s)"
| "spawner_exec SStop s = go_map (Pair None) (spawner_stop s)"
| "spawner_exec SRecv s = go_map (Pair None) (spawner_recv_request s)"
| "spawner_exec (SResult r) s = go_map (Pair None) (spawner_result r s)"
| "spawner_exec SNext s = spawner_next s"

text \<open>The items handed over on \<open>nextch\<close> in a history, and the final state.\<close>

fun spawner_run :: "'i spawner_op list \<Rightarrow> 'i pispawner \<Rightarrow> ('i list \<times> 'i pispawner) go" where
  "spawner_run [] s = Done ([], s)"
| "spawner_run (op # ops) s =
     (case spawner_exec op s of
        Done (x, s') \<Rightarrow>
          go_map (\<lambda>(ys, t). ((case x of None \<Rightarrow> ys | Some y \<Rightarrow> y # ys), t)) (spawner_run ops s')
      | Blocked \<Rightarrow> Blocked
      | Panic \<Rightarrow> Panic)"

text \<open>The items the creations of a history produced.\<close>

fun created :: "'i spawner_op list \<Rightarrow> 'i list" where
  "created [] = []"
| "created (SResult (Some i) # ops) = i # created ops"
| "created (_ # ops) = created ops"

fun in_flight :: "'i spawner_pc \<Rightarrow> 'i list" where
  "in_flight (SSending i) = [i]"
| "in_flight (SDrainSending i) = [i]"
| "in_flight _ = []"

lemma created_Cons: "created (op # ops) = created [op] @ created ops"
proof (cases op)
  case (SResult r)
  then show ?thesis by (cases r) auto
qed auto

lemma spawner_exec_ok: "spawner_ok s \<Longrightarrow> spawner_exec op s = Done (x, s') \<Longrightarrow> spawner_ok s'"
  by (cases op)
    (auto simp: go_simps intro: spawner_ok_request spawner_ok_stop spawner_ok_recv
      spawner_ok_result spawner_ok_next)

lemma drain_top_flight [simp]: "in_flight (spc (drain_top s)) = []"
  by (simp add: drain_top_def)

lemma fill_top_flight [simp]: "in_flight (spc (fill_top s)) = []"
  by (simp add: fill_top_eq)

lemma spawner_exec_flight:
  "spawner_exec op s = Done (x, s') \<Longrightarrow>
     in_flight (spc s) @ created [op] = (case x of None \<Rightarrow> [] | Some y \<Rightarrow> [y]) @ in_flight (spc s')"
proof (cases op)
  case (SResult r)
  moreover assume "spawner_exec op s = Done (x, s')"
  ultimately have "x = None" "spawner_result r s = Done s'" by (auto simp: go_simps)
  then show ?thesis
    using SResult by (cases r; cases "spc s") (auto simp: spawner_result_def Let_def split: if_splits)
next
  case SRecv
  moreover assume "spawner_exec op s = Done (x, s')"
  ultimately have "x = None" "spawner_recv_request s = Done s'" by (auto simp: go_simps)
  then show ?thesis
    using SRecv by (cases "spc s") (auto simp: spawner_recv_request_def split: if_splits list.splits)
next
  case SNext
  moreover assume "spawner_exec op s = Done (x, s')"
  ultimately show ?thesis by (cases "spc s") (auto simp: spawner_next_def)
qed (auto simp: go_simps spawner_request_def spawner_stop_def split: if_splits)

lemma spawner_run_flight:
  "spawner_run ops s = Done (ys, s') \<Longrightarrow> in_flight (spc s) @ created ops = ys @ in_flight (spc s')"
proof (induction ops arbitrary: s ys)
  case (Cons op ops)
  then obtain x s1 zs where e: "spawner_exec op s = Done (x, s1)"
    and r: "spawner_run ops s1 = Done (zs, s')"
    and ys: "ys = (case x of None \<Rightarrow> zs | Some y \<Rightarrow> y # zs)"
    by (auto simp: go_simps split: go.splits prod.splits)
  from Cons.IH [OF r] spawner_exec_flight [OF e] ys
  show ?case
    by (subst created_Cons) (auto simp: append_assoc [symmetric] simp del: append_assoc split: option.splits)
qed simp

lemma spawner_run_ok: "spawner_run ops s = Done (ys, s') \<Longrightarrow> spawner_ok s \<Longrightarrow> spawner_ok s'"
proof (induction ops arbitrary: s ys)
  case (Cons op ops)
  then obtain x s1 zs where "spawner_exec op s = Done (x, s1)" "spawner_run ops s1 = Done (zs, s')"
    by (auto simp: go_simps split: go.splits prod.splits)
  with Cons.IH [of s1 zs] Cons.prems(2) show ?case by (blast intro: spawner_exec_ok)
qed simp

section \<open>The drain ends\<close>

text \<open>
  The operations of a drain whose outstanding creations answer \<open>rs\<close> and whose receiver takes
  every item that comes.
\<close>

fun drain_ops :: "'i option list \<Rightarrow> 'i spawner_op list" where
  "drain_ops [] = []"
| "drain_ops (None # rs) = SResult None # drain_ops rs"
| "drain_ops (Some i # rs) = SResult (Some i) # SNext # drain_ops rs"

lemma drain_top_pc: "spawner_ok s \<Longrightarrow> spc (drain_top s) = (if workers s = 0 then SExited else SDraining)"
  by (simp add: drain_top_def spawner_ok_def)

lemma spawner_drain_result:
  assumes "spawner_ok s" "spc s = SDraining"
  defines "s1 \<equiv> drain_top (s\<lparr>pending := pending s - 1, workers := workers s - 1\<rparr>)"
  shows "spawner_result None s = Done s1"
    and "\<exists>s2. spawner_result (Some i) s = Done s2 \<and> spawner_next s2 = Done (Some i, s1)"
    and "spawner_ok s1" and "workers s1 = workers s - 1"
    and "spc s1 = (if workers s = 1 then SExited else SDraining)"
proof -
  have w: "0 < workers s" "pending s = int (workers s)" "requestch s = []" "requestch_closed s"
    using assms(1,2) by (auto simp: spawner_ok_def)
  show r: "spawner_result None s = Done s1"
    using w assms(2) by (simp add: spawner_result_def s1_def)
  then show "spawner_ok s1" using assms(1) by (blast intro: spawner_ok_result)
  show "\<exists>s2. spawner_result (Some i) s = Done s2 \<and> spawner_next s2 = Done (Some i, s1)"
    using w assms(2) by (simp add: spawner_result_def spawner_next_def s1_def drain_top_def)
  show "workers s1 = workers s - 1" by (simp add: s1_def drain_top_def)
  show "spc s1 = (if workers s = 1 then SExited else SDraining)"
    using w by (auto simp: s1_def drain_top_def)
qed

lemma spawner_drains:
  "spawner_ok s \<Longrightarrow> spc s = (if workers s = 0 then SExited else SDraining) \<Longrightarrow> length rs = workers s \<Longrightarrow>
     \<exists>s'. spawner_run (drain_ops rs) s = Done (created (drain_ops rs), s') \<and> spc s' = SExited"
proof (induction rs arbitrary: s)
  case Nil
  then show ?case by simp
next
  case (Cons r rs)
  define s1 where "s1 = drain_top (s\<lparr>pending := pending s - 1, workers := workers s - 1\<rparr>)"
  from Cons.prems have d: "spc s = SDraining" by auto
  note step = spawner_drain_result [OF Cons.prems(1) d, folded s1_def]
  have "spc s1 = (if workers s1 = 0 then SExited else SDraining)" "length rs = workers s1"
    using step(4,5) Cons.prems(3) by auto
  with step(3) obtain t where t: "spawner_run (drain_ops rs) s1 = Done (created (drain_ops rs), t)"
    "spc t = SExited"
    using Cons.IH by blast
  show ?case
  proof (cases r)
    case None
    with step(1) t show ?thesis by simp
  next
    case (Some i)
    with step(2) [of i] t show ?thesis by auto
  qed
qed

end
