(* ===== verification/Item_History.thy ===== *)
theory Item_History
  imports Pool_Item
begin

text \<open>
  What the histories of one item look like: the order of the events it sends, when it can
  report itself ready, what stops its container, and how its drain ends.
\<close>

section \<open>Events to the pool\<close>

lemma item_deliver_exited:
  "item_deliver i = Done (e, i') \<Longrightarrow> item_ok i \<Longrightarrow>
     \<not> exited i \<and> (e = ItemReady \<and> \<not> exited i' \<or> e = ItemExit \<and> exited i')"
  by (auto simp: item_deliver_def item_ok_def split: item_pc.splits)

lemma exited_bodies [simp]:
  "exited (stop_container i) = exited i" "exited (emit u i) = exited i"
  "exited (run_child c i) = exited i" "exited (wait_join_event e i) = exited i"
  "exited (main_loop_event e i) = exited i" "exited (main_loop_container k i) = exited i"
  by (simp_all add: item_bodies split: item_event.split container_event.split)

lemma take_event_exited: "take_event b e i = Some j \<Longrightarrow> exited j = exited i"
  by (auto simp: take_event_def split: if_splits)

lemma item_recv_exited: "item_recv b e i = Done i' \<Longrightarrow> exited i' = exited i"
  by (auto simp: item_recv_def dest: take_event_exited split: option.splits item_pc.splits)

lemma item_exec_silent: "item_exec lc op i = Done (None, i') \<Longrightarrow> exited i' = exited i"
  by (cases op)
    (auto simp: go_simps item_join_def item_start_def item_reset_def item_kill_def item_child_def
      item_container_def item_drained_def item_drop_post_def
      dest: item_recv_exited split: if_splits option.splits)

lemma item_exec_loud: "item_exec lc op i = Done (Some e, i') \<Longrightarrow> item_deliver i = Done (e, i')"
  by (cases op) (auto simp: go_simps)

text \<open>Ready events while it lives, then one exit event, then nothing.\<close>

lemma item_run_events:
  assumes "item_run lc ops i = Done (es, i')" "item_ok i"
  shows "if exited i then es = [] \<and> exited i'
         else \<exists>n. es = replicate n ItemReady @ (if exited i' then [ItemExit] else [])"
  using assms
proof (induction ops arbitrary: i es)
  case (Cons op ops)
  then obtain x j fs where op: "item_exec lc op i = Done (x, j)"
    and r: "item_run lc ops j = Done (fs, i')"
    and es: "es = (case x of None \<Rightarrow> fs | Some e \<Rightarrow> e # fs)"
    by (auto simp: go_simps split: go.splits prod.splits)
  have ok: "item_ok j" using op Cons.prems(2) by (rule item_exec_ok [rotated])
  note IH = Cons.IH [OF r ok]
  show ?case
  proof (cases x)
    case None
    with op es IH item_exec_silent [of lc op i j] show ?thesis by simp
  next
    case (Some e)
    with op have d: "item_deliver i = Done (e, j)" by (auto dest: item_exec_loud)
    note de = item_deliver_exited [OF d Cons.prems(2)]
    show ?thesis
    proof (cases "exited j")
      case True
      with de IH Some es show ?thesis by (auto intro!: exI [of _ 0])
    next
      case False
      with de IH obtain n where "fs = replicate n ItemReady @ (if exited i' then [ItemExit] else [])"
        and "e = ItemReady"
        by auto
      with Some es de show ?thesis by (auto intro!: exI [of _ "Suc n"])
    qed
  qed
qed simp

section \<open>Ready tokens\<close>

text \<open>
  How often an item can still report itself ready without a further reset: once while its
  first start is ahead or under way, and once per goroutine or pending event that leads to a
  ready event.
\<close>

definition event_tokens :: "item_event list \<Rightarrow> nat" where
  "event_tokens es = count_list es EvReset + count_list es EvLive + count_list es EvReady"

definition item_tokens :: "pitem \<Rightarrow> nat" where
  "item_tokens i =
     start_budget (container i) + event_tokens (posts i) + length (children i)
     + event_tokens (child_sends i) + (if ipc i = SendReady then 1 else 0)"

lemma event_tokens_simps [simp]:
  "event_tokens [] = 0"
  "event_tokens (xs @ ys) = event_tokens xs + event_tokens ys"
  "event_tokens (e # es) = (if e = EvReset \<or> e = EvLive \<or> e = EvReady then 1 else 0) + event_tokens es"
  by (auto simp: event_tokens_def)

lemma event_tokens_remove1:
  "e \<in> set es \<Longrightarrow> event_tokens es = event_tokens (remove1 e es) + event_tokens [e]"
  by (auto simp: event_tokens_def dest: count_list_pos)

lemma start_budget_steps:
  "container_ok c \<Longrightarrow> start_budget (container_start c) \<le> start_budget c"
  "start_budget (container_stop c) = start_budget c"
  "doStart err st c = Done c' \<Longrightarrow> start_budget c' \<le> start_budget c"
  "doStop c = Done c' \<Longrightarrow> start_budget c' = start_budget c"
  "monitor_step m c = Done c' \<Longrightarrow> start_budget c' = start_budget c"
proof -
  show "container_ok c \<Longrightarrow> start_budget (container_start c) \<le> start_budget c"
    by (auto simp: start_budget_def container_start_def container_ok_def)
  show "start_budget (container_stop c) = start_budget c"
    by (simp add: start_budget_def container_stop_def)
  show "doStart err st c = Done c' \<Longrightarrow> start_budget c' \<le> start_budget c"
    by (cases err; cases st) (auto simp: start_budget_def doStart_def split: if_splits)
  show "doStop c = Done c' \<Longrightarrow> start_budget c' = start_budget c"
    by (auto simp: start_budget_def doStop_def split: if_splits)
  show "monitor_step m c = Done c' \<Longrightarrow> start_budget c' = start_budget c"
    by (erule monitor_step_cases) (simp_all add: start_budget_def)
qed

lemma start_budget_recv:
  "container_ok c \<Longrightarrow> recv_container_event e c = Done c' \<Longrightarrow>
     start_budget c' + (if e = CStarted then 1 else 0) \<le> start_budget c"
  by (auto simp: start_budget_def recv_container_event_def container_ok_def split: if_splits)

lemma take_event_tokens:
  "take_event b e i = Some j \<Longrightarrow> item_tokens i = item_tokens j + event_tokens [e] \<and> ipc j = ipc i \<and> container j = container i"
  by (auto simp: take_event_def item_tokens_def dest: event_tokens_remove1 split: if_splits)

lemma wait_event_tokens: "item_tokens (wait_join_event e i) = item_tokens i"
  by (cases e) (simp_all add: item_bodies item_tokens_def start_budget_steps)

lemma main_event_tokens:
  "item_ok i \<Longrightarrow> ipc i = MainLoop \<Longrightarrow> item_tokens (main_loop_event e i) \<le> item_tokens i + event_tokens [e]"
  by (cases e) (simp_all add: item_bodies item_tokens_def start_budget_steps item_ok_def)

lemma item_recv_tokens:
  assumes "item_ok i" "item_recv b e i = Done i'"
  shows "item_tokens i' \<le> item_tokens i"
proof -
  from assms obtain j where j: "take_event b e i = Some j"
    by (auto simp: item_recv_def split: option.splits)
  have ok: "item_ok j" "ipc j = ipc i" using take_event_ok [OF assms(1) j] by simp_all
  note tj = take_event_tokens [OF j]
  show ?thesis
    using assms(2) j ok tj main_event_tokens [OF ok(1), of e]
    by (cases "ipc i") (auto simp: item_recv_def wait_event_tokens)
qed

lemma item_child_tokens: "item_child lc c par act i = Done i' \<Longrightarrow> item_tokens i' \<le> item_tokens i"
proof -
  assume d: "item_child lc c par act i = Done i'"
  then have c: "c \<in> set (children i)" by (simp add: item_child_def split: if_splits)
  then have "length (remove1 c (children i)) = length (children i) - 1" "0 < length (children i)"
    by (auto simp: length_remove1)
  with d c show ?thesis
    by (auto simp: item_child_def item_tokens_def start_budget_steps split: option.splits)
qed

lemma item_container_tokens:
  assumes "item_ok i" "item_container e i = Done i'"
  shows "item_tokens i' \<le> item_tokens i"
proof -
  obtain c where c: "recv_container_event e (container i) = Done c" "ipc i = MainLoop"
    "i' = main_loop_container e (i\<lparr>container := c\<rparr>)"
    using assms(2) by (auto simp: item_container_def go_simps split: if_splits)
  have "container_ok (container i)" using assms(1) by (simp add: item_ok_def)
  from start_budget_recv [OF this c(1)] c(2,3) show ?thesis
    by (cases e) (simp_all add: item_tokens_def main_loop_container_def run_child_def emit_def)
qed

lemma item_exec_tokens:
  assumes "item_ok i" "item_exec lc op i = Done (x, i')"
  shows "item_tokens i' + (if x = Some ItemReady then 1 else 0) \<le> item_tokens i + (if op = IReset then 1 else 0)"
proof (cases op)
  case IDeliver
  with assms show ?thesis
    by (auto simp: go_simps item_deliver_def item_tokens_def split: item_pc.splits)
next
  case (IDropPost e)
  with assms show ?thesis
    by (auto simp: go_simps item_drop_post_def item_tokens_def dest!: event_tokens_remove1 split: if_splits)
qed (use assms in \<open>auto simp: go_simps item_join_def item_start_def item_reset_def item_kill_def
    item_drained_def start_budget_steps item_tokens_def [of "_ \<lparr>container := _\<rparr>"]
    item_tokens_def [of "_ \<lparr>posts := _\<rparr>"] item_tokens_def [of "_ \<lparr>ipc := _\<rparr>"] item_tokens_def [of i]
    dest: item_recv_tokens item_child_tokens item_container_tokens start_budget_steps(3-5)
    split: if_splits\<close>)

lemma item_run_tokens:
  "item_run lc ops i = Done (es, i') \<Longrightarrow> item_ok i \<Longrightarrow>
     item_tokens i' + count_list es ItemReady \<le> item_tokens i + count_list ops IReset"
proof (induction ops arbitrary: i es)
  case (Cons op ops)
  then obtain x j fs where op: "item_exec lc op i = Done (x, j)"
    and r: "item_run lc ops j = Done (fs, i')"
    and es: "es = (case x of None \<Rightarrow> fs | Some e \<Rightarrow> e # fs)"
    by (auto simp: go_simps split: go.splits prod.splits)
  have ok: "item_ok j" using op Cons.prems(2) by (rule item_exec_ok [rotated])
  from Cons.IH [OF r ok] item_exec_tokens [OF Cons.prems(2) op] es
  show ?case by (auto split: option.splits)
qed simp

lemma create_tokens: "item_tokens createPoolItem = 1"
  by (simp add: item_tokens_def createPoolItem_def createPoolContainer_def start_budget_def)

section \<open>Ready means initialised or reset\<close>

text \<open>
  The steps of a history at which the health check of a started container passes, and those at
  which an initialisation or a reset succeeds.
\<close>

fun healthy_step :: "lifecycle_flags \<Rightarrow> item_op \<Rightarrow> bool" where
  "healthy_step lc (IChild c par act) = (child_result lc c par act = Some EvLive)"
| "healthy_step lc _ = False"

fun ready_step :: "lifecycle_flags \<Rightarrow> item_op \<Rightarrow> bool" where
  "ready_step lc (IChild c par act) = (child_result lc c par act = Some EvReady)"
| "ready_step lc _ = False"

definition live_pipe :: "pitem \<Rightarrow> nat" where
  "live_pipe i = count_list (children i) OnChildLive + count_list (child_sends i) EvLive"

definition ready_pipe :: "pitem \<Rightarrow> nat" where
  "ready_pipe i = count_list (child_sends i) EvReady + (if ipc i = SendReady then 1 else 0)"

text \<open>The steps at which a running initialisation ends.\<close>

fun live_step :: "item_op \<Rightarrow> bool" where
  "live_step (IChild c par act) = (c = OnChildLive)"
| "live_step _ = False"

lemma pipe_bodies [simp]:
  "live_pipe (stop_container i) = live_pipe i" "live_pipe (emit u i) = live_pipe i"
  "ready_pipe (stop_container i) = ready_pipe i" "ready_pipe (emit u i) = ready_pipe i"
  "ready_pipe (run_child c i) = ready_pipe i"
  "live_pipe (run_child c i) = live_pipe i + (if c = OnChildLive then 1 else 0)"
  "live_pipe (i\<lparr>container := k\<rparr>) = live_pipe i" "ready_pipe (i\<lparr>container := k\<rparr>) = ready_pipe i"
  "live_pipe (i\<lparr>ipc := p\<rparr>) = live_pipe i"
  "live_pipe (i\<lparr>posts := ps\<rparr>) = live_pipe i" "ready_pipe (i\<lparr>posts := ps\<rparr>) = ready_pipe i"
  by (simp_all add: live_pipe_def ready_pipe_def stop_container_def emit_def run_child_def)

lemma take_event_pipes:
  "item_ok i \<Longrightarrow> take_event b e i = Some j \<Longrightarrow>
     live_pipe i = live_pipe j + (if e = EvLive then 1 else 0)
     \<and> ready_pipe i = ready_pipe j + (if e = EvReady then 1 else 0)"
proof (cases b)
  case True
  moreover assume "take_event b e i = Some j"
  ultimately have "e \<in> set (child_sends i)" and j: "j = i\<lparr>child_sends := remove1 e (child_sends i)\<rparr>"
    by (simp_all add: take_event_def split: if_split_asm)
  from count_list_pos [OF this(1)] show ?thesis
    by (cases e) (simp_all add: j live_pipe_def ready_pipe_def)
next
  case False
  moreover assume "item_ok i" and t: "take_event b e i = Some j"
  ultimately have "posted_event e" "j = i\<lparr>posts := remove1 e (posts i)\<rparr>"
    using take_event_ok(3) [of i b e j] by (simp_all add: take_event_def split: if_split_asm)
  then show ?thesis by (auto simp: posted_event_def)
qed

lemma item_recv_pipes:
  assumes "item_ok i" "item_recv b e i = Done i'"
  shows "live_pipe i' \<le> live_pipe i" "ready_pipe i' \<le> ready_pipe i"
proof -
  from assms obtain j where j: "take_event b e i = Some j"
    by (auto simp: item_recv_def split: option.splits)
  have pc: "ipc j = ipc i" using take_event_ok [OF assms(1) j] by simp
  have w: "live_pipe (wait_join_event e j) = live_pipe j" "ready_pipe (wait_join_event e j) = ready_pipe j"
    by (cases e; simp add: wait_join_event_def)+
  have m: "live_pipe (main_loop_event e j) = live_pipe j + (if e = EvLive then 1 else 0)"
    by (cases e) (simp_all add: main_loop_event_def)
  have r: "ipc j = MainLoop \<Longrightarrow> ready_pipe (main_loop_event e j) = ready_pipe j + (if e = EvReady then 1 else 0)"
    by (cases e) (simp_all add: main_loop_event_def ready_pipe_def emit_def stop_container_def run_child_def)
  show "live_pipe i' \<le> live_pipe i" "ready_pipe i' \<le> ready_pipe i"
    using assms(2) j pc w m r take_event_pipes [OF assms(1) j]
    by (cases "ipc i"; auto simp: item_recv_def)+
qed

lemma item_child_pipes:
  assumes "item_child lc c par act i = Done i'"
  shows "live_pipe i' + (if c = OnChildLive then 1 else 0)
           \<le> live_pipe i + (if child_result lc c par act = Some EvLive then 1 else 0)"
    and "ready_pipe i' \<le> ready_pipe i + (if child_result lc c par act = Some EvReady then 1 else 0)"
proof -
  from assms have c: "c \<in> set (children i)" by (simp add: item_child_def split: if_splits)
  have "0 < count_list (children i) c" using c by (rule count_list_pos)
  then have r: "count_list (remove1 c (children i)) OnChildLive + (if c = OnChildLive then 1 else 0)
      = count_list (children i) OnChildLive"
    by (cases "c = OnChildLive") simp_all
  show "live_pipe i' + (if c = OnChildLive then 1 else 0)
           \<le> live_pipe i + (if child_result lc c par act = Some EvLive then 1 else 0)"
  proof (cases "child_result lc c par act")
    case None
    with assms c have "i' = i\<lparr>children := remove1 c (children i), container := container_stop (container i)\<rparr>"
      by (simp add: item_child_def)
    with r None show ?thesis by (simp add: live_pipe_def del: count_list_remove1)
  next
    case (Some e)
    with assms c have "i' = i\<lparr>children := remove1 c (children i), child_sends := child_sends i @ [e]\<rparr>"
      by (simp add: item_child_def)
    with r Some show ?thesis by (simp add: live_pipe_def del: count_list_remove1)
  qed
  show "ready_pipe i' \<le> ready_pipe i + (if child_result lc c par act = Some EvReady then 1 else 0)"
    using assms c by (cases "child_result lc c par act") (auto simp: item_child_def ready_pipe_def)
qed

lemma item_container_pipes:
  assumes "item_container e i = Done i'"
  shows "live_pipe i' = live_pipe i" "ready_pipe i' = ready_pipe i"
  using assms
  by (cases e; auto simp: item_container_def go_simps main_loop_container_def ready_pipe_def
      emit_def run_child_def live_pipe_def split: if_splits)+

lemma item_exec_pipes:
  assumes "item_ok i" "item_exec lc op i = Done (x, i')"
  shows "live_pipe i' + (if live_step op then 1 else 0) \<le> live_pipe i + (if healthy_step lc op then 1 else 0)"
    and "ready_pipe i' + (if x = Some ItemReady then 1 else 0) \<le> ready_pipe i + (if ready_step lc op then 1 else 0)"
proof -
  have d: "item_deliver i = Done (e, j) \<Longrightarrow>
      live_pipe j = live_pipe i \<and> ready_pipe j + (if e = ItemReady then 1 else 0) = ready_pipe i" for e j
    by (cases "ipc i") (auto simp: item_deliver_def live_pipe_def ready_pipe_def)
  have o: "item_join i = Done j \<Longrightarrow> live_pipe j = live_pipe i \<and> ready_pipe j = ready_pipe i"
    "item_drained i = Done j \<Longrightarrow> live_pipe j = live_pipe i \<and> ready_pipe j = ready_pipe i"
    "item_drop_post e i = Done j \<Longrightarrow> live_pipe j = live_pipe i \<and> ready_pipe j = ready_pipe i" for j e
    by (auto simp: item_join_def item_drained_def item_drop_post_def ready_pipe_def split: if_splits)
  show "live_pipe i' + (if live_step op then 1 else 0) \<le> live_pipe i + (if healthy_step lc op then 1 else 0)"
    using assms(2) by (cases op)
      (auto simp: go_simps item_start_def item_reset_def item_kill_def item_container_pipes
        dest: d o item_recv_pipes [OF assms(1)] item_child_pipes(1))
  show "ready_pipe i' + (if x = Some ItemReady then 1 else 0) \<le> ready_pipe i + (if ready_step lc op then 1 else 0)"
    using assms(2) by (cases op)
      (auto simp: go_simps item_start_def item_reset_def item_kill_def item_container_pipes
        dest: d o item_recv_pipes [OF assms(1)] item_child_pipes(2))
qed

lemma item_run_pipes:
  "item_run lc ops i = Done (es, i') \<Longrightarrow> item_ok i \<Longrightarrow>
     live_pipe i' + length (filter live_step ops) \<le> live_pipe i + length (filter (healthy_step lc) ops)
     \<and> ready_pipe i' + count_list es ItemReady \<le> ready_pipe i + length (filter (ready_step lc) ops)"
proof (induction ops arbitrary: i es)
  case (Cons op ops)
  then obtain x j fs where op: "item_exec lc op i = Done (x, j)"
    and r: "item_run lc ops j = Done (fs, i')"
    and es: "es = (case x of None \<Rightarrow> fs | Some e \<Rightarrow> e # fs)"
    by (auto simp: go_simps split: go.splits prod.splits)
  have ok: "item_ok j" using op Cons.prems(2) by (rule item_exec_ok [rotated])
  from Cons.IH [OF r ok] item_exec_pipes [OF Cons.prems(2) op] es
  show ?case by (auto split: option.splits if_splits)
qed simp

section \<open>What stops the container\<close>

text \<open>A kill, a failed health check and a failed initialisation each issue a stop.\<close>

lemma stop_once_stop: "stop_once (container_stop c)"
  by (simp add: container_stop_def)

lemma item_recv_stops:
  assumes "item_recv b e i = Done i'" "ipc i = WaitJoin \<and> e = EvKill \<or> ipc i = MainLoop"
    and "e = EvKill \<or> e = EvLiveError \<or> e = EvReadyError"
  shows "stop_once (container i')"
  using assms by (auto simp: item_recv_def wait_join_event_def main_loop_event_def
      stop_container_def stop_once_stop split: option.splits)

text \<open>A failed reset is received and nothing follows from it.\<close>

lemma item_recv_reset_error:
  "item_recv b EvResetError i = Done i' \<Longrightarrow> ipc i = MainLoop \<Longrightarrow> take_event b EvResetError i = Some i'"
  by (simp add: item_recv_def main_loop_event_def split: option.splits)

section \<open>The drain ends\<close>

text \<open>
  Whatever the remaining actions answer, the drain lets every goroutine of the wait group
  finish and then returns: no child is left blocked in its send.
\<close>

definition drain_measure :: "pitem \<Rightarrow> nat" where
  "drain_measure i = 2 * length (children i) + length (child_sends i)"

fun drain_op :: "(child \<Rightarrow> go_error option \<times> go_error option) \<Rightarrow> item_op \<Rightarrow> bool" where
  "drain_op answer (IChild c par act) = (answer c = (par, act))"
| "drain_op answer (IRecv b e) = b"
| "drain_op answer IDrained = True"
| "drain_op answer _ = False"

lemma item_drains:
  "ipc i = ItemDrain \<Longrightarrow>
     \<exists>ops i'. list_all (drain_op answer) ops \<and> item_run lc ops i = Done ([], i') \<and> ipc i' = ItemDone"
proof (induction "drain_measure i" arbitrary: i rule: less_induct)
  case less
  show ?case
  proof (cases "children i")
    case (Cons c cs)
    obtain par act where a: "answer c = (par, act)" by fastforce
    obtain j where j: "item_child lc c par act i = Done j" using Cons by (simp add: item_child_def)
    then have "drain_measure j < drain_measure i" "ipc j = ItemDrain"
      using Cons less.prems by (auto simp: item_child_def drain_measure_def split: option.splits)
    from less.hyps [OF this] obtain ops i' where "list_all (drain_op answer) ops"
      "item_run lc ops j = Done ([], i')" "ipc i' = ItemDone"
      by blast
    with a j show ?thesis by (intro exI [of _ "IChild c par act # ops"] exI [of _ i']) simp
  next
    case Nil
    show ?thesis
    proof (cases "child_sends i")
      case Nil2: Nil
      with Nil less.prems show ?thesis
        by (intro exI [of _ "[IDrained]"] exI [of _ "i\<lparr>ipc := ItemDone\<rparr>"]) (simp add: item_drained_def)
    next
      case (Cons e es)
      define j where "j = i\<lparr>child_sends := es\<rparr>"
      have r: "item_recv True e i = Done j"
        using Cons less.prems by (simp add: item_recv_def take_event_def j_def)
      have "drain_measure j < drain_measure i" "ipc j = ItemDrain"
        using Cons less.prems by (simp_all add: j_def drain_measure_def)
      from less.hyps [OF this] obtain ops i' where "list_all (drain_op answer) ops"
        "item_run lc ops j = Done ([], i')" "ipc i' = ItemDone"
        by blast
      with r show ?thesis by (intro exI [of _ "IRecv True e # ops"] exI [of _ i']) simp
    qed
  qed
qed

end
