(* ===== verification/Pool_System.thy ===== *)
theory Pool_System
  imports Pool_Loop Item_Buffer Item_Spawner Item_History
begin

text \<open>
  A pool as a whole: the pool's goroutine, the spawner, the ready buffer, every item, and the
  goroutines of the clients, interleaved in any order. A label says which of them moves. The
  goroutines that serve one container only, the copy of its log and the attempts of its actions,
  are added in \<open>Pool_Process\<close>: here they are the answers that docker and the actions give.
\<close>

section \<open>The state of the system\<close>

text \<open>
  \<open>todo\<close>: the calls the pool's goroutine still has to make before its next \<open>select\<close>.
  \<open>its\<close>: the items that exist, whether joined to the pool or not.
  \<open>held\<close>: the identifiers that checkouts have handed out and clients have not returned.
  \<open>returning\<close>: the goroutines inside \<open>Return\<close>, by the identifier they send.
  \<open>stopping\<close>: the goroutines inside \<open>Stop\<close> that have not been received yet, and \<open>stop_waiting\<close>
  those that wait for \<open>donech\<close>. \<open>crashed\<close>: some goroutine has panicked.
\<close>

record sys =
  pl :: pool
  todo :: "pool_call list"
  buffer :: "cid pibuffer"
  spawner :: "cid pispawner"
  its :: "cid \<rightharpoonup> pitem"
  held :: "cid list"
  returning :: "cid list"
  stopping :: nat
  stop_waiting :: nat
  pool_emits :: "pool_emit list"
  crashed :: bool

text \<open>\<open>NewPoolWithContext\<close>, for a configuration of the given size.\<close>

definition newSys :: "int \<Rightarrow> sys" where
  "newSys n =
     \<lparr>pl = newPool n, todo = [], buffer = newPoolItemBuffer, spawner = newPoolItemSpawner,
      its = Map.empty, held = [], returning = [], stopping = 0, stop_waiting = 0,
      pool_emits = [PoolInitializing], crashed = False\<rparr>"

section \<open>Calls of the pool's goroutine\<close>

definition on_item :: "cid \<Rightarrow> (pitem \<Rightarrow> pitem go) \<Rightarrow> sys \<Rightarrow> sys go" where
  "on_item i f s =
     (case its s i of
        None \<Rightarrow> Panic
      | Some it \<Rightarrow> go_map (\<lambda>it'. s\<lparr>its := (its s)(i \<mapsto> it')\<rparr>) (f it))"

fun exec_call :: "pool_call \<Rightarrow> sys \<Rightarrow> sys go" where
  "exec_call (CallPut i) s = go_map (\<lambda>b. s\<lparr>buffer := b\<rparr>) (buffer_put i (buffer s))"
| "exec_call CallBufferStop s = go_map (\<lambda>b. s\<lparr>buffer := b\<rparr>) (buffer_stop (buffer s))"
| "exec_call CallSpawnerStop s = go_map (\<lambda>x. s\<lparr>spawner := x\<rparr>) (spawner_stop (spawner s))"
| "exec_call (CallRequest n) s = go_map (\<lambda>x. s\<lparr>spawner := x\<rparr>) (spawner_request n (spawner s))"
| "exec_call (CallJoin i) s = on_item i item_join s"
| "exec_call (CallStart i) s = on_item i (Done \<circ> item_start) s"
| "exec_call (CallReset i) s = on_item i (Done \<circ> item_reset) s"
| "exec_call (CallKill i) s = on_item i (Done \<circ> item_kill) s"
| "exec_call CallCloseInit s = Done (s\<lparr>pl := (pl s)\<lparr>initch_closed := True\<rparr>\<rparr>)"
| "exec_call CallCloseDone s = Done (s\<lparr>pl := (pl s)\<lparr>donech_closed := True\<rparr>\<rparr>)"
| "exec_call (CallEmit e) s = Done (s\<lparr>pool_emits := pool_emits s @ [e]\<rparr>)"

section \<open>Steps\<close>

datatype sys_op =
    SysCall \<comment> \<open>the pool's goroutine makes its next call\<close>
  | SysInit "go_error option" \<comment> \<open>\<open>ensureImage\<close> answers\<close>
  | SysSelfStop
  | SysShutdown \<comment> \<open>the pool receives on \<open>shutdownch\<close>\<close>
  | SysNext \<comment> \<open>the pool receives on \<open>spawner.next()\<close>\<close>
  | SysItemEvent cid \<comment> \<open>the pool receives an event of an item\<close>
  | SysReturned cid \<comment> \<open>the pool receives the event of a \<open>Return\<close>\<close>
  | SysSpawnRecv
  | SysSpawnResult "cid option" \<comment> \<open>\<open>createPoolItem\<close> answers\<close>
  | SysBufferExit
  | SysItem cid item_op \<comment> \<open>a step of an item, its container or its actions\<close>
  | SysCheckout "go_error option" \<comment> \<open>a checkout receives an item; the error of \<open>makeParams\<close>\<close>
  | SysReturn cid \<comment> \<open>a client returns an item it holds\<close>
  | SysReturnAny cid \<comment> \<open>a client sends an identifier it does not hold\<close>
  | SysReturnDone cid \<comment> \<open>\<open>Return\<close> finds \<open>donech\<close> closed\<close>
  | SysStop \<comment> \<open>a goroutine enters \<open>Stop\<close>\<close>
  | SysStopped \<comment> \<open>\<open>Stop\<close> finds \<open>donech\<close> closed\<close>

text \<open>The steps an item takes by itself; the others are calls of the pool.\<close>

fun own_step :: "item_op \<Rightarrow> bool" where
  "own_step IJoin = False"
| "own_step IStart = False"
| "own_step IReset = False"
| "own_step IKill = False"
| "own_step IDeliver = False"
| "own_step _ = True"

definition outcome :: "sys \<Rightarrow> 'a go \<Rightarrow> ('a \<Rightarrow> sys) \<Rightarrow> sys option" where
  "outcome s r f =
     (case r of Done x \<Rightarrow> Some (f x) | Blocked \<Rightarrow> None | Panic \<Rightarrow> Some (s\<lparr>crashed := True\<rparr>))"

definition handled :: "sys \<Rightarrow> pool \<times> pool_call list \<Rightarrow> sys" where
  "handled s r = s\<lparr>pl := fst r, todo := snd r\<rparr>"

text \<open>The pool's goroutine waits in a \<^theory_text>\<open>select\<close> only when it has no call left to make.\<close>

definition selecting :: "sys \<Rightarrow> bool" where
  "selecting s \<longleftrightarrow> todo s = []"

definition sys_next :: "sys \<Rightarrow> sys option" where
  "sys_next s =
     (case ppc (pl s) of
        PRunning \<Rightarrow>
          outcome s (spawner_next (spawner s)) (\<lambda>(r, sp).
            (case running_next r (pl s) of
               Done h \<Rightarrow> handled (s\<lparr>spawner := sp\<rparr>) h
             | _ \<Rightarrow> s\<lparr>crashed := True\<rparr>))
      | PDrainSpawner \<Rightarrow>
          outcome s (spawner_next (spawner s)) (\<lambda>(r, sp).
            handled (s\<lparr>spawner := sp\<rparr>) (drain_spawner_next r (pl s)))
      | _ \<Rightarrow> None)"

text \<open>
  The send of an item meets the pool's receive; if the handler panics the process ends, and
  nothing of the state matters any more.
\<close>

definition sys_item_event :: "cid \<Rightarrow> sys \<Rightarrow> sys option" where
  "sys_item_event i s =
     (case its s i of
        None \<Rightarrow> None
      | Some it \<Rightarrow>
          (case item_deliver it of
             Done (e, it') \<Rightarrow>
               outcome s (pool_event e i (pl s)) (handled (s\<lparr>its := (its s)(i \<mapsto> it')\<rparr>))
           | _ \<Rightarrow> None))"

text \<open>
  The calls of the clients. \<open>CheckoutWith\<close> receives from the ready buffer, and returns the item itself
  when its parameters cannot be made; \<open>Return\<close> sends whatever identifier it is given, until \<open>donech\<close>
  is closed; \<open>Stop\<close> waits to be received and then for \<open>donech\<close>.
\<close>

definition sys_send :: "cid \<Rightarrow> sys \<Rightarrow> sys" where
  "sys_send i s = s\<lparr>returning := returning s @ [i]\<rparr>"

definition sys_CheckoutWith :: "go_error option \<Rightarrow> sys \<Rightarrow> sys option" where
  "sys_CheckoutWith err s =
     outcome s (buffer_get (buffer s)) (\<lambda>(r, b).
       (case r of
          None \<Rightarrow> s
        | Some i \<Rightarrow>
            (case err of
               None \<Rightarrow> s\<lparr>buffer := b, held := held s @ [i]\<rparr>
             | Some _ \<Rightarrow> sys_send i (s\<lparr>buffer := b\<rparr>))))"

definition sys_Returned :: "cid \<Rightarrow> sys \<Rightarrow> sys option" where
  "sys_Returned i s =
     (if donech_closed (pl s) \<and> i \<in> set (returning s)
      then Some (s\<lparr>returning := remove1 i (returning s)\<rparr>) else None)"

definition sys_Stop :: "sys \<Rightarrow> sys option" where
  "sys_Stop s = Some (s\<lparr>stopping := Suc (stopping s)\<rparr>)"

definition sys_Stopped :: "sys \<Rightarrow> sys option" where
  "sys_Stopped s =
     (if donech_closed (pl s) \<and> 0 < stopping s + stop_waiting s
      then Some (if 0 < stop_waiting s then s\<lparr>stop_waiting := stop_waiting s - 1\<rparr>
                 else s\<lparr>stopping := stopping s - 1\<rparr>)
      else None)"

lemmas client_calls [simp] =
  sys_send_def sys_CheckoutWith_def sys_Returned_def sys_Stop_def sys_Stopped_def

fun sys_step :: "lifecycle_flags \<Rightarrow> sys_op \<Rightarrow> sys \<Rightarrow> sys option" where
  "sys_step lc SysCall s =
     (case todo s of
        [] \<Rightarrow> None
      | c # cs \<Rightarrow> outcome s (exec_call c s) (\<lambda>s'. s'\<lparr>todo := cs\<rparr>))"
| "sys_step lc (SysInit err) s =
     (if ppc (pl s) = PInit \<and> selecting s then Some (handled s (runInitialize err (pl s))) else None)"
| "sys_step lc SysSelfStop s =
     (if ppc (pl s) = PSelfStop \<and> selecting s then outcome s (run_self_stop (pl s)) (handled s) else None)"
| "sys_step lc SysShutdown s =
     (if ppc (pl s) = PRunning \<and> selecting s \<and> 0 < stopping s
      then Some (handled (s\<lparr>stopping := stopping s - 1, stop_waiting := Suc (stop_waiting s)\<rparr>)
                   (running_shutdown (pl s)))
      else None)"
| "sys_step lc SysNext s = (if selecting s then sys_next s else None)"
| "sys_step lc (SysItemEvent i) s = (if selecting s then sys_item_event i s else None)"
| "sys_step lc (SysReturned i) s =
     (if selecting s \<and> i \<in> set (returning s)
      then outcome s (pool_event ItemReturned i (pl s))
             (handled (s\<lparr>returning := remove1 i (returning s)\<rparr>))
      else None)"
| "sys_step lc SysSpawnRecv s =
     outcome s (spawner_recv_request (spawner s)) (\<lambda>x. s\<lparr>spawner := x\<rparr>)"
| "sys_step lc (SysSpawnResult r) s =
     (case r of
        None \<Rightarrow> outcome s (spawner_result None (spawner s)) (\<lambda>x. s\<lparr>spawner := x\<rparr>)
      | Some i \<Rightarrow>
          if its s i = None \<and> 12 \<le> length i
          then outcome s (spawner_result (Some i) (spawner s))
                 (\<lambda>x. s\<lparr>spawner := x, its := (its s)(i \<mapsto> createPoolItem)\<rparr>)
          else None)"
| "sys_step lc SysBufferExit s = outcome s (buffer_exit (buffer s)) (\<lambda>b. s\<lparr>buffer := b\<rparr>)"
| "sys_step lc (SysItem i op) s =
     (case its s i of
        None \<Rightarrow> None
      | Some it \<Rightarrow>
          if own_step op
          then outcome s (item_exec lc op it) (\<lambda>(_, it'). s\<lparr>its := (its s)(i \<mapsto> it')\<rparr>)
          else None)"
| "sys_step lc (SysCheckout err) s = sys_CheckoutWith err s"
| "sys_step lc (SysReturn i) s =
     (if i \<in> set (held s) then Some (sys_send i (s\<lparr>held := remove1 i (held s)\<rparr>)) else None)"
| "sys_step lc (SysReturnAny i) s = Some (sys_send i s)"
| "sys_step lc (SysReturnDone i) s = sys_Returned i s"
| "sys_step lc SysStop s = sys_Stop s"
| "sys_step lc SysStopped s = sys_Stopped s"

text \<open>A crashed process takes no step.\<close>

definition sys_exec :: "lifecycle_flags \<Rightarrow> sys_op \<Rightarrow> sys \<Rightarrow> sys option" where
  "sys_exec lc op s = (if crashed s then None else sys_step lc op s)"

text \<open>The system whose clients return only what they hold, once.\<close>

fun disciplined :: "sys_op \<Rightarrow> bool" where
  "disciplined (SysReturnAny i) = False"
| "disciplined _ = True"

definition fair_exec :: "lifecycle_flags \<Rightarrow> sys_op \<Rightarrow> sys \<Rightarrow> sys option" where
  "fair_exec lc op s = (if disciplined op then sys_exec lc op s else None)"

text \<open>The system whose clients may send any identifier of at least twelve bytes.\<close>

fun well_formed :: "sys_op \<Rightarrow> bool" where
  "well_formed (SysReturnAny i) = (12 \<le> length i)"
| "well_formed _ = True"

definition wf_exec :: "lifecycle_flags \<Rightarrow> sys_op \<Rightarrow> sys \<Rightarrow> sys option" where
  "wf_exec lc op s = (if well_formed op then sys_exec lc op s else None)"

end
