(* ===== verification/Pool_Safety.thy ===== *)
theory Pool_Safety
  imports Pool_System
begin

text \<open>
  Safety of the whole pool: in whatever order its goroutines run, no channel is closed twice
  or sent on after its close, no item is joined twice, no nil item is dereferenced, and the
  pool's map holds exactly the joined items that have not exited.
\<close>

section \<open>Calls\<close>

fun call_item :: "pool_call \<Rightarrow> cid option" where
  "call_item (CallPut i) = Some i"
| "call_item (CallJoin i) = Some i"
| "call_item (CallStart i) = Some i"
| "call_item (CallReset i) = Some i"
| "call_item (CallKill i) = Some i"
| "call_item _ = None"

text \<open>
  The remaining calls respect the channels: with the input of the buffer open (\<open>bo\<close>) and the
  requests of the spawner open (\<open>so\<close>), none sends on a closed channel or closes one twice.
\<close>

fun calls_ok :: "bool \<Rightarrow> bool \<Rightarrow> pool_call list \<Rightarrow> bool" where
  "calls_ok bo so [] = True"
| "calls_ok bo so (CallPut i # cs) = (bo \<and> calls_ok bo so cs)"
| "calls_ok bo so (CallBufferStop # cs) = (bo \<and> calls_ok False so cs)"
| "calls_ok bo so (CallSpawnerStop # cs) = (so \<and> calls_ok bo False cs)"
| "calls_ok bo so (CallRequest n # cs) = (so \<and> calls_ok bo so cs)"
| "calls_ok bo so (_ # cs) = calls_ok bo so cs"

text \<open>The calls made while the pool shuts down, once the two channels are closed.\<close>

fun drain_call :: "pool_call \<Rightarrow> bool" where
  "drain_call (CallKill i) = True"
| "drain_call (CallEmit e) = True"
| "drain_call CallCloseDone = True"
| "drain_call _ = False"

text \<open>The calls made before that.\<close>

fun run_call :: "pool_call \<Rightarrow> bool" where
  "run_call CallBufferStop = False"
| "run_call CallSpawnerStop = False"
| "run_call CallCloseDone = False"
| "run_call _ = True"

lemma calls_ok_drain: "list_all drain_call cs \<Longrightarrow> calls_ok bo so cs"
proof (induction cs)
  case (Cons c cs)
  then show ?case by (cases c) auto
qed simp

lemma calls_ok_run: "list_all run_call cs \<Longrightarrow> calls_ok True True cs"
proof (induction cs)
  case (Cons c cs)
  then show ?case by (cases c) auto
qed simp

lemma drain_killItems [simp]: "list_all drain_call (killItems p)"
  by (simp add: killItems_def list_all_iff)

lemma run_primeBacklog [simp]: "list_all run_call (primeBacklog p)"
  by (simp add: primeBacklog_def Let_def)

lemma call_item_lists [simp]:
  "c \<in> set (killItems p) \<Longrightarrow> call_item c = Some i \<longleftrightarrow> c = CallKill i"
  "c \<in> set (primeBacklog p) \<Longrightarrow> call_item c = None"
  "CallKill i \<in> set (killItems p) \<longleftrightarrow> i \<in> set (pitems p)"
  "call_item (emit_num_items p) = None"
  by (auto simp: killItems_def primeBacklog_def Let_def emit_num_items_def split: if_splits)

fun is_join :: "pool_call \<Rightarrow> bool" where
  "is_join (CallJoin i) = True"
| "is_join _ = False"

lemma no_join_lists [simp]:
  "c \<in> set (killItems p) \<Longrightarrow> \<not> is_join c"
  "c \<in> set (primeBacklog p) \<Longrightarrow> \<not> is_join c"
  "\<not> is_join (emit_num_items p)"
  by (auto simp: killItems_def primeBacklog_def Let_def emit_num_items_def split: if_splits)

section \<open>What the handlers return\<close>

lemma emit_num_items_calls [simp]: "run_call (emit_num_items p)" "drain_call (emit_num_items p)"
  by (simp_all add: emit_num_items_def)

text \<open>
  Every handler of an event, in one statement: the map, the phase, and the shape of the calls.
\<close>

lemma running_event_shape:
  assumes "running_event e i p = Done (p', cs)"
  shows "pitems p' = (if e = ItemExit then items_delete i (pitems p) else pitems p)"
    and "ppc p' = ppc p" and "donech_closed p' = donech_closed p"
    and "list_all run_call cs" and "\<forall>c \<in> set cs. \<not> is_join c"
    and "\<forall>c \<in> set cs. \<forall>j. call_item c = Some j \<longrightarrow> j \<in> set (pitems p)"
  using assms
  by (cases e; auto simp: running_event_def Let_def split: go.splits if_splits)+

lemma drain_items_top_shape:
  assumes "drain_items_top p = (p', cs)"
  shows "pitems p' = pitems p" and "ppc p' = ppc p \<or> ppc p' = PDone \<and> pitems p = []"
    and "donech_closed p' = donech_closed p"
    and "list_all drain_call cs" and "\<forall>c \<in> set cs. \<not> is_join c"
    and "\<forall>c \<in> set cs. \<forall>j. call_item c = Some j \<longrightarrow> j \<in> set (pitems p)"
    and "CallCloseDone \<in> set cs \<longrightarrow> ppc p' = PDone"
  using assms by (auto simp: drain_items_top_def killItems_def list_all_iff split: if_splits)

lemma handleDrainingEvent_shape:
  assumes "handleDrainingEvent e i p = Done (p', cs)"
  shows "pitems p' = (if e = ItemExit then items_delete i (pitems p) else pitems p)"
    and "ppc p' = ppc p" and "donech_closed p' = donech_closed p"
    and "list_all drain_call cs" and "\<forall>c \<in> set cs. \<not> is_join c"
    and "\<forall>c \<in> set cs. \<forall>j. call_item c = Some j \<longrightarrow> j \<in> set (pitems p)"
    and "CallCloseDone \<notin> set cs"
  using assms
  by (cases e; auto simp: handleDrainingEvent_def emit_num_items_def Let_def split: go.splits if_splits)+

lemma drain_event_shape:
  assumes "drain_event e i p = Done (p', cs)"
  shows "pitems p' = (if e = ItemExit then items_delete i (pitems p) else pitems p)"
    and "ppc p' = ppc p \<or> ppc p = PDrainItems \<and> ppc p' = PDone \<and> pitems p' = []"
    and "donech_closed p' = donech_closed p"
    and "list_all drain_call cs" and "\<forall>c \<in> set cs. \<not> is_join c"
    and "\<forall>c \<in> set cs. \<forall>j. call_item c = Some j \<longrightarrow> j \<in> set (pitems p)"
    and "CallCloseDone \<in> set cs \<longrightarrow> ppc p' = PDone"
proof -
  from assms obtain p1 c1 where h: "handleDrainingEvent e i p = Done (p1, c1)"
    and r: "(p', cs) = (case ppc p1 of
        PDrainItems \<Rightarrow> (case drain_items_top p1 of (p2, ks) \<Rightarrow> (p2, c1 @ ks))
      | _ \<Rightarrow> (p1, c1 @ killItems p1))"
    by (auto simp: drain_event_def go_simps)
  note h' = handleDrainingEvent_shape [OF h]
  obtain p2 ks where t: "drain_items_top p1 = (p2, ks)" by fastforce
  note t' = drain_items_top_shape [OF t]
  have sub: "set (pitems p1) \<subseteq> set (pitems p)" using h'(1) by auto
  have "list_all drain_call (killItems p1)" "\<forall>c \<in> set (killItems p1). \<not> is_join c"
    "\<forall>c \<in> set (killItems p1). \<forall>j. call_item c = Some j \<longrightarrow> j \<in> set (pitems p)"
    "CallCloseDone \<notin> set (killItems p1)"
    using sub by (auto simp: killItems_def list_all_iff)
  note k = this
  have t6: "\<forall>c \<in> set ks. \<forall>j. call_item c = Some j \<longrightarrow> j \<in> set (pitems p)"
    using t'(6) sub by blast
  consider (items) "ppc p = PDrainItems" "p' = p2" "cs = c1 @ ks" | (other) "p' = p1" "cs = c1 @ killItems p1"
    using r t h'(2) by (cases "ppc p") auto
  note r' = this
  show "pitems p' = (if e = ItemExit then items_delete i (pitems p) else pitems p)"
    using h'(1) t'(1) by (cases rule: r') simp_all
  show "ppc p' = ppc p \<or> ppc p = PDrainItems \<and> ppc p' = PDone \<and> pitems p' = []"
    using h'(2) t'(1,2) by (cases rule: r') auto
  show "donech_closed p' = donech_closed p"
    using h'(3) t'(3) by (cases rule: r') simp_all
  show "list_all drain_call cs"
    using h'(4) t'(4) k(1) by (cases rule: r') simp_all
  show "\<forall>c \<in> set cs. \<not> is_join c"
    using h'(5) t'(5) k(2) by (cases rule: r') auto
  show "\<forall>c \<in> set cs. \<forall>j. call_item c = Some j \<longrightarrow> j \<in> set (pitems p)"
    using h'(6) t6 k(3) by (cases rule: r') auto
  show "CallCloseDone \<in> set cs \<longrightarrow> ppc p' = PDone"
    using h'(7) t'(7) k(4) by (cases rule: r') auto
qed

text \<open>The same for the event case of whichever loop runs.\<close>

definition event_shape :: "pool_event_id \<Rightarrow> cid \<Rightarrow> pool \<Rightarrow> pool \<Rightarrow> pool_call list \<Rightarrow> bool" where
  "event_shape e i p p' cs \<longleftrightarrow>
     ppc p \<in> {PRunning, PDrainSpawner, PDrainItems}
     \<and> pitems p' = (if e = ItemExit then items_delete i (pitems p) else pitems p)
     \<and> (ppc p' = ppc p \<or> ppc p = PDrainItems \<and> ppc p' = PDone \<and> pitems p' = [])
     \<and> donech_closed p' = donech_closed p
     \<and> (if ppc p = PRunning then list_all run_call cs else list_all drain_call cs)
     \<and> (\<forall>c \<in> set cs. \<not> is_join c)
     \<and> (\<forall>c \<in> set cs. \<forall>j. call_item c = Some j \<longrightarrow> j \<in> set (pitems p))
     \<and> (CallCloseDone \<in> set cs \<longrightarrow> ppc p' = PDone)"

lemma run_call_close: "list_all run_call cs \<Longrightarrow> CallCloseDone \<notin> set cs"
  by (auto simp: list_all_iff)

lemma pool_event_shape:
  assumes "pool_event e i p = Done (p', cs)"
  shows "event_shape e i p p' cs"
proof -
  consider (running) "ppc p = PRunning" "running_event e i p = Done (p', cs)"
    | (draining) "ppc p = PDrainSpawner \<or> ppc p = PDrainItems" "drain_event e i p = Done (p', cs)"
    using assms by (cases "ppc p") (auto simp: pool_event_def)
  then show ?thesis
  proof cases
    case running
    note sh = running_event_shape [OF running(2)]
    show ?thesis
      unfolding event_shape_def using running(1) sh run_call_close [OF sh(4)] by simp
  next
    case draining
    note sh = drain_event_shape [OF draining(2)]
    show ?thesis
      unfolding event_shape_def using draining(1) sh by auto
  qed
qed

section \<open>The steps of an item on its own\<close>

lemma take_event_ipc: "take_event b e i = Some j \<Longrightarrow> ipc j = ipc i"
  by (auto simp: take_event_def split: if_splits)

lemma body_wait [simp]:
  "ipc (wait_join_event e i) = ipc i"
  "ipc i = MainLoop \<Longrightarrow> ipc (main_loop_event e i) \<noteq> WaitJoin"
  "ipc i = MainLoop \<Longrightarrow> ipc (main_loop_container k i) \<noteq> WaitJoin"
  by (auto simp: item_bodies split: item_event.split container_event.split)

lemma item_recv_wait: "item_recv b e i = Done i' \<Longrightarrow> ipc i' = WaitJoin \<longleftrightarrow> ipc i = WaitJoin"
  by (auto simp: item_recv_def dest: take_event_ipc split: option.splits item_pc.splits)

lemma item_own_step:
  assumes "own_step op" "item_exec lc op i = Done (x, i')"
  shows "x = None" and "exited i' = exited i" and "ipc i' = WaitJoin \<longleftrightarrow> ipc i = WaitJoin"
proof -
  show x: "x = None" using assms by (cases op) (auto simp: go_simps)
  show "exited i' = exited i" using assms(2) x by (simp add: item_exec_silent)
  show "ipc i' = WaitJoin \<longleftrightarrow> ipc i = WaitJoin"
    using assms
    by (cases op)
      (auto simp: go_simps item_child_def item_container_def item_drained_def item_drop_post_def
        dest: item_recv_wait split: if_splits option.splits)
qed

lemma item_own_no_panic: "own_step op \<Longrightarrow> item_exec lc op i \<noteq> Panic"
  by (cases op)
    (auto simp: go_simps item_child_def item_container_def item_drained_def item_drop_post_def
      item_recv_def item_deliver_def recv_container_event_def doStart_def doStop_def monitor_step_def
      split: if_splits option.splits item_pc.splits sum.splits)

section \<open>The invariant\<close>

text \<open>No goroutine has panicked, and the spawner and the items keep their own invariants.\<close>

definition parts_ok :: "sys \<Rightarrow> bool" where
  "parts_ok s \<longleftrightarrow>
     \<not> crashed s \<and> spawner_ok (spawner s) \<and> (\<forall>i it. its s i = Some it \<longrightarrow> item_ok it)"

text \<open>
  The calls left to make respect the channels; until the shutdown the channels are open and
  only then are they closed; the pool is done once, with an empty map and a spent spawner.
\<close>

definition phase_ok :: "sys \<Rightarrow> bool" where
  "phase_ok s \<longleftrightarrow>
     calls_ok (\<not> inch_closed (buffer s)) (\<not> requestch_closed (spawner s)) (todo s)
     \<and> (ppc (pl s) \<in> {PInit, PSelfStop, PRunning} \<longrightarrow>
          \<not> inch_closed (buffer s) \<and> \<not> requestch_closed (spawner s) \<and> list_all run_call (todo s))
     \<and> (donech_closed (pl s) \<longrightarrow> ppc (pl s) = PDone)
     \<and> (CallCloseDone \<in> set (todo s) \<longrightarrow> ppc (pl s) = PDone)
     \<and> (ppc (pl s) = PDone \<longrightarrow> pitems (pl s) = [])
     \<and> (ppc (pl s) \<in> {PDrainItems, PDone} \<longrightarrow> spc (spawner s) = SExited)"

text \<open>Every identifier in use is that of an item, and long enough to be logged.\<close>

definition ids_ok :: "sys \<Rightarrow> bool" where
  "ids_ok s \<longleftrightarrow>
     distinct (pitems (pl s)) \<and> set (pitems (pl s)) \<subseteq> dom (its s)
     \<and> (\<forall>i \<in> dom (its s). 12 \<le> length i)
     \<and> set (buf (buffer s)) \<subseteq> dom (its s) \<and> set (held s) \<subseteq> dom (its s)
     \<and> (\<forall>i \<in> set (returning s). 12 \<le> length i)
     \<and> (\<forall>c \<in> set (todo s). \<forall>j. call_item c = Some j \<longrightarrow> j \<in> dom (its s))"

definition waiting :: "sys \<Rightarrow> cid \<Rightarrow> bool" where
  "waiting s i \<longleftrightarrow> (\<exists>it. its s i = Some it \<and> ipc it = WaitJoin)"

text \<open>An item on its way to the pool has not been joined, and is joined at most once.\<close>

definition join_ok :: "sys \<Rightarrow> bool" where
  "join_ok s \<longleftrightarrow>
     (\<forall>i \<in> set (in_flight (spc (spawner s))). i \<notin> set (pitems (pl s)) \<and> waiting s i)
     \<and> (\<forall>c \<in> set (tl (todo s)). \<not> is_join c)
     \<and> (\<forall>i. CallJoin i \<in> set (todo s) \<longrightarrow> i \<in> set (pitems (pl s)) \<and> waiting s i)"

text \<open>The map of the pool holds exactly the joined items that have not exited.\<close>

definition alive :: "sys \<Rightarrow> cid \<Rightarrow> pitem \<Rightarrow> bool" where
  "alive s i it \<longleftrightarrow> \<not> exited it \<and> (ipc it = WaitJoin \<longrightarrow> CallJoin i \<in> set (todo s))"

definition alive_ok :: "sys \<Rightarrow> bool" where
  "alive_ok s \<longleftrightarrow> (\<forall>i it. its s i = Some it \<longrightarrow> (i \<in> set (pitems (pl s)) \<longleftrightarrow> alive s i it))"

definition sys_inv :: "sys \<Rightarrow> bool" where
  "sys_inv s \<longleftrightarrow> parts_ok s \<and> phase_ok s \<and> ids_ok s \<and> join_ok s \<and> alive_ok s"

lemmas sys_inv_defs = sys_inv_def parts_ok_def phase_ok_def ids_ok_def join_ok_def alive_ok_def waiting_def alive_def

lemma sys_inv_new: "sys_inv (newSys n)"
  by (simp add: sys_inv_defs newSys_def newPool_def newPoolItemBuffer_def spawner_ok_new
      newPoolItemSpawner_def fill_top_eq spawner_ok_def)

section \<open>The calls keep it\<close>

lemma in_tl: "x \<in> set (tl xs) \<Longrightarrow> x \<in> set xs"
  by (cases xs) auto

lemma no_join_tail: "join_ok s \<Longrightarrow> todo s = c # cs \<Longrightarrow> \<forall>d \<in> set cs. \<not> is_join d"
  by (simp add: join_ok_def)

lemma no_join_in:
  "\<forall>d \<in> set cs. \<not> is_join d \<Longrightarrow> CallJoin i \<notin> set cs"
  "\<forall>d \<in> set cs. \<not> is_join d \<Longrightarrow> \<forall>d \<in> set (tl cs). \<not> is_join d"
  by (auto dest: in_tl)

lemma alive_okI:
  "(\<And>i it. its s i = Some it \<Longrightarrow> i \<in> set (pitems (pl s)) \<longleftrightarrow> alive s i it) \<Longrightarrow> alive_ok s"
  by (simp add: alive_ok_def)

lemma alive_okD: "alive_ok s \<Longrightarrow> its s i = Some it \<Longrightarrow> i \<in> set (pitems (pl s)) \<longleftrightarrow> alive s i it"
  by (simp add: alive_ok_def)

lemma on_item_inv:
  assumes inv: "sys_inv s" and todo: "todo s = c # cs" "call_item c = Some i"
    and c: "c = CallStart i \<or> c = CallReset i \<or> c = CallKill i"
    and f: "\<And>it. item_ok it \<Longrightarrow> item_ok (f it) \<and> ipc (f it) = ipc it \<and> exited (f it) = exited it"
    and t: "outcome s (on_item i (Done \<circ> f) s) (\<lambda>s'. s'\<lparr>todo := cs\<rparr>) = Some t"
  shows "sys_inv t"
proof -
  have "i \<in> dom (its s)" using inv todo by (auto simp: sys_inv_def ids_ok_def)
  then obtain it where it: "its s i = Some it" by blast
  have ok: "item_ok it" using inv it by (auto simp: sys_inv_def parts_ok_def)
  have t: "t = s\<lparr>its := (its s)(i \<mapsto> f it), todo := cs\<rparr>"
    using t it by (simp add: on_item_def outcome_def)
  have "parts_ok t" using inv f [OF ok] by (auto simp: t sys_inv_def parts_ok_def)
  moreover have "phase_ok t" using c by (elim disjE) (use inv todo in \<open>simp_all add: t sys_inv_def phase_ok_def\<close>)
  moreover have "ids_ok t" using inv todo it by (auto simp: t sys_inv_def ids_ok_def)
  moreover have "join_ok t"
  proof -
    have w: "waiting t j = waiting s j" for j using it f [OF ok] by (simp add: t waiting_def)
    have j: "join_ok s" using inv by (simp add: sys_inv_def)
    note nj = no_join_in [OF no_join_tail [OF j todo(1)]]
    show ?thesis unfolding join_ok_def w using j nj by (simp add: t join_ok_def)
  qed
  moreover have "alive_ok t"
  proof (rule alive_okI)
    fix j jt
    assume "its t j = Some jt"
    then obtain jt0 where j: "its s j = Some jt0" "ipc jt = ipc jt0" "exited jt = exited jt0"
      using it f [OF ok] by (auto simp: t split: if_splits)
    have "CallJoin j \<in> set (todo s) \<longleftrightarrow> CallJoin j \<in> set cs" using todo c by auto
    with alive_okD [OF _ j(1)] inv j show "j \<in> set (pitems (pl t)) \<longleftrightarrow> alive t j jt"
      by (simp add: t sys_inv_def alive_def)
  qed
  ultimately show ?thesis by (simp add: sys_inv_def)
qed

text \<open>The calls that touch no item.\<close>

lemma plain_call_inv:
  assumes inv: "sys_inv s" and todo: "todo s = c # cs" "\<not> is_join c" "todo t = cs"
    and same: "its t = its s" "pitems (pl t) = pitems (pl s)" "held t = held s" "returning t = returning s"
      "in_flight (spc (spawner t)) = in_flight (spc (spawner s))" "crashed t = crashed s"
    and buf: "set (buf (buffer t)) \<subseteq> dom (its s)" and ok: "spawner_ok (spawner t)" "phase_ok t"
  shows "sys_inv t"
proof -
  have "parts_ok t" using inv same ok by (simp add: sys_inv_def parts_ok_def)
  moreover have "ids_ok t" using inv todo same buf by (auto simp: sys_inv_def ids_ok_def)
  moreover have "join_ok t"
  proof -
    have j: "join_ok s" using inv by (simp add: sys_inv_def)
    note nj = no_join_in [OF no_join_tail [OF j todo(1)]]
    have w: "waiting t j = waiting s j" for j using same by (simp add: waiting_def)
    show ?thesis unfolding join_ok_def w using j nj same todo by (simp add: join_ok_def)
  qed
  moreover have "alive_ok t"
  proof -
    have "CallJoin j \<in> set (todo s) \<longleftrightarrow> CallJoin j \<in> set cs" for j using todo by auto
    then have "alive t j = alive s j" for j by (simp add: alive_def fun_eq_iff todo)
    with inv same show ?thesis by (simp add: sys_inv_def alive_ok_def)
  qed
  ultimately show ?thesis using ok by (simp add: sys_inv_def)
qed

lemma join_call_inv:
  assumes inv: "sys_inv s" and todo: "todo s = CallJoin i # cs"
    and t: "outcome s (exec_call (CallJoin i) s) (\<lambda>s'. s'\<lparr>todo := cs\<rparr>) = Some t"
  shows "sys_inv t"
proof -
  have j: "join_ok s" and a: "alive_ok s" and k: "parts_ok s" using inv by (simp_all add: sys_inv_def)
  note nj = no_join_in [OF no_join_tail [OF j todo]]
  obtain it where it: "its s i = Some it" "ipc it = WaitJoin" and i: "i \<in> set (pitems (pl s))"
    using j todo by (auto simp: join_ok_def waiting_def)
  define it' where "it' = it\<lparr>ipc := MainLoop\<rparr>"
  have join: "item_join it = Done it'" using it by (simp add: item_join_def it'_def)
  have ok: "item_ok it'" using k it join by (auto simp: parts_ok_def intro: item_ok_join)
  have ex: "exited it' = exited it" "ipc it' = MainLoop" by (simp_all add: it'_def)
  have t: "t = s\<lparr>its := (its s)(i \<mapsto> it'), todo := cs\<rparr>"
    using t it join by (simp add: on_item_def outcome_def)
  have "parts_ok t" using k ok by (simp add: t parts_ok_def)
  moreover have "phase_ok t" using inv todo by (simp add: t sys_inv_def phase_ok_def)
  moreover have "ids_ok t" using inv todo i by (auto simp: t sys_inv_def ids_ok_def)
  moreover have "join_ok t"
  proof -
    have "waiting t l" if "l \<in> set (in_flight (spc (spawner s)))" for l
      using j that i by (auto simp: join_ok_def waiting_def t)
    then show ?thesis using j nj by (simp add: join_ok_def t)
  qed
  moreover have "alive_ok t"
  proof (rule alive_okI)
    fix l lt
    assume l: "its t l = Some lt"
    show "l \<in> set (pitems (pl t)) \<longleftrightarrow> alive t l lt"
    proof (cases "l = i")
      case True
      with l ex have "lt = it'" by (simp add: t)
      with True i alive_okD [OF a it(1)] ex show ?thesis by (simp add: t alive_def)
    next
      case False
      with l have "its s l = Some lt" by (simp add: t)
      from alive_okD [OF a this] False show ?thesis by (simp add: t alive_def todo)
    qed
  qed
  ultimately show ?thesis by (simp add: sys_inv_def)
qed

lemma spawner_calls_flight:
  "spawner_request n x = Done y \<Longrightarrow> spc y = spc x \<and> requestch_closed y = requestch_closed x"
  "spawner_stop x = Done y \<Longrightarrow> spc y = spc x \<and> requestch_closed y"
  by (auto simp: spawner_request_def spawner_stop_def split: if_splits)

lemma call_inv:
  assumes inv: "sys_inv s" and t: "sys_step lc SysCall s = Some t"
  shows "sys_inv t"
proof -
  obtain c cs where todo: "todo s = c # cs"
    and t: "outcome s (exec_call c s) (\<lambda>s'. s'\<lparr>todo := cs\<rparr>) = Some t"
    using t by (auto split: list.splits)
  have ph: "phase_ok s" and sp: "spawner_ok (spawner s)" using inv by (simp_all add: sys_inv_def parts_ok_def)
  have b: "set (buf (buffer s)) \<subseteq> dom (its s)" using inv by (simp add: sys_inv_def ids_ok_def)
  show ?thesis
  proof (cases c)
    case (CallPut i)
    have i: "i \<in> dom (its s)" using inv todo CallPut by (simp add: sys_inv_def ids_ok_def)
    have op: "\<not> inch_closed (buffer s)" using ph todo CallPut by (simp add: phase_ok_def)
    obtain q where q: "buffer_put i (buffer s) = Done q" "buf q = buf (buffer s) @ [i]" "\<not> inch_closed q"
      using op rbuf.put_open [of "buffer s" i] by auto
    have t: "t = s\<lparr>buffer := q, todo := cs\<rparr>" using t CallPut q by (simp add: outcome_def)
    show ?thesis
      by (rule plain_call_inv [OF inv todo]) (use CallPut ph b i q sp todo op in \<open>simp_all add: t phase_ok_def\<close>)
  next
    case CallBufferStop
    have op: "\<not> inch_closed (buffer s)" using ph todo CallBufferStop by (simp add: phase_ok_def)
    have t: "t = s\<lparr>buffer := (buffer s)\<lparr>inch_closed := True\<rparr>, todo := cs\<rparr>"
      using t CallBufferStop op by (simp add: outcome_def buffer_stop_def)
    show ?thesis
      by (rule plain_call_inv [OF inv todo]) (use CallBufferStop ph b sp todo in \<open>auto simp: t phase_ok_def\<close>)
  next
    case CallSpawnerStop
    have op: "\<not> requestch_closed (spawner s)" using ph todo CallSpawnerStop by (simp add: phase_ok_def)
    obtain x where x: "spawner_stop (spawner s) = Done x" using op by (simp add: spawner_stop_def)
    have t: "t = s\<lparr>spawner := x, todo := cs\<rparr>" using t CallSpawnerStop x by (simp add: outcome_def)
    show ?thesis
      by (rule plain_call_inv [OF inv todo])
        (use CallSpawnerStop ph b spawner_ok_stop [OF sp x] spawner_calls_flight(2) [OF x] todo
          in \<open>auto simp: t phase_ok_def\<close>)
  next
    case (CallRequest n)
    have op: "\<not> requestch_closed (spawner s)" using ph todo CallRequest by (simp add: phase_ok_def)
    from op t CallRequest obtain x where x: "spawner_request n (spawner s) = Done x"
      and t: "t = s\<lparr>spawner := x, todo := cs\<rparr>"
      by (auto simp: outcome_def spawner_request_def split: if_splits)
    show ?thesis
      by (rule plain_call_inv [OF inv todo])
        (use CallRequest ph b spawner_ok_request [OF sp x] spawner_calls_flight(1) [OF x] todo
          in \<open>auto simp: t phase_ok_def\<close>)
  next
    case (CallJoin i)
    with inv todo t show ?thesis by (simp add: join_call_inv)
  next
    case (CallStart i)
    show ?thesis
      by (rule on_item_inv [where f = item_start, OF inv todo])
        (use CallStart t in \<open>auto simp: item_start_def item_ok_def posted_event_def\<close>)
  next
    case (CallReset i)
    show ?thesis
      by (rule on_item_inv [where f = item_reset, OF inv todo])
        (use CallReset t in \<open>auto simp: item_reset_def item_ok_def posted_event_def\<close>)
  next
    case (CallKill i)
    show ?thesis
      by (rule on_item_inv [where f = item_kill, OF inv todo])
        (use CallKill t in \<open>auto simp: item_kill_def item_ok_def posted_event_def\<close>)
  next
    case CallCloseInit
    have t: "t = s\<lparr>pl := (pl s)\<lparr>initch_closed := True\<rparr>, todo := cs\<rparr>"
      using t CallCloseInit by (simp add: outcome_def)
    show ?thesis
      by (rule plain_call_inv [OF inv todo]) (use CallCloseInit ph b sp todo in \<open>auto simp: t phase_ok_def\<close>)
  next
    case CallCloseDone
    have t: "t = s\<lparr>pl := (pl s)\<lparr>donech_closed := True\<rparr>, todo := cs\<rparr>"
      using t CallCloseDone by (simp add: outcome_def)
    show ?thesis
      by (rule plain_call_inv [OF inv todo]) (use CallCloseDone ph b sp todo in \<open>auto simp: t phase_ok_def\<close>)
  next
    case (CallEmit e)
    have t: "t = s\<lparr>pool_emits := pool_emits s @ [e], todo := cs\<rparr>"
      using t CallEmit by (simp add: outcome_def)
    show ?thesis
      by (rule plain_call_inv [OF inv todo]) (use CallEmit ph b sp todo in \<open>auto simp: t phase_ok_def\<close>)
  qed
qed

section \<open>The steps of the other goroutines keep it\<close>

text \<open>The steps that change no item, and leave the pool's goroutine where it is.\<close>

lemma quiet_step_inv:
  assumes inv: "sys_inv s"
    and same: "its t = its s" "pl t = pl s" "todo t = todo s" "crashed t = crashed s"
      "inch_closed (buffer t) = inch_closed (buffer s)"
      "requestch_closed (spawner t) = requestch_closed (spawner s)"
    and sub: "set (in_flight (spc (spawner t))) \<subseteq> set (in_flight (spc (spawner s)))"
      "set (buf (buffer t)) \<subseteq> dom (its s)" "set (held t) \<subseteq> dom (its s)"
      "\<forall>i \<in> set (returning t). 12 \<le> length i"
    and ok: "spawner_ok (spawner t)" "spc (spawner s) = SExited \<Longrightarrow> spc (spawner t) = SExited"
  shows "sys_inv t"
proof -
  have w: "waiting t j = waiting s j" "alive t j = alive s j" for j
    using same by (simp_all add: waiting_def alive_def fun_eq_iff)
  have "parts_ok t" using inv same ok by (simp add: sys_inv_def parts_ok_def)
  moreover have "phase_ok t" using inv same ok by (simp add: sys_inv_def phase_ok_def)
  moreover have "ids_ok t" using inv same sub by (simp add: sys_inv_def ids_ok_def)
  moreover have "join_ok t"
  proof -
    have "join_ok s" using inv by (simp add: sys_inv_def)
    then show ?thesis using sub(1) same unfolding join_ok_def w by auto
  qed
  moreover have "alive_ok t" using inv same w by (simp add: sys_inv_def alive_ok_def)
  ultimately show ?thesis by (simp add: sys_inv_def)
qed

lemma spawner_recv_flight:
  "spawner_recv_request x = Done y \<Longrightarrow>
     in_flight (spc y) = [] \<and> requestch_closed y = requestch_closed x \<and> spc x = SFilling"
  by (auto simp: spawner_recv_request_def split: spawner_pc.splits list.splits if_splits)
     (auto simp: fill_top_eq drain_top_def)

lemma spawner_result_flight:
  "spawner_result r x = Done y \<Longrightarrow>
     in_flight (spc y) = (case r of None \<Rightarrow> [] | Some i \<Rightarrow> [i])
     \<and> requestch_closed y = requestch_closed x \<and> spc x \<noteq> SExited"
  by (auto simp: spawner_result_def Let_def split: spawner_pc.splits option.splits if_splits)
     (auto simp: fill_top_eq drain_top_def)

lemma spawn_recv_inv: "sys_inv s \<Longrightarrow> sys_step lc SysSpawnRecv s = Some t \<Longrightarrow> sys_inv t"
proof -
  assume inv: "sys_inv s" and t: "sys_step lc SysSpawnRecv s = Some t"
  have ids: "ids_ok s" and ok: "spawner_ok (spawner s)" using inv by (simp_all add: sys_inv_def parts_ok_def)
  obtain x where x: "spawner_recv_request (spawner s) = Done x" and t: "t = s\<lparr>spawner := x\<rparr>"
    using t by (auto simp: outcome_def spawner_recv_request_def split: go.splits spawner_pc.splits list.splits if_splits)
  show ?thesis
    by (rule quiet_step_inv [OF inv])
      (use ids spawner_ok_recv [OF ok x] spawner_recv_flight [OF x] in \<open>auto simp: t ids_ok_def\<close>)
qed

lemma spawn_result_inv: "sys_inv s \<Longrightarrow> sys_step lc (SysSpawnResult r) s = Some t \<Longrightarrow> sys_inv t"
proof -
  assume inv: "sys_inv s" and t: "sys_step lc (SysSpawnResult r) s = Some t"
  have ids: "ids_ok s" and ok: "spawner_ok (spawner s)" and ph: "phase_ok s" and pt: "parts_ok s"
    and al: "alive_ok s" and jo: "join_ok s"
    using inv by (simp_all add: sys_inv_def parts_ok_def)
  have np: "spawner_result r (spawner s) \<noteq> Panic"
    by (auto simp: spawner_result_def Let_def split: spawner_pc.splits option.splits)
  show ?thesis
  proof (cases r)
    case None
    obtain x where x: "spawner_result r (spawner s) = Done x" and t: "t = s\<lparr>spawner := x\<rparr>"
      using t None np by (auto simp: outcome_def split: go.splits)
    show ?thesis
      by (rule quiet_step_inv [OF inv])
        (use ids spawner_ok_result [OF ok x] spawner_result_flight [OF x] None in \<open>auto simp: t ids_ok_def\<close>)
  next
    case (Some i)
    obtain x where x: "spawner_result r (spawner s) = Done x" and i: "its s i = None" "12 \<le> length i"
      and t: "t = s\<lparr>spawner := x, its := (its s)(i \<mapsto> createPoolItem)\<rparr>"
      using t Some np by (auto simp: outcome_def split: go.splits if_splits)
    note fl = spawner_result_flight [OF x]
    have new: "ipc createPoolItem = WaitJoin" "\<not> exited createPoolItem" by (simp_all add: createPoolItem_def)
    have notin: "i \<notin> set (pitems (pl s))" "CallJoin i \<notin> set (todo s)"
      using i ids jo by (auto simp: ids_ok_def join_ok_def)
    have "parts_ok t" using pt spawner_ok_result [OF ok x] by (simp add: t parts_ok_def item_ok_create)
    moreover have "phase_ok t" using ph fl by (auto simp: t phase_ok_def)
    moreover have "ids_ok t" using ids i by (auto simp: t ids_ok_def)
    moreover have "join_ok t"
    proof -
      have "waiting t j" if "waiting s j \<or> j = i" for j using that i new by (auto simp: t waiting_def)
      with jo fl notin Some show ?thesis by (simp add: join_ok_def t)
    qed
    moreover have "alive_ok t"
    proof (rule alive_okI)
      fix l lt
      assume l: "its t l = Some lt"
      show "l \<in> set (pitems (pl t)) \<longleftrightarrow> alive t l lt"
      proof (cases "l = i")
        case True
        with l new notin show ?thesis by (simp add: t alive_def)
      next
        case False
        with l have "its s l = Some lt" by (simp add: t)
        from alive_okD [OF al this] show ?thesis by (simp add: t alive_def)
      qed
    qed
    ultimately show ?thesis by (simp add: sys_inv_def)
  qed
qed

lemma item_step_inv: "sys_inv s \<Longrightarrow> sys_step lc (SysItem i op) s = Some t \<Longrightarrow> sys_inv t"
proof -
  assume inv: "sys_inv s" and t: "sys_step lc (SysItem i op) s = Some t"
  have pt: "parts_ok s" and jo: "join_ok s" and al: "alive_ok s" and ids: "ids_ok s"
    using inv by (simp_all add: sys_inv_def)
  obtain it x it' where it: "its s i = Some it" and own: "own_step op"
    and ex: "item_exec lc op it = Done (x, it')" and t: "t = s\<lparr>its := (its s)(i \<mapsto> it')\<rparr>"
    using t item_own_no_panic [of op lc]
    by (auto simp: outcome_def split: option.splits if_splits go.splits)
  note st = item_own_step [OF own ex]
  have "item_ok it" using pt it by (auto simp: parts_ok_def)
  then have ok: "item_ok it'" using ex by (rule item_exec_ok)
  have w: "waiting t j = waiting s j" for j using it st(3) by (simp add: t waiting_def)
  have "parts_ok t" using pt ok by (simp add: t parts_ok_def)
  moreover have "phase_ok t" using inv by (simp add: t sys_inv_def phase_ok_def)
  moreover have "ids_ok t" using ids it by (auto simp: t ids_ok_def)
  moreover have "join_ok t" using jo unfolding join_ok_def w by (simp add: t)
  moreover have "alive_ok t"
  proof (rule alive_okI)
    fix l lt
    assume l: "its t l = Some lt"
    obtain lt0 where "its s l = Some lt0" "exited lt = exited lt0" "ipc lt = WaitJoin \<longleftrightarrow> ipc lt0 = WaitJoin"
      using l it st by (auto simp: t split: if_splits)
    with alive_okD [OF al this(1)] show "l \<in> set (pitems (pl t)) \<longleftrightarrow> alive t l lt"
      by (simp add: t alive_def)
  qed
  ultimately show ?thesis by (simp add: sys_inv_def)
qed

lemma client_step_inv:
  assumes inv: "sys_inv s" and t: "sys_step lc op s = Some t" "well_formed op"
    and op: "op \<in> {SysBufferExit, SysCheckout e, SysReturn i, SysReturnAny i, SysReturnDone i, SysStop, SysStopped}"
  shows "sys_inv t"
proof -
  have ids: "ids_ok s" and ok: "spawner_ok (spawner s)" using inv by (simp_all add: sys_inv_def parts_ok_def)
  have long: "12 \<le> length j" if "j \<in> dom (its s)" for j using ids that by (simp add: ids_ok_def)
  have q: "buffer_get (buffer s) = Done (Some j, b) \<Longrightarrow>
      j \<in> dom (its s) \<and> set (buf b) \<subseteq> dom (its s) \<and> inch_closed b = inch_closed (buffer s)" for j b
    using ids by (auto simp: buffer_get_def ids_ok_def split: list.splits if_splits)
  have nf: "buffer_get (buffer s) \<noteq> Panic" by (simp add: buffer_get_def split: list.splits)
  have x: "buffer_exit (buffer s) = Done b \<Longrightarrow> buf b = buf (buffer s) \<and> inch_closed b = inch_closed (buffer s)"
    "buffer_exit (buffer s) \<noteq> Panic" for b
    by (auto simp: buffer_exit_def split: if_splits)
  consider (exit) b where "op = SysBufferExit" "buffer_exit (buffer s) = Done b" "t = s\<lparr>buffer := b\<rparr>"
    | (none) "t = s"
    | (held) j b where "buffer_get (buffer s) = Done (Some j, b)" "t = s\<lparr>buffer := b, held := held s @ [j]\<rparr>"
    | (failed) j b where "buffer_get (buffer s) = Done (Some j, b)"
        "t = s\<lparr>buffer := b, returning := returning s @ [j]\<rparr>"
    | (ret) "op = SysReturn i" "i \<in> set (held s)" "t = s\<lparr>held := remove1 i (held s), returning := returning s @ [i]\<rparr>"
    | (any) "op = SysReturnAny i" "t = s\<lparr>returning := returning s @ [i]\<rparr>"
    | (finished) "t = s\<lparr>returning := remove1 i (returning s)\<rparr>"
    | (stop) m k where "t = s\<lparr>stopping := m, stop_waiting := k\<rparr>"
  proof -
    have ?thesis if "op = SysCheckout e"
      using t that nf none held failed by (auto simp: outcome_def split: go.splits option.splits)
    moreover have ?thesis if "op = SysBufferExit"
      using t that x exit by (auto simp: outcome_def split: go.splits)
    moreover have ?thesis if "op = SysReturn i" using t that ret by (auto split: if_splits)
    moreover have ?thesis if "op = SysReturnAny i" using t that any by auto
    moreover have ?thesis if "op = SysReturnDone i" using t that finished by (auto split: if_splits)
    moreover have ?thesis if "op = SysStop" using t that stop [of "stop_waiting s" "Suc (stopping s)"] by auto
    moreover have ?thesis if "op = SysStopped"
      using t that stop [of "stop_waiting s - 1" "stopping s"] stop [of "stop_waiting s" "stopping s - 1"]
      by (auto split: if_splits)
    ultimately show ?thesis using op by blast
  qed
  then show ?thesis
  proof cases
    case exit
    with x show ?thesis by (intro quiet_step_inv [OF inv]) (use ids ok in \<open>auto simp: ids_ok_def\<close>)
  next
    case none
    with inv show ?thesis by simp
  next
    case held
    with q show ?thesis by (intro quiet_step_inv [OF inv]) (use ids ok in \<open>auto simp: ids_ok_def\<close>)
  next
    case failed
    with q long show ?thesis by (intro quiet_step_inv [OF inv]) (use ids ok in \<open>auto simp: ids_ok_def\<close>)
  next
    case ret
    then have "12 \<le> length i" using ids by (intro long) (auto simp: ids_ok_def)
    moreover have "set (remove1 i (held s)) \<subseteq> set (held s)" by (rule set_remove1_subset)
    ultimately show ?thesis
      using ret by (intro quiet_step_inv [OF inv]) (use ids ok in \<open>auto simp: ids_ok_def\<close>)
  next
    case any
    with t show ?thesis by (intro quiet_step_inv [OF inv]) (use ids ok in \<open>auto simp: ids_ok_def\<close>)
  next
    case finished
    moreover have "set (remove1 i (returning s)) \<subseteq> set (returning s)" by (rule set_remove1_subset)
    ultimately show ?thesis by (intro quiet_step_inv [OF inv]) (use ids ok in \<open>auto simp: ids_ok_def\<close>)
  next
    case stop
    then show ?thesis by (intro quiet_step_inv [OF inv]) (use ids ok in \<open>auto simp: ids_ok_def\<close>)
  qed
qed

section \<open>The steps of the pool's goroutine keep it\<close>

lemma phase_run_I:
  assumes "\<not> inch_closed (buffer t)" "\<not> requestch_closed (spawner t)" "list_all run_call (todo t)"
    and "ppc (pl t) \<in> {PInit, PSelfStop, PRunning}" "\<not> donech_closed (pl t)"
  shows "phase_ok t"
  using assms calls_ok_run [OF assms(3)] run_call_close [OF assms(3)] by (auto simp: phase_ok_def)

lemma phase_drain_I:
  assumes "list_all drain_call (todo t)" "ppc (pl t) \<in> {PDrainSpawner, PDrainItems, PDone}"
    and "donech_closed (pl t) \<Longrightarrow> ppc (pl t) = PDone"
    and "CallCloseDone \<in> set (todo t) \<longrightarrow> ppc (pl t) = PDone"
    and "ppc (pl t) = PDone \<Longrightarrow> pitems (pl t) = []"
    and "ppc (pl t) \<in> {PDrainItems, PDone} \<Longrightarrow> spc (spawner t) = SExited"
  shows "phase_ok t"
  using assms calls_ok_drain [OF assms(1)] by (auto simp: phase_ok_def)

lemma phase_runD:
  assumes "phase_ok s" "ppc (pl s) \<in> {PInit, PSelfStop, PRunning}"
  shows "\<not> inch_closed (buffer s)" "\<not> requestch_closed (spawner s)" "\<not> donech_closed (pl s)"
  using assms by (auto simp: phase_ok_def)

lemma init_inv: "sys_inv s \<Longrightarrow> sys_step lc (SysInit err) s = Some t \<Longrightarrow> sys_inv t"
proof -
  assume inv: "sys_inv s" and t: "sys_step lc (SysInit err) s = Some t"
  have pc: "ppc (pl s) = PInit" and todo: "todo s = []" and t: "t = handled s (runInitialize err (pl s))"
    using t by (auto simp: selecting_def split: if_splits)
  have it: "pitems (pl t) = pitems (pl s)" "donech_closed (pl t) = donech_closed (pl s)"
    "ppc (pl t) \<in> {PSelfStop, PRunning}" "its t = its s" "spawner t = spawner s"
    "buffer t = buffer s" "crashed t = crashed s" "held t = held s" "returning t = returning s"
    by (auto simp: t handled_def runInitialize_def split: option.splits)
  have cs: "list_all run_call (todo t)" "\<forall>c \<in> set (todo t). call_item c = None \<and> \<not> is_join c"
    by (auto simp: t handled_def runInitialize_def split: option.splits)
  have nj: "CallJoin j \<notin> set (todo t)" for j using cs(2) by auto
  have w: "waiting t j = waiting s j" for j using it by (simp add: waiting_def)
  have a: "alive t j jt = alive s j jt" for j jt using it nj todo by (simp add: alive_def)
  have ph: "phase_ok s" using inv by (simp add: sys_inv_def)
  have "parts_ok t" using inv it by (simp add: sys_inv_def parts_ok_def)
  moreover have "phase_ok t"
    by (rule phase_run_I) (use phase_runD [OF ph] pc it cs(1) in simp_all)
  moreover have "ids_ok t" using inv it cs by (auto simp: sys_inv_def ids_ok_def)
  moreover have "join_ok t"
    using inv it nj cs unfolding sys_inv_def join_ok_def w by (auto dest: in_tl)
  moreover have "alive_ok t" using inv it unfolding sys_inv_def alive_ok_def a by simp
  ultimately show ?thesis by (simp add: sys_inv_def)
qed

lemma self_stop_blocked: "sys_inv s \<Longrightarrow> sys_step lc SysSelfStop s = None"
  by (auto simp: run_self_stop_def outcome_def sys_inv_def phase_ok_def)

lemma shutdown_inv: "sys_inv s \<Longrightarrow> sys_step lc SysShutdown s = Some t \<Longrightarrow> sys_inv t"
proof -
  assume inv: "sys_inv s" and t: "sys_step lc SysShutdown s = Some t"
  have pc: "ppc (pl s) = PRunning" and todo: "todo s = []"
    using t by (auto simp: selecting_def split: if_splits)
  obtain m k where t: "t = handled (s\<lparr>stopping := m, stop_waiting := k\<rparr>) (running_shutdown (pl s))"
    using t by (auto split: if_splits)
  have it: "pitems (pl t) = pitems (pl s)" "donech_closed (pl t) = donech_closed (pl s)"
    "ppc (pl t) = PDrainSpawner" "its t = its s" "spawner t = spawner s"
    "buffer t = buffer s" "crashed t = crashed s" "held t = held s" "returning t = returning s"
    by (auto simp: t handled_def running_shutdown_def)
  define cs where "cs = killItems (pl s) @ [CallEmit PoolDraining] @ killItems (pl s)"
  have k: "\<forall>c \<in> set (killItems (pl s)). \<exists>j \<in> set (pitems (pl s)). c = CallKill j"
    by (auto simp: killItems_def)
  have cs: "todo t = CallBufferStop # CallSpawnerStop # cs" "list_all drain_call cs"
    by (simp_all add: t handled_def running_shutdown_def cs_def)
  have cs': "\<forall>c \<in> set cs. \<not> is_join c" "CallCloseDone \<notin> set cs"
    "\<forall>c \<in> set cs. \<forall>j. call_item c = Some j \<longrightarrow> j \<in> set (pitems (pl s))"
    using k unfolding cs_def by fastforce+
  have nj: "CallJoin j \<notin> set (todo t)" for j using cs(1) no_join_in(1) [OF cs'(1)] by simp
  have w: "waiting t j = waiting s j" for j using it by (simp add: waiting_def)
  have a: "alive t j jt = alive s j jt" for j jt using it nj todo by (simp add: alive_def)
  have ph: "phase_ok s" using inv by (simp add: sys_inv_def)
  have "parts_ok t" using inv it by (simp add: sys_inv_def parts_ok_def)
  moreover have "phase_ok t"
    using phase_runD [OF ph] it pc cs(1) cs'(2) calls_ok_drain [OF cs(2)] by (simp add: phase_ok_def)
  moreover have "ids_ok t" using inv it cs(1) cs'(3) by (auto simp: sys_inv_def ids_ok_def)
  moreover have "join_ok t"
    using inv it(1,5) nj cs(1) cs'(1) unfolding sys_inv_def join_ok_def w by simp
  moreover have "alive_ok t" using inv it unfolding sys_inv_def alive_ok_def a by simp
  ultimately show ?thesis by (simp add: sys_inv_def)
qed

text \<open>The events: \<open>s1\<close> is the state once the message has been received.\<close>

lemma event_inv:
  assumes inv: "sys_inv s" and todo: "todo s = []"
    and sh: "event_shape e i (pl s) p' cs" and t: "t = handled s1 (p', cs)"
    and same: "spawner s1 = spawner s" "buffer s1 = buffer s" "crashed s1 = crashed s" "held s1 = held s"
      "set (returning s1) \<subseteq> set (returning s)" "dom (its s1) = dom (its s)"
    and oks: "\<And>j jt. its s1 j = Some jt \<Longrightarrow> item_ok jt"
    and others: "\<And>j. j \<noteq> i \<Longrightarrow> its s1 j = its s j"
    and kept: "e \<noteq> ItemExit \<Longrightarrow> map_option exited (its s1 i) = map_option exited (its s i)"
    and gone: "e = ItemExit \<Longrightarrow> map_option exited (its s1 i) = Some True"
    and wait: "map_option (\<lambda>it. ipc it = WaitJoin) (its s1 i) = map_option (\<lambda>it. ipc it = WaitJoin) (its s i)"
  shows "sys_inv t"
proof -
  have ph: "phase_ok s" and ids: "ids_ok s" and jo: "join_ok s" and al: "alive_ok s"
    using inv by (simp_all add: sys_inv_def)
  have tt: "its t = its s1" "pl t = p'" "todo t = cs" "spawner t = spawner s" "buffer t = buffer s"
    "crashed t = crashed s" "held t = held s" "returning t = returning s1"
    using same by (simp_all add: t handled_def)
  have pi: "set (pitems p') = set (pitems (pl s)) - (if e = ItemExit then {i} else {})"
    and di: "distinct (pitems p')"
    using sh ids by (auto simp: event_shape_def ids_ok_def)
  have nojoin: "\<forall>c \<in> set cs. \<not> is_join c" using sh by (simp add: event_shape_def)
  note nj = no_join_in(1) [OF nojoin]
  have w: "waiting t j = waiting s j" for j
    using wait others [of j] by (cases "j = i") (auto simp: waiting_def tt map_option_eq_Some map_option_case split: option.splits)
  have "parts_ok t" using inv oks by (simp add: sys_inv_def parts_ok_def tt)
  moreover have "phase_ok t"
  proof (cases "ppc (pl s) = PRunning")
    case True
    then show ?thesis
      by (intro phase_run_I) (use sh phase_runD [OF ph] in \<open>simp_all add: event_shape_def tt\<close>)
  next
    case False
    have d: "ppc (pl s) = PDrainItems \<Longrightarrow> spc (spawner s) = SExited" "ppc (pl s) \<noteq> PDone \<Longrightarrow> \<not> donech_closed (pl s)"
      using ph by (auto simp: phase_ok_def)
    show ?thesis
      by (rule phase_drain_I) (use False sh d in \<open>auto simp: event_shape_def tt\<close>)
  qed
  moreover have "ids_ok t"
  proof -
    have "\<forall>c \<in> set cs. \<forall>j. call_item c = Some j \<longrightarrow> j \<in> set (pitems (pl s))"
      using sh by (simp add: event_shape_def)
    moreover have "set (pitems (pl s)) \<subseteq> dom (its s)" "\<forall>j \<in> set (returning s). 12 \<le> length j"
      using ids by (simp_all add: ids_ok_def)
    moreover have "set (pitems p') \<subseteq> set (pitems (pl s))" unfolding pi by blast
    ultimately have "\<forall>c \<in> set cs. \<forall>j. call_item c = Some j \<longrightarrow> j \<in> dom (its s)"
      "\<forall>j \<in> set (returning s1). 12 \<le> length j" "set (pitems p') \<subseteq> dom (its s)"
      using same(5) by blast+
    with ids di same(6) show ?thesis by (simp add: ids_ok_def tt)
  qed
  moreover have "join_ok t"
  proof -
    have f: "\<forall>j \<in> set (in_flight (spc (spawner s))). j \<notin> set (pitems (pl s)) \<and> waiting s j"
      using jo unfolding join_ok_def by blast
    have "\<forall>j \<in> set (in_flight (spc (spawner s))). j \<notin> set (pitems p') \<and> waiting s j"
      using f unfolding pi by blast
    then show ?thesis unfolding join_ok_def w tt using nj no_join_in(2) [OF nojoin] by blast
  qed
  moreover have "alive_ok t"
  proof (rule alive_okI)
    fix l lt
    assume l: "its t l = Some lt"
    obtain l0 where l0: "its s l = Some l0" using l same(6) tt by (metis domD domI)
    from alive_okD [OF al this] have old: "l \<in> set (pitems (pl s)) \<longleftrightarrow> \<not> exited l0 \<and> ipc l0 \<noteq> WaitJoin"
      by (simp add: alive_def todo)
    show "l \<in> set (pitems (pl t)) \<longleftrightarrow> alive t l lt"
    proof (cases "l = i")
      case True
      with l l0 old kept gone wait nj show ?thesis by (cases "e = ItemExit") (simp_all add: tt pi alive_def)
    next
      case False
      with l l0 old others [OF False] nj show ?thesis by (simp add: tt pi alive_def)
    qed
  qed
  ultimately show ?thesis by (simp add: sys_inv_def)
qed

lemma returned_inv: "sys_inv s \<Longrightarrow> sys_step lc (SysReturned i) s = Some t \<Longrightarrow> sys_inv t"
proof -
  assume inv: "sys_inv s" and t: "sys_step lc (SysReturned i) s = Some t"
  have todo: "todo s = []" and i: "i \<in> set (returning s)"
    and t: "outcome s (pool_event ItemReturned i (pl s)) (handled (s\<lparr>returning := remove1 i (returning s)\<rparr>)) = Some t"
    using t by (auto simp: selecting_def split: if_splits)
  have "\<not> length i < 12" using inv i by (auto simp: sys_inv_def ids_ok_def)
  with t obtain p' cs where e: "pool_event ItemReturned i (pl s) = Done (p', cs)"
    and t: "t = handled (s\<lparr>returning := remove1 i (returning s)\<rparr>) (p', cs)"
    by (auto simp: outcome_def pool_event_no_panic split: go.splits)
  show ?thesis
    by (rule event_inv [OF inv todo pool_event_shape [OF e] t])
      (use inv in \<open>auto simp: sys_inv_def parts_ok_def dest: set_remove1_subset [THEN subsetD]\<close>)
qed

lemma item_event_inv: "sys_inv s \<Longrightarrow> sys_step lc (SysItemEvent i) s = Some t \<Longrightarrow> sys_inv t"
proof -
  assume inv: "sys_inv s" and t: "sys_step lc (SysItemEvent i) s = Some t"
  have todo: "todo s = []" and t: "sys_item_event i s = Some t"
    using t by (auto simp: selecting_def split: if_splits)
  obtain it e it' where it: "its s i = Some it" and d: "item_deliver it = Done (e, it')"
    and t: "outcome s (pool_event e i (pl s)) (handled (s\<lparr>its := (its s)(i \<mapsto> it')\<rparr>)) = Some t"
    using t by (auto simp: sys_item_event_def split: option.splits go.splits)
  have oks: "\<forall>j jt. its s j = Some jt \<longrightarrow> item_ok jt" using inv by (simp add: sys_inv_def parts_ok_def)
  then have ok: "item_ok it" using it by blast
  have "12 \<le> length i" using inv it by (auto simp: sys_inv_def ids_ok_def)
  with t obtain p' cs where e: "pool_event e i (pl s) = Done (p', cs)"
    and t: "t = handled (s\<lparr>its := (its s)(i \<mapsto> it')\<rparr>) (p', cs)"
    by (auto simp: outcome_def pool_event_no_panic split: go.splits)
  have w: "ipc it \<noteq> WaitJoin" "ipc it' \<noteq> WaitJoin"
    using d by (auto simp: item_deliver_def split: item_pc.splits)
  note ex = item_deliver_exited [OF d ok]
  have ok': "item_ok it'" using ok d by (rule item_ok_deliver)
  show ?thesis
    by (rule event_inv [OF inv todo pool_event_shape [OF e] t])
      (use it ex w oks ok' in \<open>simp_all add: insert_absorb domI split: if_split_asm\<close>)
qed

lemma spawner_next_flight:
  "spawner_next x = Done (Some i, y) \<Longrightarrow>
     in_flight (spc x) = [i] \<and> in_flight (spc y) = [] \<and> requestch_closed y = requestch_closed x"
  "spawner_next x = Done (None, y) \<Longrightarrow> y = x \<and> spc x = SExited"
  by (auto simp: spawner_next_def fill_top_eq drain_top_def split: spawner_pc.splits)

lemma next_inv: "sys_inv s \<Longrightarrow> sys_step lc SysNext s = Some t \<Longrightarrow> sys_inv t"
proof -
  assume inv: "sys_inv s" and t: "sys_step lc SysNext s = Some t"
  have ph: "phase_ok s" and ids: "ids_ok s" and jo: "join_ok s" and al: "alive_ok s" and pt: "parts_ok s"
    and ok: "spawner_ok (spawner s)"
    using inv by (simp_all add: sys_inv_def parts_ok_def)
  have todo: "todo s = []" and t: "sys_next s = Some t"
    using t by (auto simp: selecting_def split: if_splits)
  obtain r sp where r: "spawner_next (spawner s) = Done (r, sp)"
    using t by (auto simp: sys_next_def outcome_def spawner_next_def split: pool_pc.splits spawner_pc.splits)
  have ok': "spawner_ok sp" using ok r by (rule spawner_ok_next)
  consider (joined) i where "r = Some i" "ppc (pl s) = PRunning"
      "t = handled (s\<lparr>spawner := sp\<rparr>)
             ((pl s)\<lparr>pitems := items_insert i (pitems (pl s))\<rparr>,
              [CallJoin i, CallStart i, emit_num_items ((pl s)\<lparr>pitems := items_insert i (pitems (pl s))\<rparr>)])"
    | (killed) i where "r = Some i" "ppc (pl s) = PDrainSpawner"
      "t = handled (s\<lparr>spawner := sp\<rparr>) (pl s, CallKill i # killItems (pl s))"
    | (ended) "r = None" "ppc (pl s) = PDrainSpawner"
      "t = handled (s\<lparr>spawner := sp\<rparr>) (drain_items_top ((pl s)\<lparr>ppc := PDrainItems\<rparr>))"
  proof -
    have "r \<noteq> None" if "ppc (pl s) = PRunning"
      using spn.provide_lasts [OF ok _ r] phase_runD [OF ph] that by simp
    then show ?thesis
      using t r joined killed ended
      by (cases r; cases "ppc (pl s)")
        (auto simp: sys_next_def outcome_def running_next_def drain_spawner_next_def Let_def)
  qed
  then show ?thesis
  proof cases
    case joined
    note fl = spawner_next_flight(1) [OF r [unfolded joined(1)]]
    have i: "i \<notin> set (pitems (pl s))" "waiting s i" using jo fl by (auto simp: join_ok_def)
    have dom: "i \<in> dom (its s)" using i by (auto simp: waiting_def)
    have tt: "its t = its s" "set (pitems (pl t)) = insert i (set (pitems (pl s)))" "spawner t = sp"
      "buffer t = buffer s" "crashed t = crashed s" "held t = held s" "returning t = returning s"
      "ppc (pl t) = PRunning" "donech_closed (pl t) = donech_closed (pl s)"
      "distinct (pitems (pl s)) \<Longrightarrow> distinct (pitems (pl t))"
      using joined by (simp_all add: handled_def)
    obtain n where cs: "todo t = [CallJoin i, CallStart i, CallEmit n]"
      using joined by (simp add: handled_def emit_num_items_def)
    have w: "waiting t j = waiting s j" for j by (simp add: waiting_def tt)
    have "parts_ok t" using pt ok' by (simp add: parts_ok_def tt)
    moreover have "phase_ok t"
      by (rule phase_run_I) (use phase_runD [OF ph] joined(2) fl tt cs in simp_all)
    moreover have "ids_ok t" using ids dom tt(10) by (simp add: ids_ok_def tt cs)
    moreover have "join_ok t" unfolding join_ok_def w using fl i by (simp add: tt cs)
    moreover have "alive_ok t"
    proof (rule alive_okI)
      fix l lt
      assume "its t l = Some lt"
      then have l: "its s l = Some lt" by (simp add: tt)
      note alive_okD [OF al l]
      moreover have "item_ok lt" using pt l by (auto simp: parts_ok_def)
      ultimately show "l \<in> set (pitems (pl t)) \<longleftrightarrow> alive t l lt"
        using i l by (auto simp: tt cs alive_def todo waiting_def item_ok_def)
    qed
    ultimately show ?thesis by (simp add: sys_inv_def)
  next
    case killed
    note fl = spawner_next_flight(1) [OF r [unfolded killed(1)]]
    have dom: "i \<in> dom (its s)" using jo fl by (auto simp: join_ok_def waiting_def)
    have tt: "its t = its s" "pl t = pl s" "spawner t = sp"
      "buffer t = buffer s" "crashed t = crashed s" "held t = held s" "returning t = returning s"
      "todo t = CallKill i # killItems (pl s)"
      using killed by (simp_all add: handled_def)
    have k: "\<forall>c \<in> set (killItems (pl s)). \<exists>j \<in> set (pitems (pl s)). c = CallKill j"
      by (auto simp: killItems_def)
    have cs: "\<forall>c \<in> set (killItems (pl s)). \<not> is_join c" "CallCloseDone \<notin> set (killItems (pl s))"
      "\<forall>c \<in> set (killItems (pl s)). \<forall>j. call_item c = Some j \<longrightarrow> j \<in> set (pitems (pl s))"
      using k by fastforce+
    have w: "waiting t j = waiting s j" "alive t j = alive s j" for j
      by (simp_all add: waiting_def alive_def fun_eq_iff tt todo no_join_in(1) [OF cs(1)])
    have "parts_ok t" using pt ok' by (simp add: parts_ok_def tt)
    moreover have "phase_ok t"
      by (rule phase_drain_I) (use ph killed(2) in \<open>simp_all add: tt cs(2) phase_ok_def\<close>)
    moreover have "ids_ok t" using ids dom cs(3) by (auto simp: ids_ok_def tt)
    moreover have "join_ok t" unfolding join_ok_def w using fl cs(1) no_join_in(1) [OF cs(1)] by (simp add: tt)
    moreover have "alive_ok t" using al by (simp add: alive_ok_def tt w)
    ultimately show ?thesis by (simp add: sys_inv_def)
  next
    case ended
    note fl = spawner_next_flight(2) [OF r [unfolded ended(1)]]
    obtain p' cs where d: "drain_items_top ((pl s)\<lparr>ppc := PDrainItems\<rparr>) = (p', cs)" by fastforce
    note sh = drain_items_top_shape [OF d]
    have tt: "its t = its s" "pl t = p'" "spawner t = spawner s"
      "buffer t = buffer s" "crashed t = crashed s" "held t = held s" "returning t = returning s" "todo t = cs"
      using ended d fl by (simp_all add: handled_def)
    have w: "waiting t j = waiting s j" "alive t j = alive s j" for j
      by (simp_all add: waiting_def alive_def fun_eq_iff tt todo no_join_in(1) [OF sh(5)])
    have "parts_ok t" using pt by (simp add: parts_ok_def tt)
    moreover have "phase_ok t"
      by (rule phase_drain_I) (use ph ended(2) fl sh in \<open>auto simp: tt phase_ok_def\<close>)
    moreover have "ids_ok t" using ids sh(1,6) by (auto simp: ids_ok_def tt)
    moreover have "join_ok t"
      unfolding join_ok_def w using fl no_join_in [OF sh(5)] by (simp add: tt)
    moreover have "alive_ok t" using al sh(1) by (simp add: alive_ok_def tt w)
    ultimately show ?thesis by (simp add: sys_inv_def)
  qed
qed

section \<open>Every reachable state\<close>

lemma sys_step_inv: "sys_inv s \<Longrightarrow> wf_exec lc op s = Some t \<Longrightarrow> sys_inv t"
proof -
  assume inv: "sys_inv s" and "wf_exec lc op s = Some t"
  then have t: "sys_step lc op s = Some t" and wf: "well_formed op"
    by (auto simp: wf_exec_def sys_exec_def split: if_splits)
  note client = client_step_inv [OF inv t wf]
  show ?thesis
    using t client
    by (cases op; hypsubst)
      (erule call_inv [OF inv] init_inv [OF inv] shutdown_inv [OF inv] next_inv [OF inv]
        item_event_inv [OF inv] returned_inv [OF inv] spawn_recv_inv [OF inv]
        spawn_result_inv [OF inv] item_step_inv [OF inv]
      | simp only: self_stop_blocked [OF inv] option.simps | blast)+
qed

interpretation sys: invariant "wf_exec lc" "newSys n" sys_inv for lc n
  by unfold_locales (auto intro: sys_inv_new sys_step_inv)

end
