(* ===== verification/Pool_Exclusive.thy ===== *)
theory Pool_Exclusive
  imports Pool_Safety
begin

text \<open>
  Exclusive checkouts: as long as clients return only what they hold, and once, no container is
  in two hands. The argument counts, for each item, the tickets that can still turn into a
  checkout; there is never more than one.
\<close>

section \<open>Tickets\<close>

definition tickets :: "sys \<Rightarrow> cid \<Rightarrow> nat" where
  "tickets s i =
     count_list (buf (buffer s)) i + count_list (held s) i + count_list (returning s) i
     + count_list (todo s) (CallPut i) + count_list (todo s) (CallReset i)
     + (case its s i of None \<Rightarrow> 0 | Some it \<Rightarrow> item_tokens it)"

definition excl_inv :: "sys \<Rightarrow> bool" where
  "excl_inv s \<longleftrightarrow> sys_inv s \<and> set (returning s) \<subseteq> dom (its s) \<and> (\<forall>i. tickets s i \<le> 1)"

lemma excl_inv_new: "excl_inv (newSys n)"
  using sys_inv_new [of n] by (simp add: excl_inv_def tickets_def newSys_def newPoolItemBuffer_def)

section \<open>No step makes a second ticket\<close>

text \<open>An event asks for at most one put or reset, of the item it is about.\<close>

lemma count_drain_calls: "list_all drain_call cs \<Longrightarrow> count_list cs (CallPut j) + count_list cs (CallReset j) = 0"
proof (induction cs)
  case (Cons c cs)
  then show ?case by (cases c) auto
qed simp

lemma count_prime [simp]:
  "count_list (primeBacklog p) (CallPut j) = 0" "count_list (primeBacklog p) (CallReset j) = 0"
  by (simp_all add: primeBacklog_def Let_def)

lemma pool_event_tickets:
  assumes "pool_event e i p = Done (p', cs)"
  shows "count_list cs (CallPut j) + count_list cs (CallReset j) \<le> (if j = i \<and> e \<noteq> ItemExit then 1 else 0)"
proof (cases "ppc p = PRunning")
  case True
  with assms have "running_event e i p = Done (p', cs)" by (simp add: pool_event_def)
  then show ?thesis
    by (cases e) (auto simp: running_event_def Let_def emit_num_items_def split: go.splits if_splits)
next
  case False
  with pool_event_shape [OF assms] have "list_all drain_call cs" by (auto simp: event_shape_def)
  then show ?thesis by (simp add: count_drain_calls)
qed

lemma count_remove_in: "x \<in> set xs \<Longrightarrow> count_list (remove1 x xs) j + (if x = j then 1 else 0) = count_list xs j"
  by (auto dest: count_list_pos)

text \<open>The calls: a put moves its ticket to the buffer, a reset to the item.\<close>

lemma item_calls_tokens:
  "item_join it = Done it' \<Longrightarrow> item_tokens it' = item_tokens it"
  "item_tokens (item_start it) = item_tokens it"
  "item_tokens (item_kill it) = item_tokens it"
  "item_tokens (item_reset it) = item_tokens it + 1"
  by (auto simp: item_join_def item_start_def item_kill_def item_reset_def item_tokens_def split: if_splits)

lemma on_item_tickets:
  assumes "on_item i f s = Done s'"
  obtains it it' where "its s i = Some it" "f it = Done it'" "s' = s\<lparr>its := (its s)(i \<mapsto> it')\<rparr>"
  using assms by (auto simp: on_item_def go_simps split: option.splits)

lemma call_tickets:
  assumes "exec_call c s = Done s'" "todo s = c # cs"
  shows "tickets (s'\<lparr>todo := cs\<rparr>) j \<le> tickets s j"
proof (cases c)
  case (CallJoin i)
  with assms obtain it it' where "its s i = Some it" "item_join it = Done it'" "s' = s\<lparr>its := (its s)(i \<mapsto> it')\<rparr>"
    by (auto elim: on_item_tickets)
  with assms CallJoin item_calls_tokens(1) show ?thesis by (simp add: tickets_def)
next
  case (CallStart i)
  with assms obtain it where "its s i = Some it" "s' = s\<lparr>its := (its s)(i \<mapsto> item_start it)\<rparr>"
    by (auto elim: on_item_tickets)
  with assms CallStart show ?thesis by (simp add: tickets_def item_calls_tokens)
next
  case (CallReset i)
  with assms obtain it where "its s i = Some it" "s' = s\<lparr>its := (its s)(i \<mapsto> item_reset it)\<rparr>"
    by (auto elim: on_item_tickets)
  with assms CallReset show ?thesis by (auto simp: tickets_def item_calls_tokens)
next
  case (CallKill i)
  with assms obtain it where "its s i = Some it" "s' = s\<lparr>its := (its s)(i \<mapsto> item_kill it)\<rparr>"
    by (auto elim: on_item_tickets)
  with assms CallKill show ?thesis by (simp add: tickets_def item_calls_tokens)
next
  case (CallPut i)
  with assms obtain b where "buffer_put i (buffer s) = Done b" "s' = s\<lparr>buffer := b\<rparr>"
    by (auto simp: go_simps)
  with assms CallPut rbuf.put_Done show ?thesis by (fastforce simp: tickets_def)
next
  case CallBufferStop
  with assms show ?thesis by (auto simp: go_simps buffer_stop_def tickets_def split: if_splits)
qed (use assms in \<open>auto simp: go_simps tickets_def\<close>)

text \<open>A step of any goroutine.\<close>

lemma handled_tickets:
  assumes "todo s = []" "pool_event e i (pl s) = Done (p', cs)"
    and "tickets s1 j + (if j = i \<and> e \<noteq> ItemExit then 1 else 0) \<le> tickets s j" "todo s1 = []"
  shows "tickets (handled s1 (p', cs)) j \<le> tickets s j"
proof -
  have "tickets (handled s1 (p', cs)) j = tickets s1 j + (count_list cs (CallPut j) + count_list cs (CallReset j))"
    using assms(4) by (simp add: handled_def tickets_def)
  with pool_event_tickets [OF assms(2), of j] assms(3) show ?thesis by linarith
qed

definition in_dom :: "sys \<Rightarrow> bool" where
  "in_dom s \<longleftrightarrow> set (returning s) \<subseteq> dom (its s)"

lemma returned_tickets:
  assumes inv: "sys_inv s" "in_dom s" and t: "sys_step lc (SysReturned i) s = Some t" "\<not> crashed t"
  shows "tickets t j \<le> tickets s j" "in_dom t"
proof -
  obtain p' cs where todo: "todo s = []" and i: "i \<in> set (returning s)"
    and e: "pool_event ItemReturned i (pl s) = Done (p', cs)"
    and tt: "t = handled (s\<lparr>returning := remove1 i (returning s)\<rparr>) (p', cs)"
    using t by (auto simp: outcome_def selecting_def split: go.splits if_splits)
  have "tickets (s\<lparr>returning := remove1 i (returning s)\<rparr>) j + (if j = i \<and> ItemReturned \<noteq> ItemExit then 1 else 0) \<le> tickets s j"
    using count_remove_in [OF i, of j] by (auto simp: tickets_def)
  from handled_tickets [OF todo e this] show "tickets t j \<le> tickets s j" by (simp add: tt todo)
  show "in_dom t" using inv(2) by (auto simp: in_dom_def tt handled_def dest: set_remove1_subset [THEN subsetD])
qed

lemma item_event_tickets:
  assumes inv: "sys_inv s" "in_dom s" and t: "sys_step lc (SysItemEvent i) s = Some t" "\<not> crashed t"
  shows "tickets t j \<le> tickets s j" "in_dom t"
proof -
  obtain it e it' p' cs where todo: "todo s = []" and it: "its s i = Some it" and d: "item_deliver it = Done (e, it')"
    and e: "pool_event e i (pl s) = Done (p', cs)"
    and tt: "t = handled (s\<lparr>its := (its s)(i \<mapsto> it')\<rparr>) (p', cs)"
    using t by (auto simp: sys_item_event_def outcome_def selecting_def split: option.splits go.splits if_splits)
  have "item_ok it" using inv it by (auto simp: sys_inv_def parts_ok_def)
  moreover have "item_exec lc IDeliver it = Done (Some e, it')" using d by simp
  ultimately have "item_tokens it' + (if Some e = Some ItemReady then 1 else 0) \<le> item_tokens it + (if IDeliver = IReset then 1 else 0)"
    by (rule item_exec_tokens)
  moreover have "e \<noteq> ItemReturned" using d by (auto simp: item_deliver_def split: item_pc.splits)
  ultimately have "tickets (s\<lparr>its := (its s)(i \<mapsto> it')\<rparr>) j + (if j = i \<and> e \<noteq> ItemExit then 1 else 0) \<le> tickets s j"
    using it by (cases e) (auto simp: tickets_def)
  from handled_tickets [OF todo e this] show "tickets t j \<le> tickets s j" by (simp add: tt todo)
  show "in_dom t" using inv(2) it by (auto simp: in_dom_def tt handled_def)
qed
lemma tickets_cong:
  "buf (buffer t) = buf (buffer s) \<Longrightarrow> held t = held s \<Longrightarrow> returning t = returning s \<Longrightarrow>
   todo t = todo s \<Longrightarrow> its t = its s \<Longrightarrow> tickets t j = tickets s j"
  by (simp add: tickets_def)

lemma next_tickets:
  assumes t: "sys_step lc SysNext s = Some t" "\<not> crashed t"
  shows "tickets t j \<le> tickets s j" "in_dom s \<Longrightarrow> in_dom t"
proof -
  have todo: "todo s = []" using t by (auto simp: selecting_def split: if_splits)
  obtain sp p' cs where tt: "t = handled (s\<lparr>spawner := sp\<rparr>) (p', cs)"
    and cs: "count_list cs (CallPut j) + count_list cs (CallReset j) = 0"
  proof (cases "ppc (pl s) = PRunning")
    case True
    with t that show ?thesis
      by (auto simp: sys_next_def outcome_def running_next_def Let_def emit_num_items_def
          split: go.splits option.splits if_splits)
  next
    case False
    have k: "list_all drain_call (snd (drain_spawner_next r p))" for r p
      by (auto simp: drain_spawner_next_def drain_items_top_def split: option.split)
    with False t obtain r sp where "t = handled (s\<lparr>spawner := sp\<rparr>) (drain_spawner_next r (pl s))"
      by (auto simp: sys_next_def outcome_def split: go.splits pool_pc.splits if_splits)
    with that [of sp "fst (drain_spawner_next r (pl s))" "snd (drain_spawner_next r (pl s))"]
    show ?thesis using count_drain_calls [OF k [of r "pl s"]] by simp
  qed
  show "tickets t j \<le> tickets s j" using cs by (simp add: tt handled_def tickets_def todo)
  show "in_dom s \<Longrightarrow> in_dom t" by (simp add: tt handled_def in_dom_def)
qed

lemma loop_tickets:
  assumes t: "sys_step lc op s = Some t" "\<not> crashed t" and op: "op = SysInit e \<or> op = SysShutdown"
  shows "tickets t j \<le> tickets s j" "in_dom s \<Longrightarrow> in_dom t"
proof -
  have todo: "todo s = []" using t op by (auto simp: selecting_def split: if_splits)
  have "count_list (snd (runInitialize e p)) (CallPut j) + count_list (snd (runInitialize e p)) (CallReset j) = 0" for p
    by (auto simp: runInitialize_def split: option.split)
  moreover have "count_list (snd (running_shutdown p)) (CallPut j) + count_list (snd (running_shutdown p)) (CallReset j) = 0" for p
    using count_drain_calls [OF drain_killItems [of p], of j] by (simp add: running_shutdown_def)
  ultimately show "tickets t j \<le> tickets s j"
    using t op todo by (auto simp: handled_def tickets_def split: if_splits)
  show "in_dom t" if "in_dom s" using that t op by (elim disjE) (auto simp: handled_def in_dom_def split: if_split_asm)
qed

lemma item_tickets:
  assumes inv: "sys_inv s" and t: "sys_step lc (SysItem i op) s = Some t"
  shows "tickets t j \<le> tickets s j" "in_dom s \<Longrightarrow> in_dom t"
proof -
  obtain it x it' where it: "its s i = Some it" and own: "own_step op"
    and ex: "item_exec lc op it = Done (x, it')" and tt: "t = s\<lparr>its := (its s)(i \<mapsto> it')\<rparr>"
    using t item_own_no_panic [of op lc]
    by (auto simp: outcome_def split: option.splits if_splits go.splits)
  have "item_ok it" using inv it by (auto simp: sys_inv_def parts_ok_def)
  from item_exec_tokens [OF this ex] own have "item_tokens it' \<le> item_tokens it" by (cases op) auto
  with it show "tickets t j \<le> tickets s j" by (auto simp: tt tickets_def)
  show "in_dom s \<Longrightarrow> in_dom t" by (auto simp: tt in_dom_def)
qed

lemma checkout_tickets:
  assumes inv: "sys_inv s" and t: "sys_step lc (SysCheckout e) s = Some t"
  shows "tickets t j \<le> tickets s j" "in_dom s \<Longrightarrow> in_dom t"
proof -
  have nf: "buffer_get (buffer s) \<noteq> Panic" by (simp add: buffer_get_def split: list.splits)
  consider "t = s" | i b where "buffer_get (buffer s) = Done (Some i, b)"
      "t = s\<lparr>buffer := b, held := held s @ [i]\<rparr> \<or> t = s\<lparr>buffer := b, returning := returning s @ [i]\<rparr>"
    using t nf by (auto simp: outcome_def split: go.splits option.splits)
  then have "tickets t j \<le> tickets s j \<and> (in_dom s \<longrightarrow> in_dom t)"
  proof cases
    case 1
    then show ?thesis by simp
  next
    case 2
    from rbuf.take_Done [OF 2(1)] have b: "buf (buffer s) = i # buf b" by simp
    then have "i \<in> dom (its s)" using inv by (auto simp: sys_inv_def ids_ok_def)
    with b 2(2) show ?thesis by (auto simp: tickets_def in_dom_def)
  qed
  then show "tickets t j \<le> tickets s j" "in_dom s \<Longrightarrow> in_dom t" by auto
qed

lemma return_tickets:
  assumes inv: "sys_inv s" and t: "sys_step lc op s = Some t"
    and op: "op \<in> {SysReturn i, SysReturnDone i}"
  shows "tickets t j \<le> tickets s j" "in_dom s \<Longrightarrow> in_dom t"
proof -
  consider "op = SysReturn i" "i \<in> set (held s)" "t = s\<lparr>held := remove1 i (held s), returning := returning s @ [i]\<rparr>"
    | "op = SysReturnDone i" "i \<in> set (returning s)" "t = s\<lparr>returning := remove1 i (returning s)\<rparr>"
    using t op by (auto split: if_splits)
  then have "tickets t j \<le> tickets s j \<and> (in_dom s \<longrightarrow> in_dom t)"
  proof cases
    case 1
    have "i \<in> dom (its s)" using inv 1(2) by (auto simp: sys_inv_def ids_ok_def)
    then show ?thesis using 1 count_remove_in [OF 1(2), of j] by (auto simp: tickets_def in_dom_def)
  next
    case 2
    then show ?thesis using count_remove_in [OF 2(2), of j]
      by (auto simp: tickets_def in_dom_def dest: set_remove1_subset [THEN subsetD])
  qed
  then show "tickets t j \<le> tickets s j" "in_dom s \<Longrightarrow> in_dom t" by auto
qed

text \<open>Only the creation of an item issues a ticket, its first.\<close>

lemma not_in_count: "x \<notin> set xs \<Longrightarrow> count_list xs x = 0"
  by (induction xs) auto

lemma spawn_tickets:
  assumes inv: "sys_inv s" "in_dom s" and t: "sys_step lc (SysSpawnResult r) s = Some t" "\<not> crashed t"
  shows "tickets t j \<le> max 1 (tickets s j)" "in_dom t"
proof -
  consider x where "t = s\<lparr>spawner := x\<rparr>"
    | i x where "its s i = None" "t = s\<lparr>spawner := x, its := (its s)(i \<mapsto> createPoolItem)\<rparr>"
    using t by (auto simp: outcome_def split: go.splits option.splits if_splits)
  then have "tickets t j \<le> max 1 (tickets s j) \<and> in_dom t"
  proof cases
    case 1
    then show ?thesis using inv(2) by (simp add: tickets_def in_dom_def)
  next
    case 2
    have ids: "ids_ok s" using inv by (simp add: sys_inv_def)
    have "i \<notin> set (buf (buffer s))" "i \<notin> set (held s)" "i \<notin> set (returning s)"
      "CallPut i \<notin> set (todo s)" "CallReset i \<notin> set (todo s)"
      using ids inv(2) 2(1) by (auto simp: ids_ok_def in_dom_def)
    with 2 inv(2) show ?thesis
      by (auto simp: tickets_def not_in_count create_tokens in_dom_def)
  qed
  then show "tickets t j \<le> max 1 (tickets s j)" "in_dom t" by auto
qed

lemma fair_well_formed: "disciplined op \<Longrightarrow> well_formed op"
  by (cases op) auto

lemma excl_step:
  assumes inv: "excl_inv s" and f: "fair_exec lc op s = Some t"
  shows "excl_inv t"
proof -
  from f have t: "sys_step lc op s = Some t" and d: "disciplined op" and w: "wf_exec lc op s = Some t"
    by (auto simp: fair_exec_def wf_exec_def sys_exec_def fair_well_formed split: if_splits)
  have si: "sys_inv s" and id: "in_dom s" using inv by (simp_all add: excl_inv_def in_dom_def)
  have st: "sys_inv t" using sys_step_inv [OF si w] .
  then have nc: "\<not> crashed t" by (simp add: sys_inv_def parts_ok_def)
  have "tickets t j \<le> max 1 (tickets s j) \<and> in_dom t" for j
  proof (cases op)
    case SysCall
    then obtain c cs s' where "todo s = c # cs" "exec_call c s = Done s'" "t = s'\<lparr>todo := cs\<rparr>"
      using t nc by (auto simp: outcome_def split: list.splits go.splits)
    moreover from this have "returning s' = returning s \<and> dom (its s') = dom (its s)"
      by (cases c) (auto simp: go_simps on_item_def split: option.splits if_splits)
    ultimately show ?thesis using call_tickets [of c s s' cs j] id by (auto simp: in_dom_def)
  next
    case (SysInit e)
    with loop_tickets [OF t nc, of e] id show ?thesis by (simp add: le_max_iff_disj)
  next
    case SysSelfStop
    with t self_stop_blocked [OF si] show ?thesis by simp
  next
    case SysShutdown
    with loop_tickets [OF t nc] id show ?thesis by (simp add: le_max_iff_disj)
  next
    case SysNext
    with next_tickets [of lc s t] t nc id show ?thesis by (simp del: sys_step.simps add: le_max_iff_disj)
  next
    case (SysItemEvent i)
    with item_event_tickets [OF si id, of lc i t] t nc show ?thesis by (simp del: sys_step.simps add: le_max_iff_disj)
  next
    case (SysReturned i)
    with returned_tickets [OF si id, of lc i t] t nc show ?thesis by (simp del: sys_step.simps add: le_max_iff_disj)
  next
    case SysSpawnRecv
    then obtain x where "t = s\<lparr>spawner := x\<rparr>" using t nc by (auto simp: outcome_def split: go.splits)
    then show ?thesis using id by (simp add: tickets_def in_dom_def)
  next
    case (SysSpawnResult r)
    with spawn_tickets [OF si id, of lc r t] t nc show ?thesis by (simp del: sys_step.simps)
  next
    case SysBufferExit
    then obtain b where "buffer_exit (buffer s) = Done b" "t = s\<lparr>buffer := b\<rparr>"
      using t nc by (auto simp: outcome_def split: go.splits)
    then show ?thesis using id by (auto simp: tickets_def in_dom_def buffer_exit_def split: if_splits)
  next
    case (SysItem i iop)
    with item_tickets [OF si, of lc i iop t] t id show ?thesis by (simp del: sys_step.simps add: le_max_iff_disj)
  next
    case (SysCheckout e)
    with checkout_tickets [OF si, of lc e t] t id show ?thesis by (simp del: sys_step.simps add: le_max_iff_disj)
  next
    case (SysReturn i)
    with return_tickets [OF si t] id show ?thesis by (simp add: le_max_iff_disj)
  next
    case (SysReturnAny i)
    with d show ?thesis by simp
  next
    case (SysReturnDone i)
    with return_tickets [OF si t] id show ?thesis by (simp add: le_max_iff_disj)
  next
    case SysStop
    with t id show ?thesis by (auto simp: tickets_def in_dom_def)
  next
    case SysStopped
    with t id show ?thesis by (auto simp: tickets_def in_dom_def split: if_splits)
  qed
  moreover have "\<forall>j. tickets s j \<le> 1" using inv by (simp add: excl_inv_def)
  ultimately have "(\<forall>j. tickets t j \<le> 1) \<and> in_dom t" by (meson max.boundedI order_refl order_trans)
  then show ?thesis using st by (simp add: excl_inv_def in_dom_def)
qed

interpretation fair: invariant "fair_exec lc" "newSys n" excl_inv for lc n
  by unfold_locales (auto intro: excl_inv_new excl_step)

end
