(* ===== verification/Pool_Supply.thy ===== *)
theory Pool_Supply
  imports Pool_Safety
begin

text \<open>
  Replenishment: while the pool runs, the containers it has, the one on its way and the ones it
  has asked for are together never fewer than its configured size.
\<close>

section \<open>Requests\<close>

fun requests :: "pool_call list \<Rightarrow> int list" where
  "requests [] = []"
| "requests (CallRequest n # cs) = n # requests cs"
| "requests (_ # cs) = requests cs"

text \<open>The numbers the spawner works on or will come to work on, the latest at the end.\<close>

definition wanted :: "sys \<Rightarrow> int list" where
  "wanted s = needed (spawner s) # requestch (spawner s) @ requests (todo s)"

definition stock :: "sys \<Rightarrow> int" where
  "stock s =
     int (length (pitems (pl s))) + int (length (in_flight (spc (spawner s)))) + last (wanted s)"

definition supply_ok :: "sys \<Rightarrow> bool" where
  "supply_ok s \<longleftrightarrow>
     (\<forall>r \<in> set (wanted s). 0 \<le> r) \<and> (ppc (pl s) = PRunning \<longrightarrow> psize (pl s) \<le> stock s)"

definition supply_inv :: "int \<Rightarrow> sys \<Rightarrow> bool" where
  "supply_inv n s \<longleftrightarrow> sys_inv s \<and> supply_ok s \<and> psize (pl s) = n"

lemma supply_inv_new: "supply_inv n (newSys n)"
  using sys_inv_new [of n]
  by (simp add: supply_inv_def supply_ok_def wanted_def newSys_def newPool_def newPoolItemSpawner_def fill_top_eq)

lemma supplyD:
  assumes "supply_ok s"
  shows "0 \<le> last (wanted s)" "ppc (pl s) = PRunning \<Longrightarrow> psize (pl s) \<le> stock s"
proof -
  have "last (wanted s) \<in> set (wanted s)" by (rule last_in_set) (simp add: wanted_def)
  then show "0 \<le> last (wanted s)" using assms unfolding supply_ok_def by blast
  show "ppc (pl s) = PRunning \<Longrightarrow> psize (pl s) \<le> stock s" using assms by (simp add: supply_ok_def)
qed

section \<open>The handlers of the pool\<close>

lemma requests_append [simp]: "requests (xs @ ys) = requests xs @ requests ys"
proof (induction xs)
  case (Cons x xs)
  then show ?case by (cases x) auto
qed simp

lemma requests_drain [simp]: "list_all drain_call cs \<Longrightarrow> requests cs = []"
proof (induction cs)
  case (Cons c cs)
  then show ?case by (cases c) auto
qed simp

lemma requests_emit [simp]: "requests (emit_num_items p # cs) = requests cs"
  by (simp add: emit_num_items_def)

lemma requests_prime:
  "requests (primeBacklog p) =
     (if int (length (pitems p)) < psize p then [psize p - int (length (pitems p))] else [])"
  by (simp add: primeBacklog_def Let_def)

text \<open>After an event the latest request is the right one.\<close>

lemma pool_event_supply:
  assumes "pool_event e i p = Done (p', cs)"
  shows "psize p' = psize p" and "\<forall>r \<in> set (requests cs). 0 \<le> r"
    and "ppc p' = PRunning \<Longrightarrow> length (pitems p') = length (pitems p) \<and> requests cs = []
           \<or> psize p \<le> int (length (pitems p')) \<and> requests cs = []
           \<or> requests cs = [psize p - int (length (pitems p'))]"
proof -
  have d: "psize p' = psize p \<and> (\<forall>r \<in> set (requests cs). 0 \<le> r) \<and> ppc p' \<noteq> PRunning" if "ppc p \<noteq> PRunning"
  proof -
    have sh: "event_shape e i p p' cs" by (rule pool_event_shape [OF assms])
    have "psize p' = psize p"
      using assms that
      by (cases "ppc p"; cases e)
        (auto simp: pool_event_def drain_event_def handleDrainingEvent_def drain_items_top_def Let_def go_simps
          split: go.splits if_splits)
    then show ?thesis using sh that by (auto simp: event_shape_def)
  qed
  have r: "psize p' = psize p \<and> (\<forall>r \<in> set (requests cs). 0 \<le> r)
      \<and> (length (pitems p') = length (pitems p) \<and> requests cs = []
           \<or> psize p \<le> int (length (pitems p')) \<and> requests cs = []
           \<or> requests cs = [psize p - int (length (pitems p'))])" if "ppc p = PRunning"
  proof -
    have "running_event e i p = Done (p', cs)" using assms that by (simp add: pool_event_def)
    then show ?thesis
      by (cases e) (auto simp: running_event_def Let_def requests_prime split: go.splits if_splits)
  qed
  show "psize p' = psize p" using d r by blast
  show "\<forall>r \<in> set (requests cs). 0 \<le> r" using d r by blast
  show "ppc p' = PRunning \<Longrightarrow> length (pitems p') = length (pitems p) \<and> requests cs = []
           \<or> psize p \<le> int (length (pitems p')) \<and> requests cs = []
           \<or> requests cs = [psize p - int (length (pitems p'))]"
    using d r by blast
qed

lemma event_supply:
  assumes ok: "supply_ok s" "todo s = []" and e: "pool_event e i (pl s) = Done (p', cs)"
    and t: "pl t = p'" "todo t = cs" "spawner t = spawner s"
  shows "supply_ok t \<and> psize (pl t) = psize (pl s)"
proof -
  note ev = pool_event_supply [OF e]
  have run: "ppc p' = PRunning \<Longrightarrow> ppc (pl s) = PRunning"
    using pool_event_shape [OF e] by (auto simp: event_shape_def)
  have w: "wanted t = wanted s @ requests cs" using ok t by (simp add: wanted_def)
  have ge: "\<forall>r \<in> set (wanted t). 0 \<le> r" using ok ev(2) w by (auto simp: supply_ok_def)
  have "psize (pl t) \<le> stock t" if r: "ppc (pl t) = PRunning"
    using ev(3) r run supplyD [OF ok(1)] t ev(1) by (auto simp: stock_def w)
  with ge show ?thesis using ev(1) t by (simp add: supply_ok_def)
qed

section \<open>The spawner\<close>

lemma spawner_wanted:
  "spawner_request n x = Done y \<Longrightarrow> needed y # requestch y = (needed x # requestch x) @ [n]"
  "spawner_stop x = Done y \<Longrightarrow> needed y # requestch y = needed x # requestch x"
  "spawner_next x = Done (r, y) \<Longrightarrow> needed y # requestch y = needed x # requestch x"
  "spawner_recv_request x = Done y \<Longrightarrow>
     needed y # requestch y = needed x # requestch x \<or> needed y # requestch y = requestch x"
  by (auto simp: spawner_request_def spawner_stop_def spawner_next_def spawner_recv_request_def
      fill_top_eq drain_top_def split: if_splits spawner_pc.splits list.splits)

lemma spawner_result_wanted:
  "spawner_result r x = Done y \<Longrightarrow>
     requestch y = requestch x
     \<and> (needed y = needed x \<or> 0 < needed x \<and> needed y = needed x - 1 \<and> r \<noteq> None)"
  by (auto simp: spawner_result_def Let_def split: if_splits spawner_pc.splits option.splits)
     (auto simp: fill_top_eq drain_top_def)

section \<open>Every step\<close>

lemma supply_cong:
  assumes "supply_ok s" "wanted t = wanted s" "ppc (pl t) = ppc (pl s)" "psize (pl t) = psize (pl s)"
    "length (pitems (pl t)) = length (pitems (pl s))"
    "length (in_flight (spc (spawner s))) \<le> length (in_flight (spc (spawner t)))"
  shows "supply_ok t"
  using assms by (auto simp: supply_ok_def stock_def)

lemma quiet_supply:
  assumes "supply_ok s" "pl t = pl s \<and> spawner t = spawner s \<and> todo t = todo s"
  shows "supply_ok t \<and> psize (pl t) = psize (pl s)"
  using supply_cong [OF assms(1), of t] assms(2) by (simp add: wanted_def)

lemma call_supply:
  assumes ok: "supply_ok s" and x: "exec_call c s = Done s'" "todo s = c # cs"
  shows "supply_ok (s'\<lparr>todo := cs\<rparr>) \<and> psize (pl s') = psize (pl s)"
proof -
  let ?t = "s'\<lparr>todo := cs\<rparr>"
  have "wanted ?t = wanted s \<and> ppc (pl s') = ppc (pl s) \<and> psize (pl s') = psize (pl s)
      \<and> pitems (pl s') = pitems (pl s) \<and> spc (spawner s') = spc (spawner s)"
    using x spawner_wanted(1,2) spawner_calls_flight
    by (cases c) (fastforce simp: go_simps wanted_def on_item_def split: option.splits)+
  then show ?thesis using supply_cong [OF ok, of ?t] by simp
qed

lemma supply_step:
  assumes inv: "supply_inv n s" and w: "wf_exec lc op s = Some t"
  shows "supply_inv n t"
proof -
  have t: "sys_step lc op s = Some t" using w by (auto simp: wf_exec_def sys_exec_def split: if_splits)
  have si: "sys_inv s" and ok: "supply_ok s" and n: "psize (pl s) = n" using inv by (simp_all add: supply_inv_def)
  have st: "sys_inv t" using sys_step_inv [OF si w] .
  then have nc: "\<not> crashed t" by (simp add: sys_inv_def parts_ok_def)
  have "supply_ok t \<and> psize (pl t) = psize (pl s)"
  proof (cases op)
    case SysCall
    then obtain c cs s' where "todo s = c # cs" "exec_call c s = Done s'" "t = s'\<lparr>todo := cs\<rparr>"
      using t nc by (auto simp: outcome_def split: list.splits go.splits)
    with call_supply [OF ok] show ?thesis by simp
  next
    case (SysInit e)
    have ge: "\<forall>r \<in> set (wanted s). 0 \<le> r" using ok by (simp add: supply_ok_def)
    have todo: "todo s = []" using t SysInit by (simp add: selecting_def split: if_splits)
    have tt: "t = handled s (runInitialize e (pl s))" using t SysInit by (simp split: if_splits)
    have w: "wanted t = wanted s @ requests (snd (runInitialize e (pl s)))"
      by (simp add: wanted_def tt handled_def todo)
    show ?thesis
    proof (cases e)
      case None
      have same: "pitems (pl t) = pitems (pl s)" "psize (pl t) = psize (pl s)" "spawner t = spawner s"
        by (simp_all add: tt handled_def runInitialize_def None)
      have "requests (snd (runInitialize e (pl s))) = requests (primeBacklog (pl s))"
        by (simp add: runInitialize_def None)
      with w have w: "wanted t = wanted s @ requests (primeBacklog (pl s))" by simp
      have "psize (pl t) \<le> stock t" using supplyD(1) [OF ok] same by (simp add: stock_def w requests_prime)
      moreover have "\<forall>r \<in> set (wanted t). 0 \<le> r" using ge by (auto simp: w requests_prime)
      ultimately show ?thesis using same by (simp add: supply_ok_def)
    next
      case (Some x)
      then show ?thesis using ge w by (simp add: supply_ok_def tt handled_def runInitialize_def)
    qed
  next
    case SysSelfStop
    with t self_stop_blocked [OF si] show ?thesis by simp
  next
    case SysShutdown
    have w: "\<forall>r \<in> set (wanted s). 0 \<le> r" using ok by (simp add: supply_ok_def)
    with t SysShutdown show ?thesis
      by (auto simp: supply_ok_def handled_def running_shutdown_def wanted_def stock_def split: if_splits)
  next
    case SysNext
    have todo: "todo s = []" and t: "sys_next s = Some t"
      using t SysNext by (auto simp: selecting_def split: if_splits)
    obtain r sp where r: "spawner_next (spawner s) = Done (r, sp)"
      using t by (auto simp: sys_next_def outcome_def spawner_next_def split: pool_pc.splits spawner_pc.splits)
    note wn = spawner_wanted(3) [OF r]
    show ?thesis
    proof (cases "ppc (pl s) = PRunning")
      case True
      then obtain i p' cs where i: "r = Some i" and h: "p' = (pl s)\<lparr>pitems := items_insert i (pitems (pl s))\<rparr>"
        "cs = [CallJoin i, CallStart i, emit_num_items p']" "t = handled (s\<lparr>spawner := sp\<rparr>) (p', cs)"
        using t r nc by (auto simp: sys_next_def outcome_def running_next_def Let_def split: option.splits)
      note fl = spawner_next_flight(1) [OF r [unfolded i]]
      have "i \<notin> set (pitems (pl s))" using si fl by (auto simp: sys_inv_def join_ok_def)
      moreover have "wanted t = wanted s" using wn todo h by (simp add: wanted_def handled_def)
      ultimately have "stock t = stock s" using fl h by (simp add: stock_def handled_def items_insert_def)
      with \<open>wanted t = wanted s\<close> ok h show ?thesis by (simp add: supply_ok_def handled_def)
    next
      case False
      have k: "list_all drain_call (snd (drain_spawner_next r p))" "ppc p \<noteq> PRunning \<Longrightarrow> ppc (fst (drain_spawner_next r p)) \<noteq> PRunning"
        "psize (fst (drain_spawner_next r p)) = psize p" for p
        by (auto simp: drain_spawner_next_def drain_items_top_def split: option.splits)
      have h: "t = handled (s\<lparr>spawner := sp\<rparr>) (drain_spawner_next r (pl s))"
        using t r False by (auto simp: sys_next_def outcome_def split: pool_pc.splits)
      have "wanted t = wanted s" using wn todo h k(1) by (simp add: wanted_def handled_def)
      with h k(2,3) [of "pl s"] False ok show ?thesis by (simp add: supply_ok_def handled_def)
    qed
  next
    case (SysItemEvent i)
    then obtain it e it' p' cs where todo: "todo s = []" and e: "pool_event e i (pl s) = Done (p', cs)"
      and tt: "t = handled (s\<lparr>its := (its s)(i \<mapsto> it')\<rparr>) (p', cs)"
      using t nc by (auto simp: sys_item_event_def outcome_def selecting_def split: option.splits go.splits if_splits)
    show ?thesis by (rule event_supply [OF ok todo e]) (simp_all add: tt handled_def)
  next
    case (SysReturned i)
    then obtain p' cs where todo: "todo s = []" and e: "pool_event ItemReturned i (pl s) = Done (p', cs)"
      and tt: "t = handled (s\<lparr>returning := remove1 i (returning s)\<rparr>) (p', cs)"
      using t nc by (auto simp: outcome_def selecting_def split: go.splits if_splits)
    show ?thesis by (rule event_supply [OF ok todo e]) (simp_all add: tt handled_def)
  next
    case SysSpawnRecv
    then obtain x where x: "spawner_recv_request (spawner s) = Done x" and tt: "t = s\<lparr>spawner := x\<rparr>"
      using t nc by (auto simp: outcome_def split: go.splits)
    note fl = spawner_recv_flight [OF x]
    have l: "set (wanted t) \<subseteq> set (wanted s)" "last (wanted t) = last (wanted s)"
    proof -
      from spawner_wanted(4) [OF x] have "wanted t = wanted s \<or> requestch (spawner s) = needed x # requestch x"
        by (auto simp: wanted_def tt)
      then show "set (wanted t) \<subseteq> set (wanted s)" "last (wanted t) = last (wanted s)"
        by (auto simp: wanted_def tt)
    qed
    with ok fl show ?thesis by (auto simp: supply_ok_def stock_def tt)
  next
    case (SysSpawnResult r)
    then obtain x where x: "spawner_result r (spawner s) = Done x"
      and tt: "spawner t = x" "pl t = pl s" "todo t = todo s"
      using t nc by (auto simp: outcome_def split: go.splits option.splits if_splits)
    note fl = spawner_result_flight [OF x] and nd = spawner_result_wanted [OF x]
    have old: "in_flight (spc (spawner s)) = []"
      using x by (auto simp: spawner_result_def Let_def split: if_splits spawner_pc.splits)
    have "\<forall>r \<in> set (wanted t). 0 \<le> r" using ok nd by (auto simp: supply_ok_def wanted_def tt)
    moreover have "stock s \<le> stock t" using nd fl old by (cases r) (auto simp: stock_def wanted_def tt)
    ultimately show ?thesis using ok by (auto simp: supply_ok_def tt)
  next
    case SysBufferExit
    with t nc show ?thesis
      by (intro quiet_supply [OF ok]) (auto simp: outcome_def split: option.splits go.splits if_splits)
  next
    case (SysItem i iop)
    with t nc show ?thesis
      by (intro quiet_supply [OF ok]) (auto simp: outcome_def split: option.splits go.splits if_splits)
  next
    case (SysCheckout e)
    with t nc show ?thesis
      by (intro quiet_supply [OF ok]) (auto simp: outcome_def split: option.splits go.splits if_splits)
  next
    case (SysReturn i)
    with t nc show ?thesis
      by (intro quiet_supply [OF ok]) (auto simp: outcome_def split: option.splits go.splits if_splits)
  next
    case (SysReturnAny i)
    with t nc show ?thesis
      by (intro quiet_supply [OF ok]) (auto simp: outcome_def split: option.splits go.splits if_splits)
  next
    case (SysReturnDone i)
    with t nc show ?thesis
      by (intro quiet_supply [OF ok]) (auto simp: outcome_def split: option.splits go.splits if_splits)
  next
    case SysStop
    with t nc show ?thesis
      by (intro quiet_supply [OF ok]) (auto simp: outcome_def split: option.splits go.splits if_splits)
  next
    case SysStopped
    with t nc show ?thesis
      by (intro quiet_supply [OF ok]) (auto simp: outcome_def split: option.splits go.splits if_splits)
  qed
  then show ?thesis using st n by (simp add: supply_inv_def)
qed

interpretation stocked: invariant "wf_exec lc" "newSys n" "supply_inv n" for lc n
  by unfold_locales (auto intro: supply_inv_new supply_step)

end
