(* ===== verification/Pool_Properties.thy ===== *)
theory Pool_Properties
  imports Pool_Exclusive Pool_Supply
begin

text \<open>
  The properties of a pool as a whole, with concrete schedules at which they apply, and the
  states a pool can get into and does not leave, stated as traps.
\<close>

section \<open>Schedules\<close>

definition all_actions :: lifecycle_flags where
  "all_actions = \<lparr>has_initialize = True, has_healthcheck = True, has_reset = True\<rparr>"

definition cid_of :: "char \<Rightarrow> cid" where
  "cid_of c = replicate 12 c"

definition boot :: "sys_op list" where
  "boot = [SysInit None, SysCall, SysCall, SysCall, SysSpawnRecv]"

text \<open>An item is created and joined; or its container cannot be started and the item exits.\<close>

definition join_steps :: "cid \<Rightarrow> sys_op list" where
  "join_steps i = [SysSpawnResult (Some i), SysNext, SysCall, SysCall, SysCall]"

definition fail_steps :: "cid \<Rightarrow> sys_op list" where
  "fail_steps i =
     [SysItem i (IRecv False EvStart), SysItem i (IDoStart (Some (ErrExtern ''docker'')) (Inr no_status)),
      SysItem i (IContainer CStartFailed), SysItemEvent i]"

text \<open>A started container passes its actions and the item is put in the ready buffer.\<close>

definition ready_steps :: "cid \<Rightarrow> sys_op list" where
  "ready_steps i =
     [SysItem i (IRecv False EvStart), SysItem i (IDoStart None (Inr no_status)),
      SysItem i (IContainer CStarted), SysItem i (IChild OnChildStarted None None),
      SysItem i (IRecv True EvLive), SysItem i (IChild OnChildLive None None),
      SysItem i (IRecv True EvReady), SysItemEvent i, SysCall]"

definition reset_steps :: "cid \<Rightarrow> sys_op list" where
  "reset_steps i =
     [SysReturned i, SysCall, SysItem i (IRecv False EvReset), SysItem i (IChild OnChildReset None None),
      SysItem i (IRecv True EvReady), SysItemEvent i, SysCall]"

text \<open>The pool is stopped, its only item dies, and everything is drained.\<close>

definition stop_steps :: "cid \<Rightarrow> sys_op list" where
  "stop_steps i =
     [SysStop, SysShutdown, SysCall, SysCall, SysCall, SysCall, SysCall, SysSpawnRecv, SysNext, SysCall,
      SysItem i (IMonitor (DockerEvent ''die'' None)), SysItem i (IMonitor (DockerEvent ''destroy'' None)),
      SysItem i (IContainer CExitSuccess), SysItemEvent i, SysCall, SysCall, SysCall]"

definition one_ready :: "sys_op list" where
  "one_ready = boot @ join_steps (cid_of CHR ''a'') @ ready_steps (cid_of CHR ''a'')"

definition two_ready :: "sys_op list" where
  "two_ready = boot @ join_steps (cid_of CHR ''a'') @ join_steps (cid_of CHR ''b'')
     @ ready_steps (cid_of CHR ''a'') @ ready_steps (cid_of CHR ''b'')
     @ [SysCheckout None, SysReturn (cid_of CHR ''a'')] @ reset_steps (cid_of CHR ''a'') @ [SysCheckout None]"

lemma is_run: "map_option P (run exec ops s) = Some True \<Longrightarrow> run exec ops s = Some (the (run exec ops s)) \<and> P (the (run exec ops s))"
  by auto

section \<open>What always holds\<close>

text \<open>
  The goroutines of the pool itself never panic: no send on a closed channel, no second close, no
  second join of an item, no nil item dereferenced, as long as every identifier sent to \<open>Return\<close> has
  at least twelve bytes.
\<close>

lemma sys_never_panics: "run (wf_exec lc) ops (newSys n) = Some s \<Longrightarrow> \<not> crashed s"
  by (drule sys.run_inv) (simp add: sys_inv_def parts_ok_def)

text \<open>
  C2: As long as clients return only what they hold, once, no container is in two hands: the
  identifiers checked out, those waiting in the ready buffer and those being returned are all
  different.
\<close>

theorem checkout_exclusive:
  assumes "run (fair_exec lc) ops (newSys n) = Some s"
  shows "distinct (held s @ buf (buffer s) @ returning s)"
proof (rule count_list_le1_distinct, rule allI)
  fix i
  have "tickets s i \<le> 1" using fair.run_inv [OF assms] by (simp add: excl_inv_def)
  then show "count_list (held s @ buf (buffer s) @ returning s) i \<le> 1" by (simp add: tickets_def)
qed

theorem checkout_exclusive_witness:
  "\<exists>s. run (fair_exec all_actions) two_ready (newSys 2) = Some s
     \<and> held s = [cid_of CHR ''b''] \<and> buf (buffer s) = [cid_of CHR ''a'']
     \<and> distinct (held s @ buf (buffer s) @ returning s)"
proof -
  define s where "s = the (run (fair_exec all_actions) two_ready (newSys 2))"
  have r: "run (fair_exec all_actions) two_ready (newSys 2) = Some s
      \<and> held s = [cid_of CHR ''b''] \<and> buf (buffer s) = [cid_of CHR ''a'']"
    unfolding s_def by (rule is_run) code_simp
  with checkout_exclusive show ?thesis by blast
qed

text \<open>
  C7: Between two events of the running pool its map holds exactly the items that have been
  joined and have not sent their exit event.
\<close>

theorem pool_map_exact:
  assumes "run (wf_exec lc) ops (newSys n) = Some s" and "selecting s"
  shows "set (pitems (pl s)) = {i. \<exists>it. its s i = Some it \<and> ipc it \<noteq> WaitJoin \<and> \<not> exited it}"
proof -
  have inv: "sys_inv s" using assms(1) by (rule sys.run_inv)
  then have sub: "set (pitems (pl s)) \<subseteq> dom (its s)" by (simp add: sys_inv_def ids_ok_def)
  have "alive_ok s" using inv by (simp add: sys_inv_def)
  note al = alive_okD [OF this]
  show ?thesis using sub al assms(2) by (fastforce simp: alive_def selecting_def)
qed

theorem pool_map_exact_witness:
  "\<exists>s. run (wf_exec all_actions) one_ready (newSys 1) = Some s \<and> pitems (pl s) = [cid_of CHR ''a'']
     \<and> set (pitems (pl s)) = {i. \<exists>it. its s i = Some it \<and> ipc it \<noteq> WaitJoin \<and> \<not> exited it}"
proof -
  define s where "s = the (run (wf_exec all_actions) one_ready (newSys 1))"
  have r: "run (wf_exec all_actions) one_ready (newSys 1) = Some s \<and> selecting s \<and> pitems (pl s) = [cid_of CHR ''a'']"
    unfolding s_def by (rule is_run) (code_simp)
  with pool_map_exact show ?thesis by blast
qed

text \<open>
  C9: \<open>Stop\<close> returns only after everything joined is gone: when \<open>donech\<close> is closed the map is
  empty, every joined item has exited, and the spawner has returned with no creation in flight.
\<close>

theorem pool_done_drained:
  assumes "run (wf_exec lc) ops (newSys n) = Some s" and "donech_closed (pl s)"
  shows "pitems (pl s) = [] \<and> spc (spawner s) = SExited \<and> workers (spawner s) = 0
    \<and> (\<forall>i \<in> dom (its s). ipc (the (its s i)) = WaitJoin \<or> exited (the (its s i)))"
proof -
  have inv: "sys_inv s" using assms(1) by (rule sys.run_inv)
  then have ph: "phase_ok s" and sp: "spawner_ok (spawner s)" and al: "alive_ok s"
    by (simp_all add: sys_inv_def parts_ok_def)
  have p: "ppc (pl s) = PDone" using ph assms(2) by (simp add: phase_ok_def)
  then have e: "pitems (pl s) = []" "spc (spawner s) = SExited" using ph by (simp_all add: phase_ok_def)
  then have "workers (spawner s) = 0" using sp by (simp add: spawner_ok_def)
  moreover have "ipc (the (its s i)) = WaitJoin \<or> exited (the (its s i))" if "i \<in> dom (its s)" for i
    using alive_okD [OF al, of i] that e by (auto simp: alive_def)
  ultimately show ?thesis using e by blast
qed

theorem pool_done_drained_witness:
  "\<exists>s. run (wf_exec all_actions) (one_ready @ stop_steps (cid_of CHR ''a'')) (newSys 1) = Some s
     \<and> its s (cid_of CHR ''a'') \<noteq> None \<and> exited (the (its s (cid_of CHR ''a'')))
     \<and> pitems (pl s) = [] \<and> spc (spawner s) = SExited"
proof -
  define s where "s = the (run (wf_exec all_actions) (one_ready @ stop_steps (cid_of CHR ''a'')) (newSys 1))"
  have r: "run (wf_exec all_actions) (one_ready @ stop_steps (cid_of CHR ''a'')) (newSys 1) = Some s
     \<and> donech_closed (pl s) \<and> its s (cid_of CHR ''a'') \<noteq> None \<and> ipc (the (its s (cid_of CHR ''a''))) \<noteq> WaitJoin"
    unfolding s_def by (rule is_run) code_simp
  with pool_done_drained [of all_actions "one_ready @ stop_steps (cid_of CHR ''a'')" 1 s] show ?thesis by blast
qed
text \<open>
  C8: The pool replenishes itself: whenever it is running, is at its \<^theory_text>\<open>select\<close> with no call left to
  make, and no request is on its way to the spawner, the containers it has, the one being handed over and the creations
  the spawner still owes are together at least as many as the configured size; and at the
  spawner's \<^theory_text>\<open>select\<close> that many creations are really in flight.
\<close>

theorem pool_replenishes:
  assumes "run (wf_exec lc) ops (newSys n) = Some s"
    and "ppc (pl s) = PRunning" "selecting s" "requestch (spawner s) = []"
  shows "n \<le> int (length (pitems (pl s)) + length (in_flight (spc (spawner s)))) + needed (spawner s)
    \<and> (spc (spawner s) = SFilling \<longrightarrow> n \<le> int (length (pitems (pl s)) + workers (spawner s)))"
proof -
  have inv: "supply_inv n s" using assms(1) by (rule stocked.run_inv)
  then have ok: "supply_ok s" "psize (pl s) = n" and sp: "spawner_ok (spawner s)"
    by (simp_all add: supply_inv_def sys_inv_def parts_ok_def)
  have "wanted s = [needed (spawner s)]" using assms(3,4) by (simp add: wanted_def selecting_def)
  with supplyD(2) [OF ok(1) assms(2)] ok(2) sp show ?thesis
    by (auto simp: stock_def spawner_ok_def)
qed

theorem pool_replenishes_witness:
  "\<exists>s. run (wf_exec all_actions) (boot @ join_steps (cid_of CHR ''a'')) (newSys 3) = Some s
     \<and> length (pitems (pl s)) = 1 \<and> workers (spawner s) = 2 \<and> 3 \<le> int (length (pitems (pl s)) + workers (spawner s))"
proof -
  define s where "s = the (run (wf_exec all_actions) (boot @ join_steps (cid_of CHR ''a'')) (newSys 3))"
  have r: "run (wf_exec all_actions) (boot @ join_steps (cid_of CHR ''a'')) (newSys 3) = Some s
     \<and> ppc (pl s) = PRunning \<and> selecting s \<and> requestch (spawner s) = [] \<and> spc (spawner s) = SFilling
     \<and> length (pitems (pl s)) = 1 \<and> workers (spawner s) = 2"
    unfolding s_def by (rule is_run) code_simp
  with pool_replenishes [of all_actions "boot @ join_steps (cid_of CHR ''a'')" 3 s] show ?thesis by simp
qed

section \<open>Traps\<close>

text \<open>After a failed initialisation the pool's goroutine waits for itself in its own \<open>Stop\<close>.\<close>

definition self_stopped :: "sys \<Rightarrow> bool" where
  "self_stopped s \<longleftrightarrow> ppc (pl s) = PSelfStop \<and> \<not> donech_closed (pl s) \<and> CallCloseDone \<notin> set (todo s)"

lemma exec_call_pl:
  "exec_call c s = Done s' \<Longrightarrow>
     ppc (pl s') = ppc (pl s) \<and> (c \<noteq> CallCloseDone \<longrightarrow> donech_closed (pl s') = donech_closed (pl s))"
  by (cases c) (auto simp: go_simps on_item_def split: option.splits)

lemma self_stopped_step: "self_stopped s \<Longrightarrow> sys_exec lc op s = Some t \<Longrightarrow> self_stopped t"
proof -
  assume st: "self_stopped s" and "sys_exec lc op s = Some t"
  then have t: "sys_step lc op s = Some t" by (simp add: sys_exec_def split: if_splits)
  show ?thesis
  proof (cases op)
    case SysCall
    with t show ?thesis
      using st by (auto simp: self_stopped_def outcome_def dest: exec_call_pl split: list.splits go.splits)
  qed (use t st in \<open>auto simp: self_stopped_def run_self_stop_def outcome_def sys_next_def sys_item_event_def
      pool_event_def split: option.splits go.splits if_splits\<close>)
qed

interpretation self_stop: trap "sys_exec lc" self_stopped for lc
  by unfold_locales (rule self_stopped_step)

text \<open>
  C35: If \<open>ensureImage\<close> fails, the pool never terminates: \<open>run\<close> calls \<open>Stop\<close> itself, which waits
  for \<open>runRunning\<close> to receive on \<open>shutdownch\<close>. Whatever happens afterwards \<open>donech\<close> stays open
  and no call of \<open>Stop\<close> or \<open>Return\<close> ever completes.
\<close>

theorem init_failure_hangs:
  assumes "run (sys_exec lc) (SysInit (Some e) # ops) (newSys n) = Some s"
  shows "\<not> donech_closed (pl s) \<and> ppc (pl s) = PSelfStop
    \<and> sys_step lc SysStopped s = None \<and> sys_step lc SysShutdown s = None
    \<and> sys_step lc (SysReturned i) s \<in> {None, Some (s\<lparr>crashed := True\<rparr>)} \<and> sys_step lc (SysReturnDone i) s = None"
proof -
  from assms obtain s1 where s1: "sys_exec lc (SysInit (Some e)) (newSys n) = Some s1" "run (sys_exec lc) ops s1 = Some s"
    by (auto split: option.splits)
  have "self_stopped s1"
    using s1(1)
    by (auto simp: sys_exec_def newSys_def newPool_def selecting_def handled_def runInitialize_def self_stopped_def
        split: if_splits)
  then have "self_stopped s" using self_stop.reach_stuck run_reach [OF s1(2)] by blast
  then show ?thesis by (auto simp: self_stopped_def pool_event_def outcome_def)
qed

theorem init_failure_hangs_witness:
  "\<exists>s. run (sys_exec all_actions) (SysInit (Some (ErrExtern ''pull'')) # [SysCall, SysCall, SysStop]) (newSys 1) = Some s
     \<and> stopping s = 1 \<and> initch_closed (pl s) \<and> sys_step all_actions SysStopped s = None"
proof -
  define s where "s = the (run (sys_exec all_actions) (SysInit (Some (ErrExtern ''pull'')) # [SysCall, SysCall, SysStop]) (newSys 1))"
  have r: "run (sys_exec all_actions) (SysInit (Some (ErrExtern ''pull'')) # [SysCall, SysCall, SysStop]) (newSys 1) = Some s
     \<and> stopping s = 1 \<and> initch_closed (pl s)"
    unfolding s_def by (rule is_run) code_simp
  with init_failure_hangs [of all_actions "ErrExtern ''pull''"] show ?thesis by blast
qed

text \<open>
  The pool sends a request while the spawner's channel is full, and the spawner sends an item
  that only the pool can receive.
\<close>

definition deadlocked :: "sys \<Rightarrow> bool" where
  "deadlocked s \<longleftrightarrow>
     (case todo s of CallRequest n # cs \<Rightarrow> True | _ \<Rightarrow> False)
     \<and> length (requestch (spawner s)) = request_cap \<and> \<not> requestch_closed (spawner s)
     \<and> (case spc (spawner s) of SSending i \<Rightarrow> True | _ \<Rightarrow> False)
     \<and> \<not> crashed s \<and> \<not> donech_closed (pl s)"

text \<open>What no other goroutine can change for the two of them.\<close>

lemma deadlocked_step:
  assumes d: "deadlocked s" and e: "sys_exec lc op s = Some t"
  shows "deadlocked t \<and> todo t = todo s"
proof -
  have t: "sys_step lc op s = Some t" using e by (simp add: sys_exec_def split: if_splits)
  obtain n cs i where todo: "todo s = CallRequest n # cs" and full: "length (requestch (spawner s)) = request_cap"
    and op: "\<not> requestch_closed (spawner s)" "spc (spawner s) = SSending i" "\<not> crashed s" "\<not> donech_closed (pl s)"
    using d by (auto simp: deadlocked_def split: list.splits pool_call.splits spawner_pc.splits)
  have same: "deadlocked u \<and> todo u = todo s"
    if "todo u = todo s" "spawner u = spawner s" "pl u = pl s" "crashed u = crashed s" for u
    using d that by (simp add: deadlocked_def)
  have no: "\<not> selecting s" by (simp add: selecting_def todo)
  show ?thesis
  proof (cases op)
    case (SysItem k iop)
    with t show ?thesis
      using same item_own_no_panic [of iop lc] by (auto simp: outcome_def split: option.splits go.splits if_splits)
  next
    case (SysSpawnResult r)
    with t show ?thesis using op by (cases r) (auto simp: outcome_def spawner_result_def Let_def split: if_splits)
  next
    case SysBufferExit
    with t show ?thesis using same by (auto simp: outcome_def buffer_exit_def split: if_splits)
  next
    case (SysCheckout err)
    with t show ?thesis using same by (auto simp: outcome_def buffer_get_def split: if_splits list.splits option.splits)
  qed (use t no same op in \<open>auto simp: todo outcome_def spawner_request_def full spawner_recv_request_def split: if_splits\<close>)
qed

interpretation standstill: trap "sys_exec lc" deadlocked for lc
  by unfold_locales (blast dest: deadlocked_step)

definition deadlock_schedule :: "sys_op list" where
  "deadlock_schedule =
     boot @ concat (map (join_steps \<circ> cid_of) ''abcdefg'')
     @ fail_steps (cid_of CHR ''a'') @ [SysCall, SysCall, SysSpawnRecv, SysSpawnResult (Some (cid_of CHR ''h''))]
     @ concat (map (\<lambda>c. fail_steps (cid_of c) @ [SysCall, SysCall]) ''bcdef'')
     @ fail_steps (cid_of CHR ''g'') @ [SysCall]"

text \<open>
  C36: Once the pool and the spawner wait for each other, they do so for ever: whatever the
  clients, the items and docker do, the pool stays in the middle of its request, takes no
  event, cannot be shut down, and no call of \<open>Stop\<close> completes.
\<close>

theorem pool_spawner_deadlock:
  assumes "deadlocked s" and "run (sys_exec lc) ops s = Some t"
  shows "deadlocked t \<and> sys_step lc SysCall t = None \<and> sys_step lc SysShutdown t = None
    \<and> sys_step lc SysStopped t = None \<and> sys_step lc SysSpawnRecv t = None"
proof -
  have d: "deadlocked t" using standstill.reach_stuck run_reach [OF assms(2)] assms(1) by blast
  then show ?thesis
    by (auto simp: deadlocked_def selecting_def outcome_def spawner_request_def spawner_recv_request_def
        split: list.splits pool_call.splits spawner_pc.splits)
qed

theorem pool_spawner_deadlock_witness:
  "\<exists>s t. run (fair_exec all_actions) deadlock_schedule (newSys 7) = Some s
     \<and> todo s = [CallRequest 7] \<and> run (sys_exec all_actions) [SysStop] s = Some t \<and> stopping t = 1
     \<and> sys_step all_actions SysStopped t = None \<and> sys_step all_actions SysShutdown t = None"
proof -
  define s where "s = the (run (fair_exec all_actions) deadlock_schedule (newSys 7))"
  have r: "run (fair_exec all_actions) deadlock_schedule (newSys 7) = Some s
     \<and> todo s = [CallRequest 7] \<and> deadlocked s \<and> stopping s = 0 \<and> \<not> crashed s"
    unfolding s_def by (rule is_run) code_simp
  define t where "t = s\<lparr>stopping := 1\<rparr>"
  have t: "run (sys_exec all_actions) [SysStop] s = Some t" using r by (simp add: sys_exec_def t_def)
  have "stopping t = 1" by (simp add: t_def)
  with r t pool_spawner_deadlock [of s all_actions "[SysStop]" t] show ?thesis by blast
qed

section \<open>Clients that misbehave\<close>

text \<open>The output of the ready buffer is closed by its goroutine only, after the pool has closed the input.\<close>

definition outlet_ok :: "sys \<Rightarrow> bool" where
  "outlet_ok s \<longleftrightarrow> (outch_closed (buffer s) \<longrightarrow> inch_closed (buffer s))"

lemma exec_call_outlet: "exec_call c s = Done t \<Longrightarrow> outlet_ok s \<Longrightarrow> outlet_ok (t\<lparr>todo := cs\<rparr>)"
  by (cases c)
    (auto simp: outlet_ok_def go_simps on_item_def buffer_put_def buffer_stop_def split: option.splits if_splits)

lemma outcome_buffer: "outcome s r f = Some t \<Longrightarrow> (\<And>x. r = Done x \<Longrightarrow> buffer (f x) = buffer s) \<Longrightarrow> buffer t = buffer s"
  by (cases r) (auto simp: outcome_def)

lemma outcome_outlet: "outcome s r f = Some t \<Longrightarrow> outlet_ok s \<Longrightarrow> (\<And>x. r = Done x \<Longrightarrow> outlet_ok (f x)) \<Longrightarrow> outlet_ok t"
  by (cases r) (auto simp: outcome_def outlet_ok_def)

lemma handled_buffer [simp]: "buffer (handled s r) = buffer s"
  by (simp add: handled_def)

lemma sys_next_buffer: "sys_next s = Some t \<Longrightarrow> buffer t = buffer s"
  by (auto simp: sys_next_def split: pool_pc.splits go.splits elim!: outcome_buffer)

lemma sys_item_event_buffer: "sys_item_event i s = Some t \<Longrightarrow> buffer t = buffer s"
  by (auto simp: sys_item_event_def split: option.splits go.splits elim!: outcome_buffer)

text \<open>The steps that touch the buffer.\<close>

fun at_buffer :: "sys_op \<Rightarrow> bool" where
  "at_buffer SysCall = True"
| "at_buffer SysBufferExit = True"
| "at_buffer (SysCheckout err) = True"
| "at_buffer _ = False"

lemma sys_step_buffer: "sys_step lc op s = Some t \<Longrightarrow> \<not> at_buffer op \<Longrightarrow> buffer t = buffer s"
  by (cases op)
    (auto simp: sys_next_buffer sys_item_event_buffer split: if_splits option.splits elim!: outcome_buffer)

lemma sys_step_outlet:
  assumes "sys_step lc op s = Some t" "outlet_ok s"
  shows "outlet_ok t"
proof (cases "at_buffer op")
  case False
  with assms show ?thesis using sys_step_buffer by (simp add: outlet_ok_def)
next
  case True
  with assms show ?thesis
  proof (cases op)
    case SysCall
    with assms show ?thesis by (auto split: list.splits elim!: outcome_outlet dest: exec_call_outlet)
  next
    case SysBufferExit
    with assms show ?thesis by (auto simp: buffer_exit_def outcome_def outlet_ok_def split: if_splits)
  next
    case (SysCheckout err)
    with assms show ?thesis
      by (auto simp: buffer_get_def outcome_def outlet_ok_def split: if_splits list.splits option.splits)
  qed simp_all
qed

interpretation outlet: invariant "wf_exec lc" "newSys n" outlet_ok for lc n
  by unfold_locales
    (auto simp: wf_exec_def sys_exec_def outlet_ok_def newSys_def newPoolItemBuffer_def
      dest!: sys_step_outlet [unfolded outlet_ok_def] split: if_splits)

text \<open>A returned item goes once around: it is reset, reported ready, and put into the buffer.\<close>

definition can_return :: "lifecycle_flags \<Rightarrow> cid \<Rightarrow> sys \<Rightarrow> bool" where
  "can_return lc i s \<longleftrightarrow> has_reset lc \<and> \<not> crashed s \<and> ppc (pl s) = PRunning \<and> selecting s \<and> 12 \<le> length i
     \<and> i \<in> set (pitems (pl s)) \<and> (\<exists>it. its s i = Some it \<and> ipc it = MainLoop)
     \<and> \<not> inch_closed (buffer s) \<and> \<not> outch_closed (buffer s)"

lemma reset_round:
  assumes "can_return lc i s" "i \<in> set (returning s)"
  obtains t where "run (sys_exec lc) (reset_steps i) s = Some t" "can_return lc i t"
    "returning t = remove1 i (returning s)" "held t = held s" "buf (buffer t) = buf (buffer s) @ [i]"
proof -
  obtain it where it: "its s i = Some it" "ipc it = MainLoop" using assms(1) by (auto simp: can_return_def)
  note can = assms(1) [unfolded can_return_def selecting_def]
  have "\<exists>t. run (sys_exec lc) (reset_steps i) s = Some t \<and> can_return lc i t
      \<and> returning t = remove1 i (returning s) \<and> held t = held s \<and> buf (buffer t) = buf (buffer s) @ [i]"
    using can assms(2) it
    by (simp add: reset_steps_def sys_exec_def selecting_def outcome_def handled_def pool_event_def running_event_def
        lcid_def on_item_def item_reset_def item_recv_def take_event_def main_loop_event_def run_child_def emit_def
        item_child_def onChildReset_def sys_item_event_def item_deliver_def buffer_put_def can_return_def)
  then show ?thesis using that by blast
qed

lemma checkout_all:
  "\<not> crashed s \<Longrightarrow> \<not> outch_closed (buffer s) \<Longrightarrow> buf (buffer s) = xs \<Longrightarrow>
     \<exists>t. run (sys_exec lc) (replicate (length xs) (SysCheckout None)) s = Some t \<and> held t = held s @ xs"
proof (induction xs arbitrary: s)
  case (Cons x xs)
  define u where "u = s\<lparr>buffer := (buffer s)\<lparr>buf := xs, num_ready := length xs\<rparr>, held := held s @ [x]\<rparr>"
  have "sys_exec lc (SysCheckout None) s = Some u"
    using Cons.prems by (simp add: sys_exec_def buffer_get_def outcome_def u_def)
  moreover have "\<exists>t. run (sys_exec lc) (replicate (length xs) (SysCheckout None)) u = Some t \<and> held t = held u @ xs"
    using Cons.prems by (intro Cons.IH) (simp_all add: u_def)
  ultimately show ?case by (simp add: u_def)
qed simp

text \<open>
  C38: The pool does not check that a returned item is one the client holds. In every state of a
  running pool that is at its \<^theory_text>\<open>select\<close>, whatever clients have returned before (identifiers of at
  least twelve bytes), a client that returns an item it
  holds twice, while the item is in its main loop and its reset action succeeds both times, has it
  put into the ready buffer twice: after the items that wait there already, two checkouts
  hand out the same container to two clients at the same time.
\<close>

theorem double_return_shares:
  assumes "run (wf_exec lc) ops (newSys n) = Some s" and "has_reset lc"
    and "ppc (pl s) = PRunning" "selecting s" "i \<in> set (held s)" "i \<in> set (pitems (pl s))"
    and "its s i = Some it" "ipc it = MainLoop"
  shows "\<exists>t. run (sys_exec lc) ([SysReturn i, SysReturnAny i] @ reset_steps i @ reset_steps i
        @ replicate (length (buf (buffer s)) + 2) (SysCheckout None)) s = Some t
      \<and> held t = remove1 i (held s) @ buf (buffer s) @ [i, i]"
proof -
  have inv: "sys_inv s" using assms(1) by (rule sys.run_inv)
  define s0 where "s0 = s\<lparr>held := remove1 i (held s), returning := returning s @ [i, i]\<rparr>"
  have s0: "run (sys_exec lc) [SysReturn i, SysReturnAny i] s = Some s0"
    using assms(5) inv by (simp add: sys_exec_def s0_def sys_inv_def parts_ok_def)
  have "can_return lc i s0"
    using inv assms outlet.run_inv [OF assms(1)]
    by (auto simp: can_return_def s0_def selecting_def sys_inv_def parts_ok_def phase_ok_def ids_ok_def outlet_ok_def)
  moreover have "i \<in> set (returning s0)" by (simp add: s0_def)
  ultimately obtain s1 where s1: "run (sys_exec lc) (reset_steps i) s0 = Some s1" "can_return lc i s1"
    "returning s1 = remove1 i (returning s0)" "held s1 = held s0" "buf (buffer s1) = buf (buffer s0) @ [i]"
    by (rule reset_round)
  have "i \<in> set (returning s1)" unfolding s1(3) by (simp add: s0_def remove1_append)
  with s1(2) obtain s2 where s2: "run (sys_exec lc) (reset_steps i) s1 = Some s2" "can_return lc i s2"
    "returning s2 = remove1 i (returning s1)" "held s2 = held s1" "buf (buffer s2) = buf (buffer s1) @ [i]"
    by (rule reset_round)
  have b: "buf (buffer s2) = buf (buffer s) @ [i, i]" using s1(5) s2(5) by (simp add: s0_def)
  obtain t where "run (sys_exec lc) (replicate (length (buf (buffer s) @ [i, i])) (SysCheckout None)) s2 = Some t"
    "held t = held s2 @ buf (buffer s) @ [i, i]"
    using checkout_all [OF _ _ b, of lc] s2(2) by (auto simp: can_return_def)
  moreover have "held s2 = remove1 i (held s)" using s1(4) s2(4) by (simp add: s0_def)
  ultimately have "run (sys_exec lc) (([SysReturn i, SysReturnAny i] @ reset_steps i) @ reset_steps i
      @ replicate (length (buf (buffer s)) + 2) (SysCheckout None)) s = Some t \<and> held t = remove1 i (held s) @ buf (buffer s) @ [i, i]"
    by (simp only: run_append s0 s1(1) s2(1) option.case length_append list.size) simp
  then show ?thesis by (simp only: append_assoc) blast
qed

theorem double_return_shares_witness:
  "\<exists>s t. run (wf_exec all_actions) (one_ready @ [SysCheckout None]) (newSys 1) = Some s
     \<and> run (sys_exec all_actions) ([SysReturn (cid_of CHR ''a''), SysReturnAny (cid_of CHR ''a'')] @ reset_steps (cid_of CHR ''a'')
          @ reset_steps (cid_of CHR ''a'') @ replicate (length (buf (buffer s)) + 2) (SysCheckout None)) s = Some t
     \<and> held t = [cid_of CHR ''a'', cid_of CHR ''a'']"
proof -
  let ?a = "cid_of CHR ''a''"
  define s where "s = the (run (wf_exec all_actions) (one_ready @ [SysCheckout None]) (newSys 1))"
  have r: "run (wf_exec all_actions) (one_ready @ [SysCheckout None]) (newSys 1) = Some s
     \<and> ppc (pl s) = PRunning \<and> selecting s \<and> held s = [?a] \<and> buf (buffer s) = [] \<and> pitems (pl s) = [?a]
     \<and> map_option ipc (its s ?a) = Some MainLoop"
    unfolding s_def by (rule is_run) code_simp
  then obtain it where it: "its s ?a = Some it" "ipc it = MainLoop" by (auto simp: map_option_eq_Some)
  have "has_reset all_actions" by (simp add: all_actions_def)
  from double_return_shares [OF _ this _ _ _ _ it] r show ?thesis by fastforce
qed

text \<open>
  An identifier of fewer than twelve bytes sent to \<open>Return\<close> ends the process: as soon as the
  running or draining pool receives the event, the slice of \<open>lcid\<close> panics in its goroutine.
\<close>

theorem short_id_crashes:
  assumes "ppc (pl s) \<in> {PRunning, PDrainSpawner, PDrainItems}" "selecting s" "\<not> crashed s"
    and "i \<in> set (returning s)" "length i < 12"
  shows "sys_exec lc (SysReturned i) s = Some (s\<lparr>crashed := True\<rparr>)"
  using assms pool_event_panic [of i "pl s" ItemReturned] by (simp add: sys_exec_def outcome_def)

theorem short_id_crashes_witness:
  "\<exists>s. run (sys_exec all_actions) (boot @ [SysReturnAny ''0'']) (newSys 1) = Some s
     \<and> sys_exec all_actions (SysReturned ''0'') s = Some (s\<lparr>crashed := True\<rparr>)"
proof -
  define s where "s = the (run (sys_exec all_actions) (boot @ [SysReturnAny ''0'']) (newSys 1))"
  have r: "run (sys_exec all_actions) (boot @ [SysReturnAny ''0'']) (newSys 1) = Some s
     \<and> ppc (pl s) \<in> {PRunning, PDrainSpawner, PDrainItems} \<and> selecting s \<and> \<not> crashed s
     \<and> ''0'' \<in> set (returning s) \<and> length ''0'' < 12"
    unfolding s_def by (rule is_run) code_simp
  with short_id_crashes [of s "''0''" all_actions] show ?thesis by blast
qed

section \<open>Limits of the bookkeeping\<close>

text \<open>
  The configured size is a lower bound only: a request overwrites the spawner's count while
  an earlier creation is still on its way, so a pool of size two can own three items.
\<close>

theorem pool_overshoots:
  "\<exists>ops s. run (fair_exec all_actions) ops (newSys 2) = Some s
     \<and> psize (pl s) = 2 \<and> length (pitems (pl s)) = 3 \<and> ppc (pl s) = PRunning"
proof -
  let ?ops = "boot @ join_steps (cid_of CHR ''a'') @ fail_steps (cid_of CHR ''a'') @ [SysCall, SysCall]
    @ join_steps (cid_of CHR ''b'') @ [SysSpawnRecv] @ join_steps (cid_of CHR ''c'') @ join_steps (cid_of CHR ''d'')"
  define s where "s = the (run (fair_exec all_actions) ?ops (newSys 2))"
  have "run (fair_exec all_actions) ?ops (newSys 2) = Some s
     \<and> psize (pl s) = 2 \<and> length (pitems (pl s)) = 3 \<and> ppc (pl s) = PRunning"
    unfolding s_def by (rule is_run) code_simp
  then show ?thesis by blast
qed

text \<open>
  The ready buffer is not told when an item exits: a checkout can hand out a container that
  has already exited and has left the pool's map.
\<close>

theorem stale_checkout:
  "\<exists>ops s. run (fair_exec all_actions) ops (newSys 1) = Some s
     \<and> held s = [cid_of CHR ''a''] \<and> exited (the (its s (cid_of CHR ''a''))) \<and> pitems (pl s) = []"
proof -
  let ?ops = "one_ready @ [SysItem (cid_of CHR ''a'') (IMonitor (DockerEvent ''die'' None)),
    SysItem (cid_of CHR ''a'') (IMonitor (DockerEvent ''destroy'' None)),
    SysItem (cid_of CHR ''a'') (IContainer CExitSuccess), SysItemEvent (cid_of CHR ''a''), SysCheckout None]"
  define s where "s = the (run (fair_exec all_actions) ?ops (newSys 1))"
  have "run (fair_exec all_actions) ?ops (newSys 1) = Some s
     \<and> held s = [cid_of CHR ''a''] \<and> exited (the (its s (cid_of CHR ''a''))) \<and> pitems (pl s) = []"
    unfolding s_def by (rule is_run) code_simp
  then show ?thesis by blast
qed

text \<open>An item handed over while the pool drains is killed but never joined.\<close>

definition unjoined :: "cid \<Rightarrow> sys \<Rightarrow> bool" where
  "unjoined i s \<longleftrightarrow>
     waiting s i \<and> ppc (pl s) \<in> {PDrainSpawner, PDrainItems, PDone} \<and> (\<forall>c \<in> set (todo s). \<not> is_join c)"

lemma unjoined_step:
  assumes u: "unjoined i s" and e: "sys_exec lc op s = Some t" and nc: "\<not> crashed t"
  shows "unjoined i t"
proof -
  have t: "sys_step lc op s = Some t" using e by (simp add: sys_exec_def split: if_splits)
  obtain it where it: "its s i = Some it" "ipc it = WaitJoin" using u by (auto simp: unjoined_def waiting_def)
  have pc: "ppc (pl s) \<in> {PDrainSpawner, PDrainItems, PDone}" and nj: "\<forall>c \<in> set (todo s). \<not> is_join c"
    using u by (auto simp: unjoined_def)
  have same: "unjoined i u" if "its u = its s" "pl u = pl s" "todo u = todo s" for u
    using u that by (simp add: unjoined_def waiting_def)
  have drain: "unjoined i (handled s1 (p', cs))"
    if "pool_event ev k (pl s) = Done (p', cs)" "waiting s1 i" for ev k p' cs s1
    using pool_event_shape [OF that(1)] that(2) pc by (auto simp: unjoined_def handled_def event_shape_def waiting_def)
  show ?thesis
  proof (cases op)
    case SysCall
    then obtain c cs s' where c: "todo s = c # cs" "exec_call c s = Done s'" "t = s'\<lparr>todo := cs\<rparr>"
      using t nc by (auto simp: outcome_def split: list.splits go.splits)
    then have "\<not> is_join c" using nj by simp
    with c it have "waiting s' i"
      by (cases c) (auto simp: go_simps waiting_def on_item_def item_start_def item_reset_def item_kill_def
          split: option.splits if_splits)
    moreover have "ppc (pl s') = ppc (pl s)" using exec_call_pl [OF c(2)] by simp
    ultimately show ?thesis using c pc nj by (simp add: unjoined_def waiting_def)
  next
    case SysNext
    then have t: "sys_next s = Some t" using t by (auto split: if_splits)
    obtain r sp where "spawner_next (spawner s) = Done (r, sp)" "ppc (pl s) = PDrainSpawner"
      using t pc nc by (auto simp: sys_next_def outcome_def split: go.splits)
    with t have t: "t = handled (s\<lparr>spawner := sp\<rparr>) (drain_spawner_next r (pl s))"
      by (simp add: sys_next_def outcome_def)
    show ?thesis using pc u
      by (auto simp: t unjoined_def handled_def waiting_def drain_spawner_next_def drain_items_top_def
          split: option.splits)
  next
    case (SysItemEvent k)
    then obtain kt ev kt' p' cs where k: "its s k = Some kt" "item_deliver kt = Done (ev, kt')"
      and e: "pool_event ev k (pl s) = Done (p', cs)"
      and tt: "t = handled (s\<lparr>its := (its s)(k \<mapsto> kt')\<rparr>) (p', cs)"
      using t nc by (auto simp: sys_item_event_def outcome_def split: option.splits go.splits if_splits)
    have "k \<noteq> i" using k it by (auto simp: item_deliver_def)
    then have "waiting (s\<lparr>its := (its s)(k \<mapsto> kt')\<rparr>) i" using it by (simp add: waiting_def)
    from drain [OF e this] show ?thesis by (simp add: tt)
  next
    case (SysReturned k)
    then obtain p' cs where e: "pool_event ItemReturned k (pl s) = Done (p', cs)"
      and tt: "t = handled (s\<lparr>returning := remove1 k (returning s)\<rparr>) (p', cs)"
      using t nc by (auto simp: outcome_def split: go.splits if_splits)
    have "waiting (s\<lparr>returning := remove1 k (returning s)\<rparr>) i" using it by (simp add: waiting_def)
    from drain [OF e this] show ?thesis by (simp add: tt)
  next
    case (SysItem k iop)
    then obtain kt x kt' where k: "its s k = Some kt" "own_step iop" "item_exec lc iop kt = Done (x, kt')"
      and tt: "t = s\<lparr>its := (its s)(k \<mapsto> kt')\<rparr>"
      using t nc by (auto simp: outcome_def split: option.splits go.splits if_splits)
    have "waiting t i" using it k item_own_step(3) [OF k(2,3)] by (auto simp: tt waiting_def)
    then show ?thesis using u by (simp add: unjoined_def tt)
  next
    case (SysSpawnResult r)
    with t nc it u show ?thesis
      by (auto simp: outcome_def unjoined_def waiting_def split: go.splits option.splits if_splits)
  qed (use t pc nc same in \<open>auto simp: outcome_def split: go.splits option.splits if_splits\<close>)
qed

definition unjoined_or_dead :: "cid \<Rightarrow> sys \<Rightarrow> bool" where
  "unjoined_or_dead i s \<longleftrightarrow> crashed s \<or> unjoined i s"

interpretation orphan: trap "sys_exec lc" "unjoined_or_dead i" for lc i
proof unfold_locales
  fix s l t
  assume d: "unjoined_or_dead i s" and e: "sys_exec lc l s = Some t"
  then have "\<not> crashed s" by (simp add: sys_exec_def split: if_splits)
  with d have "unjoined i s" by (simp add: unjoined_or_dead_def)
  from unjoined_step [OF this e] show "unjoined_or_dead i t" by (auto simp: unjoined_or_dead_def)
qed

text \<open>
  An item that is handed over after the shutdown is never joined, so its goroutine never
  leaves \<open>runWaitJoin\<close>: it neither exits nor cancels its context, not even after the pool is done.
\<close>

theorem late_item_never_exits:
  assumes "sys_inv s" "unjoined i s" and "run (wf_exec lc) ops s = Some t"
  shows "\<exists>it. its t i = Some it \<and> ipc it = WaitJoin \<and> \<not> exited it \<and> \<not> cancelled it"
proof -
  have inv: "sys_inv t" using sys.inv_run [OF assms(1) assms(3)] .
  have "reach (sys_exec lc) s t"
    using run_reach [OF assms(3)]
    by (induction rule: reach.induct) (auto simp: wf_exec_def intro: reach.intros split: if_splits)
  then have "unjoined_or_dead i t" using orphan.reach_stuck assms(2) by (simp add: unjoined_or_dead_def)
  with inv have "unjoined i t" by (simp add: unjoined_or_dead_def sys_inv_def parts_ok_def)
  then obtain it where "its t i = Some it" "ipc it = WaitJoin" by (auto simp: unjoined_def waiting_def)
  moreover from this inv have "item_ok it" by (auto simp: sys_inv_def parts_ok_def)
  ultimately show ?thesis by (auto simp: item_ok_def)
qed

definition late_schedule :: "sys_op list" where
  "late_schedule = boot @ [SysStop, SysShutdown, SysCall, SysCall, SysCall, SysSpawnRecv,
     SysSpawnResult (Some (cid_of CHR ''a'')), SysNext, SysCall]"

theorem late_item_never_exits_witness:
  "\<exists>s t it. run (wf_exec all_actions) late_schedule (newSys 1) = Some s
     \<and> run (wf_exec all_actions) [SysNext, SysCall, SysCall] s = Some t \<and> donech_closed (pl t)
     \<and> its t (cid_of CHR ''a'') = Some it \<and> \<not> exited it"
proof -
  define s where "s = the (run (wf_exec all_actions) late_schedule (newSys 1))"
  have r: "run (wf_exec all_actions) late_schedule (newSys 1) = Some s
     \<and> (case its s (cid_of CHR ''a'') of None \<Rightarrow> False | Some it \<Rightarrow> ipc it = WaitJoin)
     \<and> ppc (pl s) = PDrainSpawner \<and> todo s = []
     \<and> (case run (wf_exec all_actions) [SysNext, SysCall, SysCall] s of None \<Rightarrow> False | Some t \<Rightarrow> donech_closed (pl t))"
    unfolding s_def by (rule is_run) code_simp
  then have u: "unjoined (cid_of CHR ''a'') s" by (auto simp: unjoined_def waiting_def split: option.splits)
  obtain t where t: "run (wf_exec all_actions) [SysNext, SysCall, SysCall] s = Some t" "donech_closed (pl t)"
    using r by (auto split: option.splits)
  have "sys_inv s" using r by (blast intro: sys.run_inv)
  from late_item_never_exits [OF this u t(1)] r t show ?thesis by blast
qed

end
