(* ===== verification/Pool_Drain.thy ===== *)
theory Pool_Drain
  imports Pool_Properties
begin

text \<open>
  The shutdown of a pool can always be completed: from every state that a pool can reach after it has
  received the shutdown there is a way to the end, if docker still reports the removal of the
  containers that are left.
\<close>

section \<open>The phase of the shutdown\<close>

fun is_request :: "pool_call \<Rightarrow> bool" where
  "is_request (CallRequest n) = True"
| "is_request _ = False"

text \<open>
  No call that is left can wait for the spawner, and a pool that is done has closed \<open>donech\<close> or
  is about to.
\<close>

definition draining :: "sys \<Rightarrow> bool" where
  "draining s \<longleftrightarrow>
     ppc (pl s) \<in> {PDrainSpawner, PDrainItems, PDone}
     \<and> (\<forall>c \<in> set (todo s). \<not> is_request c \<and> \<not> is_join c)
     \<and> (requestch_closed (spawner s) \<or> CallSpawnerStop \<in> set (todo s))
     \<and> (ppc (pl s) = PDone \<longrightarrow> donech_closed (pl s) \<or> CallCloseDone \<in> set (todo s))
     \<and> (ppc (pl s) = PDrainItems \<longrightarrow> pitems (pl s) \<noteq> [])"

lemma drain_calls_quiet: "list_all drain_call cs \<Longrightarrow> c \<in> set cs \<Longrightarrow> \<not> is_request c \<and> \<not> is_join c"
  by (induction cs) (auto elim: drain_call.elims)

lemma drain_event_done:
  assumes "drain_event e i p = Done (p', cs)" "ppc p \<noteq> PDone"
  shows "ppc p' = PDone \<Longrightarrow> CallCloseDone \<in> set cs" and "ppc p' = PDrainItems \<Longrightarrow> pitems p' \<noteq> []"
proof -
  from assms obtain p1 c1 where h: "handleDrainingEvent e i p = Done (p1, c1)"
    and r: "(p', cs) = (case ppc p1 of
        PDrainItems \<Rightarrow> (case drain_items_top p1 of (p2, ks) \<Rightarrow> (p2, c1 @ ks))
      | _ \<Rightarrow> (p1, c1 @ killItems p1))"
    by (auto simp: drain_event_def go_simps)
  have "ppc p1 = ppc p" using handleDrainingEvent_shape(2) [OF h] .
  with r assms(2) show "ppc p' = PDone \<Longrightarrow> CallCloseDone \<in> set cs" and "ppc p' = PDrainItems \<Longrightarrow> pitems p' \<noteq> []"
    by (cases "ppc p1"; auto simp: drain_items_top_def split: if_splits)+
qed

lemma draining_event:
  assumes "draining s" "todo s = []" "pool_event e i (pl s) = Done (p', cs)" "spawner s1 = spawner s"
  shows "draining (handled s1 (p', cs))"
proof -
  have d: "drain_event e i (pl s) = Done (p', cs)" "ppc (pl s) \<noteq> PDone"
    using assms(1,3) by (auto simp: draining_def pool_event_def)
  note sh = drain_event_shape [OF d(1)]
  have "ppc p' \<in> {PDrainSpawner, PDrainItems, PDone}" using sh(2) assms(1) by (auto simp: draining_def)
  moreover have "\<forall>c \<in> set cs. \<not> is_request c \<and> \<not> is_join c" using drain_calls_quiet [OF sh(4)] by blast
  moreover have "requestch_closed (spawner s1)" using assms(1,2,4) by (simp add: draining_def)
  moreover have "ppc p' = PDone \<longrightarrow> CallCloseDone \<in> set cs" "ppc p' = PDrainItems \<longrightarrow> pitems p' \<noteq> []"
    using drain_event_done [OF d] by blast+
  ultimately show ?thesis by (simp add: draining_def handled_def)
qed

lemma draining_next:
  assumes "draining s" "todo s = []" "spawner_next (spawner s) = Done (r, sp)" "ppc (pl s) = PDrainSpawner"
  shows "draining (handled (s\<lparr>spawner := sp\<rparr>) (drain_spawner_next r (pl s)))"
proof -
  have "requestch_closed sp = requestch_closed (spawner s)"
    using spn.provide_open [OF assms(3)] by simp
  with assms show ?thesis
    by (auto simp: draining_def handled_def drain_spawner_next_def drain_items_top_def killItems_def
        split: option.splits)
qed

lemma exec_call_frame:
  assumes "exec_call c s = Done t" "\<not> is_request c" "\<not> is_join c"
  shows "pitems (pl t) = pitems (pl s)" "ppc (pl t) = ppc (pl s)"
    and "donech_closed (pl t) \<longleftrightarrow> donech_closed (pl s) \<or> c = CallCloseDone"
    and "spawner t = (if c = CallSpawnerStop then (spawner s)\<lparr>requestch_closed := True\<rparr> else spawner s)"
    and "todo t = todo s"
    and "map_option (\<lambda>it. (ipc it, container it)) (its t i) = map_option (\<lambda>it. (ipc it, container it)) (its s i)"
  using assms
  by (cases c; auto simp: go_simps on_item_def item_start_def item_reset_def item_kill_def spawner_stop_def
      split: option.splits if_splits)+

lemma draining_call:
  assumes "draining s" "todo s = c # cs" "exec_call c s = Done t"
  shows "draining (t\<lparr>todo := cs\<rparr>)"
proof -
  have "\<not> is_request c" "\<not> is_join c" using assms(1,2) by (simp_all add: draining_def)
  note f = exec_call_frame [OF assms(3) this]
  show ?thesis using assms(1,2) by (auto simp: draining_def f(1-5))
qed

lemma exec_call_waits: "\<not> is_request c \<Longrightarrow> exec_call c s \<noteq> Blocked"
  by (cases c) (auto simp: go_simps on_item_def item_join_def buffer_put_def buffer_stop_def spawner_stop_def
      split: option.splits)

text \<open>Nothing leaves this phase.\<close>

lemma draining_step:
  assumes d: "draining s" and e: "sys_exec lc op s = Some t" and nc: "\<not> crashed t"
  shows "draining t"
proof -
  have t: "sys_step lc op s = Some t" using e by (simp add: sys_exec_def split: if_splits)
  have pc: "ppc (pl s) \<in> {PDrainSpawner, PDrainItems, PDone}" using d by (simp add: draining_def)
  have same: "draining u"
    if "requestch_closed (spawner u) = requestch_closed (spawner s)" "pl u = pl s" "todo u = todo s" for u
    using d that by (simp add: draining_def)
  show ?thesis
  proof (cases op)
    case SysCall
    then obtain c cs s' where "todo s = c # cs" "exec_call c s = Done s'" "t = s'\<lparr>todo := cs\<rparr>"
      using t nc by (auto simp: outcome_def split: list.splits go.splits)
    with draining_call [OF d] show ?thesis by simp
  next
    case SysNext
    then have t: "sys_next s = Some t" "todo s = []" using t by (auto simp: selecting_def split: if_splits)
    obtain r sp where r: "spawner_next (spawner s) = Done (r, sp)" "ppc (pl s) = PDrainSpawner"
      using t pc nc by (auto simp: sys_next_def outcome_def split: go.splits)
    with t have "t = handled (s\<lparr>spawner := sp\<rparr>) (drain_spawner_next r (pl s))"
      by (simp add: sys_next_def outcome_def)
    with draining_next [OF d t(2) r] show ?thesis by simp
  next
    case (SysItemEvent k)
    then obtain kt ev kt' p' cs where "pool_event ev k (pl s) = Done (p', cs)" "todo s = []"
      and "t = handled (s\<lparr>its := (its s)(k \<mapsto> kt')\<rparr>) (p', cs)"
      using t nc by (auto simp: sys_item_event_def outcome_def selecting_def split: option.splits go.splits if_splits)
    with draining_event [OF d] show ?thesis by simp
  next
    case (SysReturned k)
    then obtain p' cs where "pool_event ItemReturned k (pl s) = Done (p', cs)" "todo s = []"
      and "t = handled (s\<lparr>returning := remove1 k (returning s)\<rparr>) (p', cs)"
      using t nc by (auto simp: outcome_def selecting_def split: go.splits if_splits)
    with draining_event [OF d] show ?thesis by simp
  next
    case SysSpawnRecv
    then obtain x where "spawner_recv_request (spawner s) = Done x" "t = s\<lparr>spawner := x\<rparr>"
      using t nc by (auto simp: outcome_def split: go.splits)
    moreover from this have "requestch_closed x = requestch_closed (spawner s)"
      by (auto simp: spawner_recv_request_def fill_top_eq drain_top_def split: spawner_pc.splits list.splits if_splits)
    ultimately show ?thesis by (intro same) simp_all
  next
    case (SysSpawnResult r)
    then obtain x where "spawner_result r (spawner s) = Done x" "spawner t = x" "pl t = pl s" "todo t = todo s"
      using t nc by (auto simp: outcome_def split: go.splits option.splits if_splits)
    moreover from this(1) have "requestch_closed x = requestch_closed (spawner s)"
      by (auto simp: spawner_result_def fill_top_eq drain_top_def Let_def split: spawner_pc.splits option.splits if_splits)
    ultimately show ?thesis by (intro same) simp_all
  qed (use t pc nc same in \<open>auto simp: outcome_def split: go.splits option.splits if_splits\<close>)
qed

definition draining_or_dead :: "sys \<Rightarrow> bool" where
  "draining_or_dead s \<longleftrightarrow> crashed s \<or> draining s"

interpretation shutdown: trap "sys_exec lc" draining_or_dead for lc
proof unfold_locales
  fix s l t
  assume d: "draining_or_dead s" and e: "sys_exec lc l s = Some t"
  then have "\<not> crashed s" by (simp add: sys_exec_def split: if_splits)
  with d have "draining s" by (simp add: draining_or_dead_def)
  from draining_step [OF this e] show "draining_or_dead t" by (auto simp: draining_or_dead_def)
qed

lemma shutdown_draining: "sys_step lc SysShutdown s = Some t \<Longrightarrow> draining t"
  by (auto simp: draining_def handled_def running_shutdown_def killItems_def selecting_def split: if_splits)

section \<open>Steps towards the end\<close>

text \<open>
  A good state: the invariant holds, the pool is shutting down, and docker still watches the
  containers of its items.
\<close>

definition watched :: "sys \<Rightarrow> bool" where
  "watched s \<longleftrightarrow> (\<forall>i \<in> set (pitems (pl s)). \<forall>it. its s i = Some it \<longrightarrow> monitoring (container it))"

definition good :: "sys \<Rightarrow> bool" where
  "good s \<longleftrightarrow> sys_inv s \<and> draining s \<and> watched s"

lemma good_step:
  assumes "good s" "well_formed op" "sys_step lc op s = Some t" "watched t"
  shows "good t" "wf_exec lc op s = Some t"
proof -
  have nc: "\<not> crashed s" using assms(1) by (simp add: good_def sys_inv_def parts_ok_def)
  with assms(2,3) have e: "sys_exec lc op s = Some t" and w: "wf_exec lc op s = Some t"
    by (simp_all add: sys_exec_def wf_exec_def)
  show "wf_exec lc op s = Some t" by (rule w)
  have inv: "sys_inv t" using sys_step_inv [OF _ w] assms(1) by (simp add: good_def)
  then have "\<not> crashed t" by (simp add: sys_inv_def parts_ok_def)
  with draining_step [OF _ e] assms(1,4) inv show "good t" by (simp add: good_def)
qed

text \<open>The calls that are left are made, and change nothing that matters.\<close>

lemma run_calls:
  "good s \<Longrightarrow> \<exists>t. reach (wf_exec lc) s t \<and> good t \<and> todo t = []
     \<and> pitems (pl t) = pitems (pl s) \<and> ppc (pl t) = ppc (pl s)
     \<and> (\<exists>b. spawner t = (spawner s)\<lparr>requestch_closed := b\<rparr>)
     \<and> (\<forall>i. map_option (\<lambda>it. (ipc it, container it)) (its t i) = map_option (\<lambda>it. (ipc it, container it)) (its s i))"
proof (induction "length (todo s)" arbitrary: s)
  case 0
  have "spawner s = (spawner s)\<lparr>requestch_closed := requestch_closed (spawner s)\<rparr>" by simp
  then have "\<exists>b. spawner s = (spawner s)\<lparr>requestch_closed := b\<rparr>" by blast
  then show ?case using 0 by (intro exI [of _ s]) (auto intro: reach_start)
next
  case (Suc n)
  then obtain c cs where c: "todo s = c # cs" "length cs = n" by (cases "todo s") auto
  have q: "\<not> is_request c" "\<not> is_join c" using Suc.prems c by (simp_all add: good_def draining_def)
  obtain s1 where s1: "sys_step lc SysCall s = Some s1"
    using exec_call_waits [OF q(1), of s] c by (cases "exec_call c s") (auto simp: outcome_def)
  have nc: "\<not> crashed s" using Suc.prems by (simp add: good_def sys_inv_def parts_ok_def)
  have w: "wf_exec lc SysCall s = Some s1" using nc s1 by (simp add: wf_exec_def sys_exec_def del: sys_step.simps)
  have inv: "sys_inv s1" using sys_step_inv [OF _ w] Suc.prems by (simp add: good_def)
  then have "\<not> crashed s1" by (simp add: sys_inv_def parts_ok_def)
  then obtain s2 where e: "exec_call c s = Done s2" and s1': "s1 = s2\<lparr>todo := cs\<rparr>"
    using s1 c by (auto simp: outcome_def split: go.splits)
  note f = exec_call_frame [OF e q]
  have "watched s1"
    unfolding watched_def
  proof (intro ballI allI impI)
    fix i it
    assume i: "i \<in> set (pitems (pl s1))" and it: "its s1 i = Some it"
    then obtain it0 where "its s i = Some it0" "container it = container it0"
      using f(6) [of i] s1' by (cases "its s i") auto
    with i f(1) Suc.prems s1' show "monitoring (container it)" by (simp add: good_def watched_def)
  qed
  from good_step [OF Suc.prems _ s1 this] have g: "good s1" "wf_exec lc SysCall s = Some s1" by simp_all
  have "n = length (todo s1)" using c s1' by simp
  from Suc.hyps(1) [OF this g(1)] obtain t b where t: "reach (wf_exec lc) s1 t" "good t" "todo t = []"
    "pitems (pl t) = pitems (pl s1)" "ppc (pl t) = ppc (pl s1)"
    "spawner t = (spawner s1)\<lparr>requestch_closed := b\<rparr>"
    "\<forall>i. map_option (\<lambda>it. (ipc it, container it)) (its t i) = map_option (\<lambda>it. (ipc it, container it)) (its s1 i)"
    by blast
  have "reach (wf_exec lc) s t" using t(1) g(2) by (meson reach_start reach_step reach_trans)
  moreover have "spawner t = (spawner s)\<lparr>requestch_closed := b\<rparr>" using t(6) f(4) s1' by simp
  ultimately show ?case using t(2-5,7) f s1' by (intro exI [of _ t]) auto
qed

text \<open>A step of the pool followed by the calls it leads to.\<close>

lemma step_and_calls:
  assumes "good s" "well_formed op" "sys_step lc op s = Some s1" "watched s1"
  shows "\<exists>t. reach (wf_exec lc) s t \<and> good t \<and> todo t = []
     \<and> pitems (pl t) = pitems (pl s1) \<and> ppc (pl t) = ppc (pl s1)
     \<and> (\<exists>b. spawner t = (spawner s1)\<lparr>requestch_closed := b\<rparr>)
     \<and> (\<forall>i. map_option (\<lambda>it. (ipc it, container it)) (its t i) = map_option (\<lambda>it. (ipc it, container it)) (its s1 i))"
proof -
  note g = good_step [OF assms]
  from run_calls [OF g(1)] obtain t where t: "reach (wf_exec lc) s1 t" "good t \<and> todo t = []
     \<and> pitems (pl t) = pitems (pl s1) \<and> ppc (pl t) = ppc (pl s1)
     \<and> (\<exists>b. spawner t = (spawner s1)\<lparr>requestch_closed := b\<rparr>)
     \<and> (\<forall>i. map_option (\<lambda>it. (ipc it, container it)) (its t i) = map_option (\<lambda>it. (ipc it, container it)) (its s1 i))"
    by blast
  have "reach (wf_exec lc) s s1" using g(2) by (meson reach_start reach_step)
  with t show ?thesis by (blast intro: reach_trans)
qed

section \<open>The spawner returns\<close>

text \<open>How much the spawner still has to do: first its requests, then its creations.\<close>

definition spawner_load :: "cid pispawner \<Rightarrow> nat \<times> nat" where
  "spawner_load x =
     (case spc x of
        SFilling \<Rightarrow> (Suc (2 * length (requestch x)), 0)
      | SSending i \<Rightarrow> (Suc (Suc (2 * length (requestch x))), 0)
      | SDraining \<Rightarrow> (0, 2 * workers x)
      | SDrainSending i \<Rightarrow> (0, Suc (2 * workers x))
      | SExited \<Rightarrow> (0, 0))"

lemma load_closed [simp]: "spawner_load (x\<lparr>requestch_closed := b\<rparr>) = spawner_load x"
  by (cases "spc x") (simp_all add: spawner_load_def)

lemma load_drain_top:
  "pending x = int (workers x) \<Longrightarrow> spawner_load (drain_top x) = (0, 2 * workers x)"
  by (simp add: spawner_load_def drain_top_def)

lemma load_fill_top: "spawner_load (fill_top x) = (Suc (2 * length (requestch x)), 0)"
  by (simp add: spawner_load_def fill_top_eq)

text \<open>Unless it has returned, the spawner can do something, and that reduces its load.\<close>

lemma spawner_progress:
  assumes "spawner_ok x" "requestch_closed x"
  obtains (recv) y where "spawner_recv_request x = Done y" "(spawner_load y, spawner_load x) \<in> less_than <*lex*> less_than"
  | (result) y where "spawner_result None x = Done y" "(spawner_load y, spawner_load x) \<in> less_than <*lex*> less_than"
  | (give) i y where "spawner_next x = Done (Some i, y)" "(spawner_load y, spawner_load x) \<in> less_than <*lex*> less_than"
  | (exited) "spc x = SExited"
proof (cases "spc x")
  case SFilling
  show ?thesis
  proof (cases "requestch x")
    case Nil
    then have "spawner_recv_request x = Done (drain_top x)"
      using SFilling assms(2) by (simp add: spawner_recv_request_def)
    moreover have "spawner_load (drain_top x) = (0, 2 * workers x)"
      using assms(1) by (intro load_drain_top) (simp add: spawner_ok_def)
    ultimately show ?thesis using recv SFilling by (simp add: spawner_load_def)
  next
    case (Cons r rs)
    then have "spawner_recv_request x = Done (fill_top (x\<lparr>requestch := rs, needed := r\<rparr>))"
      using SFilling by (simp add: spawner_recv_request_def)
    then show ?thesis by (rule recv) (simp add: load_fill_top, simp add: spawner_load_def SFilling Cons)
  qed
next
  case (SSending i)
  then have "spawner_next x = Done (Some i, fill_top x)" by (simp add: spawner_next_def)
  then show ?thesis by (rule give) (simp add: load_fill_top, simp add: spawner_load_def SSending)
next
  case SDraining
  then have w: "0 < workers x" using assms(1) by (simp add: spawner_ok_def)
  let ?y = "drain_top (x\<lparr>pending := pending x - 1, workers := workers x - 1\<rparr>)"
  have "spawner_result None x = Done ?y" using SDraining w by (simp add: spawner_result_def)
  moreover have "spawner_load ?y = (0, 2 * (workers x - 1))"
    using assms(1) w by (subst load_drain_top) (auto simp: spawner_ok_def)
  ultimately show ?thesis using result SDraining w by (simp add: spawner_load_def)
next
  case (SDrainSending i)
  then have "spawner_next x = Done (Some i, drain_top x)" by (simp add: spawner_next_def)
  moreover have "spawner_load (drain_top x) = (0, 2 * workers x)"
    using assms(1) by (intro load_drain_top) (simp add: spawner_ok_def)
  ultimately show ?thesis using give SDrainSending by (simp add: spawner_load_def)
next
  case SExited
  then show ?thesis by (rule exited)
qed

lemma spawner_returns:
  "good s \<Longrightarrow> todo s = [] \<Longrightarrow> ppc (pl s) = PDrainSpawner \<Longrightarrow>
     \<exists>t. reach (wf_exec lc) s t \<and> good t \<and> todo t = [] \<and> ppc (pl t) \<in> {PDrainItems, PDone}"
proof (induction "spawner_load (spawner s)" arbitrary: s rule: wf_induct [OF wf_lex_prod [OF wf_less_than wf_less_than]])
  case (1 s)
  have d: "sys_inv s" "watched s" "requestch_closed (spawner s)" "spawner_ok (spawner s)"
    using 1(2,3) by (simp_all add: good_def draining_def sys_inv_def parts_ok_def)
  have closed: "spawner_load (spawner t) = spawner_load x" if "spawner t = x\<lparr>requestch_closed := b\<rparr>" for t x b
    using that by simp
  have again: ?case
    if st: "sys_step lc op s = Some s1" "well_formed op" "spawner s1 = y" "pitems (pl s1) = pitems (pl s)"
      "ppc (pl s1) = PDrainSpawner" "its s1 = its s"
      and lt: "(spawner_load y, spawner_load (spawner s)) \<in> less_than <*lex*> less_than" for op s1 y
  proof -
    have "watched s1" using d(2) st by (simp add: watched_def)
    from step_and_calls [OF 1(2) st(2,1) this] obtain t b where t: "reach (wf_exec lc) s t" "good t" "todo t = []"
      "ppc (pl t) = PDrainSpawner" "spawner t = y\<lparr>requestch_closed := b\<rparr>"
      using st by auto
    have "(spawner_load (spawner t), spawner_load (spawner s)) \<in> less_than <*lex*> less_than"
      using lt closed [OF t(5)] by simp
    with 1(1) t obtain u where "reach (wf_exec lc) t u" "good u" "todo u = []" "ppc (pl u) \<in> {PDrainItems, PDone}"
      by blast
    with t(1) show ?thesis by (blast intro: reach_trans)
  qed
  from d(4,3) show ?case
  proof (cases rule: spawner_progress)
    case (recv y)
    then have "sys_step lc SysSpawnRecv s = Some (s\<lparr>spawner := y\<rparr>)" by (simp add: outcome_def)
    from again [OF this _ _ _ _ _ recv(2)] 1(4) show ?thesis by simp
  next
    case (result y)
    then have "sys_step lc (SysSpawnResult None) s = Some (s\<lparr>spawner := y\<rparr>)" by (simp add: outcome_def)
    from again [OF this _ _ _ _ _ result(2)] 1(4) show ?thesis by simp
  next
    case (give i y)
    then have "sys_step lc SysNext s = Some (handled (s\<lparr>spawner := y\<rparr>) (pl s, CallKill i # killItems (pl s)))"
      using 1(3,4) by (simp add: outcome_def selecting_def sys_next_def drain_spawner_next_def)
    from again [OF this _ _ _ _ _ give(2)] 1(4) show ?thesis by (simp add: handled_def)
  next
    case exited
    let ?s1 = "handled s (drain_items_top ((pl s)\<lparr>ppc := PDrainItems\<rparr>))"
    have st: "sys_step lc SysNext s = Some ?s1"
      using 1(3,4) exited by (simp add: outcome_def selecting_def sys_next_def drain_spawner_next_def spawner_next_def)
    have f: "its ?s1 = its s" "pitems (pl ?s1) = pitems (pl s)" "ppc (pl ?s1) \<in> {PDrainItems, PDone}"
      by (simp_all add: handled_def drain_items_top_def)
    then have "watched ?s1" using d(2) by (simp add: watched_def)
    from step_and_calls [OF 1(2) _ st this] f(3) show ?thesis by (metis well_formed.simps)
  qed
qed

section \<open>The items exit\<close>

lemma own_step_good:
  assumes "good s" "its s i = Some it" "own_step op" "item_exec lc op it = Done (x, it')" "monitoring (container it')"
  defines "t \<equiv> s\<lparr>its := (its s)(i \<mapsto> it')\<rparr>"
  shows "good t" "wf_exec lc (SysItem i op) s = Some t"
proof -
  have st: "sys_step lc (SysItem i op) s = Some t" using assms(2-4) by (simp add: outcome_def t_def)
  have "watched t" using assms(1,5) by (simp add: good_def watched_def t_def)
  from good_step [OF assms(1) _ st this] show "good t" "wf_exec lc (SysItem i op) s = Some t" by simp_all
qed

text \<open>A container that docker has reported as removed makes its item exit.\<close>

lemma removed_exits:
  assumes "good s" "its s i = Some it" "ipc it = MainLoop" "mon_send (container it) = Some e" "monitoring (container it)"
  shows "\<exists>t it'. reach (wf_exec lc) s t \<and> good t \<and> pl t = pl s \<and> todo t = todo s \<and> its t i = Some it' \<and> ipc it' = SendExit"
proof -
  let ?c = "container it"
  have "item_ok it" using assms(1,2) by (auto simp: good_def sys_inv_def parts_ok_def)
  then have c: "container_ok ?c" by (simp add: item_ok_def)
  then have e: "e = CExitSuccess \<or> e = CExitError" using assms(4) by (cases e) (auto simp: container_ok_def)
  then have "start_send ?c \<noteq> Some e" using c by (auto simp: container_ok_def)
  then have "recv_container_event e ?c = Done (?c\<lparr>mon_send := None\<rparr>)"
    using assms(4) by (simp add: recv_container_event_def)
  then have x: "item_exec lc (IContainer e) it = Done (None, main_loop_container e (it\<lparr>container := ?c\<lparr>mon_send := None\<rparr>\<rparr>))"
    using assms(3) by (simp add: item_container_def)
  let ?it = "main_loop_container e (it\<lparr>container := ?c\<lparr>mon_send := None\<rparr>\<rparr>)"
  have f: "ipc ?it = SendExit" "monitoring (container ?it)"
    using e assms(5) by (auto simp: main_loop_container_def emit_def)
  note g = own_step_good [OF assms(1,2) _ x f(2)]
  have "reach (wf_exec lc) s (s\<lparr>its := (its s)(i \<mapsto> ?it)\<rparr>)"
    using g(2) by (intro reach_step [OF reach_start]) simp
  with g(1) f(1) show ?thesis
    by (intro exI [of _ "s\<lparr>its := (its s)(i \<mapsto> ?it)\<rparr>"] exI [of _ ?it]) simp
qed

lemma main_loop_exits:
  assumes "good s" "its s i = Some it" "ipc it = MainLoop" "monitoring (container it)"
  shows "\<exists>t it'. reach (wf_exec lc) s t \<and> good t \<and> pl t = pl s \<and> todo t = todo s \<and> its t i = Some it' \<and> ipc it' = SendExit"
proof (cases "mon_send (container it)")
  case (Some e)
  with assms show ?thesis by (intro removed_exits)
next
  case None
  let ?c = "(container it)\<lparr>mon_send := Some (exit_event (wait_status (container it)))\<rparr>"
  let ?it = "it\<lparr>container := ?c\<rparr>"
  let ?s = "s\<lparr>its := (its s)(i \<mapsto> ?it)\<rparr>"
  have x: "item_exec lc (IMonitor (DockerEvent ''destroy'' None)) it = Done (None, ?it)"
    using None assms(4) by (simp add: monitor_step_def)
  have m: "monitoring (container ?it)" using assms(4) by simp
  note g = own_step_good [OF assms(1,2) _ x m]
  have s: "good ?s" "reach (wf_exec lc) s ?s"
    using g by (auto intro: reach_step [OF reach_start])
  obtain t it' where t: "reach (wf_exec lc) ?s t" "good t" "pl t = pl ?s" "todo t = todo ?s" "its t i = Some it'" "ipc it' = SendExit"
  proof -
    have "its ?s i = Some ?it" "ipc ?it = MainLoop"
      "mon_send (container ?it) = Some (exit_event (wait_status (container it)))"
      using assms(3) by simp_all
    from removed_exits [OF s(1) this m] show thesis using that by blast
  qed
  from reach_trans [OF t(1) s(2)] t show ?thesis by auto
qed

text \<open>The pool receives an event of an item while it waits for the exits.\<close>

lemma drain_receives:
  assumes "good s" "todo s = []" "ppc (pl s) = PDrainItems" "i \<in> set (pitems (pl s))"
    and "its s i = Some it" "item_deliver it = Done (e, it')"
  shows "\<exists>t. reach (wf_exec lc) s t \<and> good t \<and> todo t = [] \<and> ppc (pl t) \<in> {PDrainItems, PDone}
     \<and> pitems (pl t) = (if e = ItemExit then items_delete i (pitems (pl s)) else pitems (pl s))
     \<and> map_option ipc (its t i) = Some (ipc it')"
proof -
  have inv: "ids_ok s" "watched s" using assms(1) by (simp_all add: good_def sys_inv_def)
  then have "12 \<le> length i" using assms(5) by (auto simp: ids_ok_def)
  then have "pool_event e i (pl s) \<noteq> Panic" by (intro pool_event_no_panic) simp
  moreover have "pool_event e i (pl s) \<noteq> Blocked"
    using assms(3) by (auto simp: pool_event_def drain_event_def handleDrainingEvent_def Let_def go_simps
        split: go.splits pool_event_id.splits)
  ultimately obtain p' cs where p: "pool_event e i (pl s) = Done (p', cs)"
    by (cases "pool_event e i (pl s)") auto
  note sh = pool_event_shape [OF p, unfolded event_shape_def]
  let ?s = "handled (s\<lparr>its := (its s)(i \<mapsto> it')\<rparr>) (p', cs)"
  have st: "sys_step lc (SysItemEvent i) s = Some ?s"
    using assms(2,5,6) p by (simp add: selecting_def sys_item_event_def outcome_def)
  have c: "container it' = container it" using assms(6) by (auto simp: item_deliver_def split: item_pc.splits)
  have sub: "set (pitems p') \<subseteq> set (pitems (pl s))" using sh by auto
  have "watched ?s" using inv(2) sub c assms(4,5) by (auto simp: watched_def handled_def)
  from step_and_calls [OF assms(1) _ st this] obtain t where t: "reach (wf_exec lc) s t" "good t" "todo t = []"
    "pitems (pl t) = pitems p'" "ppc (pl t) = ppc p'"
    "\<forall>k. map_option (\<lambda>it. (ipc it, container it)) (its t k) = map_option (\<lambda>it. (ipc it, container it)) (its ?s k)"
    by (auto simp: handled_def)
  have "map_option (\<lambda>it. (ipc it, container it)) (its t i) = Some (ipc it', container it')"
    using spec [OF t(6), of i] by (simp add: handled_def)
  then have "map_option ipc (its t i) = Some (ipc it')" by auto
  with t sh assms(3) show ?thesis by (intro exI [of _ t]) auto
qed

lemma exiting_item_leaves:
  assumes "good s" "todo s = []" "ppc (pl s) = PDrainItems" "i \<in> set (pitems (pl s))"
    and "its s i = Some it" "ipc it \<noteq> SendReady"
  shows "\<exists>t. reach (wf_exec lc) s t \<and> good t \<and> todo t = [] \<and> ppc (pl t) \<in> {PDrainItems, PDone}
     \<and> length (pitems (pl t)) < length (pitems (pl s))"
proof -
  have inv: "item_ok it" "alive_ok s" "watched s" using assms(1,5) by (auto simp: good_def sys_inv_def parts_ok_def)
  have "alive s i it" using alive_okD [OF inv(2) assms(5)] assms(4) by simp
  then have "\<not> exited it" "ipc it \<noteq> WaitJoin" using assms(2) by (simp_all add: alive_def)
  then have pc: "ipc it = MainLoop \<or> ipc it = SendExit"
    using inv(1) assms(6) by (cases "ipc it") (auto simp: item_ok_def)
  have m: "monitoring (container it)" using inv(3) assms(4,5) by (simp add: watched_def)
  have "\<exists>t it'. reach (wf_exec lc) s t \<and> good t \<and> pl t = pl s \<and> todo t = todo s \<and> its t i = Some it' \<and> ipc it' = SendExit"
    using pc
  proof
    assume "ipc it = MainLoop"
    with main_loop_exits [OF assms(1,5)] m show ?thesis by blast
  next
    assume "ipc it = SendExit"
    with assms(1,5) show ?thesis by (blast intro: reach_start)
  qed
  then obtain t it' where t: "reach (wf_exec lc) s t" "good t" "pl t = pl s" "todo t = todo s" "its t i = Some it'" "ipc it' = SendExit"
    by blast
  obtain it2 where d: "item_deliver it' = Done (ItemExit, it2)" using t(6) by (simp add: item_deliver_def)
  have "todo t = []" "ppc (pl t) = PDrainItems" "i \<in> set (pitems (pl t))" using t assms(2-4) by simp_all
  from drain_receives [OF t(2) this t(5) d] obtain u where u: "reach (wf_exec lc) t u" "good u" "todo u = []"
    "ppc (pl u) \<in> {PDrainItems, PDone}" "pitems (pl u) = items_delete i (pitems (pl s))"
    using t(3) by auto
  have "length (pitems (pl u)) < length (pitems (pl s))"
    unfolding u(5) items_delete_def using assms(4) by (rule length_removeAll_less)
  with u reach_trans [OF u(1) t(1)] show ?thesis by blast
qed

lemma items_exit:
  "good s \<Longrightarrow> todo s = [] \<Longrightarrow> ppc (pl s) = PDrainItems \<Longrightarrow>
     \<exists>t. reach (wf_exec lc) s t \<and> good t \<and> todo t = [] \<and> ppc (pl t) = PDone"
proof (induction "length (pitems (pl s))" arbitrary: s rule: less_induct)
  case less
  have go_on: "\<exists>t. reach (wf_exec lc) s t \<and> good t \<and> todo t = [] \<and> ppc (pl t) = PDone"
    if r: "reach (wf_exec lc) s u" "good u" "todo u = []" "ppc (pl u) = PDrainItems" "pitems (pl u) = pitems (pl s)"
      and i: "i \<in> set (pitems (pl u))" "its u i = Some iu" "ipc iu \<noteq> SendReady" for u i iu
  proof -
    obtain v where v: "reach (wf_exec lc) u v" "good v" "todo v = []" "ppc (pl v) \<in> {PDrainItems, PDone}"
      "length (pitems (pl v)) < length (pitems (pl s))"
      using exiting_item_leaves [OF r(2-4) i] r(5) by auto
    have "\<exists>t. reach (wf_exec lc) v t \<and> good t \<and> todo t = [] \<and> ppc (pl t) = PDone"
    proof (cases "ppc (pl v) = PDone")
      case True
      with v(2,3) show ?thesis by (intro exI [of _ v]) (simp add: reach_start)
    next
      case False
      with v(4) have "ppc (pl v) = PDrainItems" by simp
      from less.hyps [OF v(5,2,3) this] show ?thesis .
    qed
    then obtain t where t: "reach (wf_exec lc) v t" "good t \<and> todo t = [] \<and> ppc (pl t) = PDone" by blast
    have "reach (wf_exec lc) s t" by (rule reach_trans [OF t(1) reach_trans [OF v(1) r(1)]])
    with t(2) show ?thesis by blast
  qed
  have "pitems (pl s) \<noteq> []" using less.prems by (simp add: good_def draining_def)
  then obtain i where i: "i \<in> set (pitems (pl s))" by (cases "pitems (pl s)") auto
  moreover have "ids_ok s" using less.prems(1) by (simp add: good_def sys_inv_def)
  ultimately obtain it where it: "its s i = Some it" by (auto simp: ids_ok_def)
  show ?case
  proof (cases "ipc it = SendReady")
    case False
    from go_on [OF reach_start less.prems refl i it False] show ?thesis .
  next
    case True
    then obtain it' where d: "item_deliver it = Done (ItemReady, it')" "ipc it' = MainLoop"
      by (simp add: item_deliver_def)
    obtain u where u: "reach (wf_exec lc) s u" "good u" "todo u = []" "ppc (pl u) \<in> {PDrainItems, PDone}"
      "pitems (pl u) = pitems (pl s)" "map_option ipc (its u i) = Some MainLoop"
      using drain_receives [OF less.prems i it d(1), where lc = lc] d(2) by auto
    then obtain iu where iu: "its u i = Some iu" "ipc iu = MainLoop" by auto
    show ?thesis
    proof (cases "ppc (pl u) = PDone")
      case True
      with u show ?thesis by blast
    next
      case False
      with u(4) have "ppc (pl u) = PDrainItems" by simp
      from go_on [OF u(1-3) this u(5) _ iu(1)] i u(5) iu(2) show ?thesis by simp
    qed
  qed
qed

section \<open>The context\<close>

text \<open>
  \<open>monitorCtx\<close>, the goroutine that a pool is given at its creation: the calls it makes once its
  \<^theory_text>\<open>select\<close> has a case. When both have, it may as well return at once, and its \<open>Stop\<close> would too.
\<close>

definition monitorCtx :: "bool \<Rightarrow> sys \<Rightarrow> sys_op list option" where
  "monitorCtx ctx_done s = (if ctx_done then Some [SysStop] else if donech_closed (pl s) then Some [] else None)"

text \<open>A pool whose context is done begins its shutdown at its next \<^theory_text>\<open>select\<close>.\<close>

lemma context_begins_shutdown:
  assumes "sys_inv s" "ppc (pl s) = PRunning" "selecting s"
  shows "\<exists>calls t. monitorCtx True s = Some calls \<and> run (wf_exec lc) (calls @ [SysShutdown]) s = Some t \<and> draining t"
proof -
  let ?u = "s\<lparr>stopping := Suc (stopping s)\<rparr>"
  let ?t = "handled (?u\<lparr>stopping := stopping s, stop_waiting := Suc (stop_waiting s)\<rparr>) (running_shutdown (pl s))"
  have nc: "\<not> crashed s" using assms(1) by (simp add: sys_inv_def parts_ok_def)
  have t: "sys_step lc SysShutdown ?u = Some ?t" using assms(2,3) by (simp add: selecting_def)
  have "draining ?t" using shutdown_draining [OF t] by simp
  moreover have "run (wf_exec lc) [SysStop, SysShutdown] s = Some ?t"
    using nc assms(2,3) by (simp add: wf_exec_def sys_exec_def selecting_def)
  ultimately show ?thesis by (simp add: monitorCtx_def)
qed

section \<open>Properties\<close>

text \<open>
  C10: A shutdown can always be completed: from every state the pool can be in after it has
  received on \<open>shutdownch\<close>, whatever happened before and since, there is a continuation in which
  \<open>donech\<close> is closed, so that every \<open>Stop\<close> returns; all it needs is that docker still reports
  the removal of the containers of the items that are left.
\<close>

theorem shutdown_completes:
  assumes "run (wf_exec lc) (ops1 @ SysShutdown # ops2) (newSys n) = Some s"
    and "\<forall>i \<in> set (pitems (pl s)). monitoring (container (the (its s i)))"
  shows "\<exists>ops3 t. run (wf_exec lc) ops3 s = Some t \<and> donech_closed (pl t)"
proof -
  obtain s1 s2 where s1: "run (wf_exec lc) ops1 (newSys n) = Some s1" and s2: "wf_exec lc SysShutdown s1 = Some s2"
    and r: "run (wf_exec lc) ops2 s2 = Some s"
    using assms(1) by (auto simp: run_append split: option.splits)
  have inv: "sys_inv s" using assms(1) by (rule sys.run_inv)
  have "draining s2" using s2 shutdown_draining by (auto simp: wf_exec_def sys_exec_def split: if_splits)
  moreover have "reach (sys_exec lc) s2 s"
    using run_reach [OF r]
    by (induction rule: reach.induct) (auto simp: wf_exec_def intro: reach.intros split: if_splits)
  ultimately have "draining_or_dead s" using shutdown.reach_stuck by (simp add: draining_or_dead_def)
  with inv have "draining s" by (simp add: draining_or_dead_def sys_inv_def parts_ok_def)
  moreover have "watched s" using assms(2) by (auto simp: watched_def)
  ultimately have "good s" using inv by (simp add: good_def)
  from run_calls [OF this] obtain a where a: "reach (wf_exec lc) s a" "good a" "todo a = []" by blast
  have "ppc (pl a) \<in> {PDrainSpawner, PDrainItems, PDone}" using a(2) by (simp add: good_def draining_def)
  then obtain b where b: "reach (wf_exec lc) a b" "good b" "todo b = []" "ppc (pl b) \<in> {PDrainItems, PDone}"
    using spawner_returns [OF a(2,3)] a by (auto intro: reach_start)
  then obtain t where t: "reach (wf_exec lc) b t" "good t" "todo t = []" "ppc (pl t) = PDone"
    using items_exit [OF b(2,3)] by (auto intro: reach_start)
  have "donech_closed (pl t)" using t(2-4) by (simp add: good_def draining_def)
  moreover have "reach (wf_exec lc) s t" by (rule reach_trans [OF t(1) reach_trans [OF b(1) a(1)]])
  then obtain ops3 where "run (wf_exec lc) ops3 s = Some t" using reach_run by metis
  ultimately show ?thesis by blast
qed

theorem shutdown_completes_witness:
  "\<exists>s ops3 t. run (wf_exec all_actions) (one_ready @ [SysStop, SysShutdown]) (newSys 1) = Some s
     \<and> pitems (pl s) = [cid_of CHR ''a''] \<and> run (wf_exec all_actions) ops3 s = Some t \<and> donech_closed (pl t)"
proof -
  define s where "s = the (run (wf_exec all_actions) (one_ready @ [SysStop, SysShutdown]) (newSys 1))"
  have r: "run (wf_exec all_actions) (one_ready @ [SysStop, SysShutdown]) (newSys 1) = Some s
     \<and> pitems (pl s) = [cid_of CHR ''a''] \<and> monitoring (container (the (its s (cid_of CHR ''a''))))"
    unfolding s_def by (rule is_run) code_simp
  with shutdown_completes [of all_actions "one_ready @ [SysStop]" "[]" 1 s] show ?thesis by auto
qed

end
