(* ===== verification/Item_Properties.thy ===== *)
theory Item_Properties
  imports Item_Buffer Item_Spawner Item_History
begin

text \<open>
  The properties of the parts a pool is made of: its buffer of ready items, its spawner, its
  items and their containers.
\<close>

section \<open>The buffer and the spawner\<close>

text \<open>
  C20: The buffer refines a queue: in every history of puts, checkouts and the shutdown, the
  items handed out, followed by those still waiting, are the items put, in their order. The
  number shown to the user is the number waiting, and the output channel is closed only after
  the input channel.
\<close>

theorem buffer_refines_queue:
  assumes "buffer_run ops newPoolItemBuffer = Done (given, b)"
  shows "puts ops = given @ buf b \<and> (\<not> outch_closed b \<longrightarrow> num_ready b = length (buf b))
    \<and> (outch_closed b \<longrightarrow> inch_closed b)"
  using buffer_run_queue [OF assms] buffer_run_ok [OF assms buffer_ok_new]
  by (simp add: newPoolItemBuffer_def buffer_ok_def)

theorem buffer_refines_queue_witness:
  "buffer_run [BPut (1::nat), BPut 2, BGet, BPut 3, BGet, BStop] newPoolItemBuffer
     = Done ([1, 2], \<lparr>buf = [3], inch_closed = True, outch_closed = False, num_ready = 1\<rparr>)
   \<and> puts [BPut (1::nat), BPut 2, BGet, BPut 3, BGet, BStop] = [1, 2] @ [3]"
proof -
  have r: "buffer_run [BPut (1::nat), BPut 2, BGet, BPut 3, BGet, BStop] newPoolItemBuffer
     = Done ([1, 2], \<lparr>buf = [3], inch_closed = True, outch_closed = False, num_ready = 1\<rparr>)"
    by (simp add: calls newPoolItemBuffer_def)
  with buffer_refines_queue [OF r] show ?thesis by simp
qed

text \<open>
  C21: The spawner loses and invents nothing: in every history the items of the successful
  creations, in their order, are those handed to the pool followed by the one being handed
  over; the number of pending creations shown is that of the goroutines it runs, and while it
  waits it runs at least as many as the last request asks for.
\<close>

theorem spawner_conserves:
  assumes "spawner_run ops newPoolItemSpawner = Done (given, s)"
  shows "created ops = given @ in_flight (spc s) \<and> pending s = int (workers s)
    \<and> (spc s = SFilling \<longrightarrow> needed s \<le> int (workers s) \<and> num_pending s = int (workers s))
    \<and> (spc s = SExited \<longrightarrow> requestch s = [] \<and> requestch_closed s \<and> workers s = 0)"
  using spawner_run_flight [OF assms] spawner_run_ok [OF assms spawner_ok_new]
  by (auto simp: newPoolItemSpawner_def spawner_ok_def)

theorem spawner_conserves_witness:
  "\<exists>s. spawner_run [SRequest 2, SRecv, SResult (Some ''a''), SNext, SResult None, SResult (Some ''b''), SNext]
         newPoolItemSpawner = Done ([''a'', ''b''], s) \<and> workers s = 0 \<and> pending s = int (workers s)"
proof -
  let ?ops = "[SRequest 2, SRecv, SResult (Some ''a''), SNext, SResult None, SResult (Some ''b''), SNext]"
  have "\<exists>s. spawner_run ?ops newPoolItemSpawner = Done ([''a'', ''b''], s) \<and> workers s = 0"
    by (simp add: calls newPoolItemSpawner_def fill_top_eq request_cap_def)
  then obtain s where "spawner_run ?ops newPoolItemSpawner = Done ([''a'', ''b''], s)" "workers s = 0"
    by blast
  with spawner_conserves [of ?ops "[''a'', ''b'']" s] show ?thesis by auto
qed

text \<open>
  C32: The spawner's drain terminates: once its requests are closed and read, and whatever the
  creations still running answer, their items are all handed over and the goroutine returns.
\<close>

theorem spawner_drain_terminates:
  assumes "spawner_run ops newPoolItemSpawner = Done (given, s)"
    and "spc s = SDraining" and "length answers = workers s"
  shows "\<exists>s'. spawner_run (drain_ops answers) s = Done (created (drain_ops answers), s') \<and> spc s' = SExited"
proof (rule spawner_drains)
  show ok: "spawner_ok s" using spawner_run_ok [OF assms(1) spawner_ok_new] .
  show "spc s = (if workers s = 0 then SExited else SDraining)"
    using ok assms(2) by (auto simp: spawner_ok_def)
qed (rule assms(3))

theorem spawner_drain_terminates_witness:
  "\<exists>s s'. spawner_run [SRequest 2, SRecv, SStop, SRecv] newPoolItemSpawner = Done ([], s)
     \<and> spawner_run [SResult None, SResult (Some ''a''), SNext] s = Done ([''a''], s') \<and> spc s' = SExited"
proof -
  let ?ops = "[SRequest 2, SRecv, SStop, SRecv] :: string spawner_op list"
  have "\<exists>s. spawner_run ?ops newPoolItemSpawner = Done ([], s) \<and> spc s = SDraining \<and> workers s = 2"
    by (simp add: calls newPoolItemSpawner_def fill_top_eq drain_top_def request_cap_def)
  then obtain s where s: "spawner_run ?ops newPoolItemSpawner = Done ([], s)" "spc s = SDraining" "workers s = 2"
    by blast
  from spawner_drain_terminates [OF s(1,2), of "[None, Some ''a'']"] s(3)
  have "\<exists>s'. spawner_run [SResult None, SResult (Some ''a''), SNext] s = Done ([''a''], s') \<and> spc s' = SExited"
    by simp
  with s(1) show ?thesis by blast
qed

section \<open>Containers\<close>

text \<open>Docker messages that the monitor passes over.\<close>

definition passed_over :: "docker_msg \<Rightarrow> bool" where
  "passed_over m \<longleftrightarrow> (case m of DockerEvent s _ \<Rightarrow> s \<notin> {''die'', ''detach'', ''destroy''} | _ \<Rightarrow> False)"

lemma monitor_events_pass:
  "list_all passed_over ms \<Longrightarrow> monitor_events (ms @ rest) st = monitor_events rest st"
  by (induction ms) (auto simp: passed_over_def split: docker_msg.splits)

text \<open>
  The monitor reports a removed container as failed exactly when the exit code docker gave
  at its death is not a multiple of \<open>2 ^ 32\<close>, the width of the wait status, whatever other
  events come between. If the event stream breaks between the two, the code is lost and the
  exit is reported as a success.
\<close>

theorem monitor_reports_exit:
  assumes "list_all passed_over before_death" "list_all passed_over between"
    and "atoi v = Some code"
  shows "fst (monitor_run (before_death @ DockerEvent ''die'' (Some v) # between @ [DockerEvent ''destroy'' None])
             createPoolContainer)
           = [if code mod 2 ^ 32 = 0 then CExitSuccess else CExitError]
    \<and> fst (monitor_run (before_death @ DockerEvent ''die'' (Some v) # StreamError err # between @ [DockerEvent ''destroy'' None])
             createPoolContainer)
           = [CExitSuccess]"
proof -
  have "(word_of_int code :: 32 word) = 0 \<longleftrightarrow> code mod 2 ^ 32 = 0"
    by transfer (simp add: take_bit_eq_mod)
  moreover have "monitoring createPoolContainer" "mon_send createPoolContainer = None" "wait_status createPoolContainer = 0"
    by (simp_all add: createPoolContainer_def)
  ultimately show ?thesis
    using assms by (simp add: monitor_run_events monitor_events_pass exit_status_def exit_event_def)
qed

theorem monitor_reports_exit_witness:
  "fst (monitor_run [DockerEvent ''kill'' None, DockerEvent ''die'' (Some ''137''), DockerEvent ''stop'' None,
          DockerEvent ''destroy'' None] createPoolContainer) = [CExitError]
   \<and> fst (monitor_run [DockerEvent ''kill'' None, DockerEvent ''die'' (Some ''137''), StreamError ErrCanceled,
          DockerEvent ''stop'' None, DockerEvent ''destroy'' None] createPoolContainer) = [CExitSuccess]"
proof -
  have p: "list_all passed_over [DockerEvent ''kill'' None]" "list_all passed_over [DockerEvent ''stop'' None]"
    by (simp_all add: passed_over_def)
  have c: "atoi ''137'' = Some 137" by code_simp
  from monitor_reports_exit [OF p c] show ?thesis by simp
qed

section \<open>Items\<close>

text \<open>
  C11: The life of an item: whatever happens, it sends the pool some ready events and then, if
  its container exits, one exit event, after which it is silent; there are at most as many
  ready events as the pool asked for resets, and one for its first start.
\<close>

theorem item_life:
  assumes "item_run lc ops createPoolItem = Done (es, i)"
  shows "\<exists>n. es = replicate n ItemReady @ (if exited i then [ItemExit] else []) \<and> n \<le> Suc (count_list ops IReset)"
proof -
  obtain n where es: "es = replicate n ItemReady @ (if exited i then [ItemExit] else [])"
    using item_run_events [OF assms item_ok_create] by (auto simp: createPoolItem_def)
  have "count_list (replicate n ItemReady) ItemReady = n" by (induction n) auto
  then have "count_list es ItemReady = n" using es by simp
  with item_run_tokens [OF assms item_ok_create] create_tokens es show ?thesis by auto
qed

definition all_flags :: lifecycle_flags where
  "all_flags = \<lparr>has_initialize = True, has_healthcheck = True, has_reset = True\<rparr>"

text \<open>An item that is started, becomes healthy, is initialised, and whose container then exits.\<close>

definition one_life :: "item_op list" where
  "one_life =
     [IJoin, IStart, IRecv False EvStart, IDoStart None (Inr no_status), IContainer CStarted,
      IChild OnChildStarted None None, IRecv True EvLive, IChild OnChildLive None None,
      IRecv True EvReady, IDeliver,
      IMonitor (DockerEvent ''destroy'' None), IContainer CExitSuccess, IDeliver]"

lemma one_life_run: "\<exists>i. item_run all_flags one_life createPoolItem = Done ([ItemReady, ItemExit], i) \<and> exited i"
  by (simp add: one_life_def all_flags_def calls item_bodies createPoolItem_def createPoolContainer_def
      onChildStarted_def onChildLive_def exit_event_def)

theorem item_life_witness:
  "\<exists>n. [ItemReady, ItemExit] = replicate n ItemReady @ [ItemExit] \<and> n \<le> Suc (count_list one_life IReset)"
proof -
  obtain i where i: "item_run all_flags one_life createPoolItem = Done ([ItemReady, ItemExit], i)" "exited i"
    using one_life_run by blast
  from item_life [OF i(1)] i(2) show ?thesis by simp
qed

text \<open>
  The actions that went well, judged by what the lifecycle manager was asked and what it
  answered: \<open>par\<close> is the error of the parameters and \<open>act\<close> that of the action. An action that is
  not configured goes well by itself, but a reset has to be configured.
\<close>

fun went_well :: "lifecycle_flags \<Rightarrow> item_op \<Rightarrow> bool" where
  "went_well lc (IChild OnChildStarted par act) = (has_healthcheck lc \<longrightarrow> par = None \<and> act = None)"
| "went_well lc (IChild OnChildLive par act) = (has_initialize lc \<longrightarrow> par = None \<and> act = None)"
| "went_well lc (IChild OnChildReset par act) = (has_reset lc \<and> par = None \<and> act = None)"
| "went_well lc _ = False"

fun health_check :: "item_op \<Rightarrow> bool" where
  "health_check (IChild c par act) = (c = OnChildStarted)"
| "health_check _ = False"

lemma ready_step_went_well: "ready_step lc op \<Longrightarrow> went_well lc op \<and> \<not> health_check op"
proof (cases op)
  case (IChild c par act)
  moreover assume "ready_step lc op"
  ultimately show ?thesis
    by (cases c) (auto simp: onChildStarted_def onChildLive_def onChildReset_def split: if_splits option.splits)
qed simp_all

lemma healthy_step_went_well: "healthy_step lc op \<Longrightarrow> went_well lc op \<and> health_check op"
proof (cases op)
  case (IChild c par act)
  moreover assume "healthy_step lc op"
  ultimately show ?thesis
    by (cases c) (auto simp: onChildStarted_def onChildLive_def onChildReset_def split: if_splits option.splits)
qed simp_all

lemma length_filter_mono: "(\<And>x. P x \<Longrightarrow> Q x) \<Longrightarrow> length (filter P xs) \<le> length (filter Q xs)"
  by (induction xs) auto

text \<open>
  C12: An item is reported ready only after its lifecycle actions: every ready event has its own
  initialisation or reset whose parameters and action succeeded, and every initialisation that
  ran has its own health check that succeeded; an action that is not configured counts as one
  that succeeded, except the reset.
\<close>

theorem ready_needs_success:
  assumes "item_run lc ops createPoolItem = Done (es, i)"
  shows "count_list es ItemReady \<le> length (filter (\<lambda>op. went_well lc op \<and> \<not> health_check op) ops)
    \<and> length (filter live_step ops) \<le> length (filter (\<lambda>op. went_well lc op \<and> health_check op) ops)"
proof -
  have "count_list es ItemReady \<le> length (filter (ready_step lc) ops)"
    "length (filter live_step ops) \<le> length (filter (healthy_step lc) ops)"
    using item_run_pipes [OF assms item_ok_create]
    by (simp_all add: live_pipe_def ready_pipe_def createPoolItem_def)
  moreover have "length (filter (ready_step lc) ops) \<le> length (filter (\<lambda>op. went_well lc op \<and> \<not> health_check op) ops)"
    by (rule length_filter_mono) (rule ready_step_went_well)
  moreover have "length (filter (healthy_step lc) ops) \<le> length (filter (\<lambda>op. went_well lc op \<and> health_check op) ops)"
    by (rule length_filter_mono) (rule healthy_step_went_well)
  ultimately show ?thesis by linarith
qed

theorem ready_needs_success_witness:
  "count_list [ItemReady, ItemExit] ItemReady = 1
   \<and> length (filter (\<lambda>op. went_well all_flags op \<and> \<not> health_check op) one_life) = 1
   \<and> length (filter live_step one_life) \<le> length (filter (\<lambda>op. went_well all_flags op \<and> health_check op) one_life)"
proof -
  obtain i where "item_run all_flags one_life createPoolItem = Done ([ItemReady, ItemExit], i)"
    using one_life_run by blast
  from ready_needs_success [OF this] show ?thesis
    by (simp add: one_life_def all_flags_def)
qed

text \<open>
  Every failure but one ends the container: after a kill, a failed health check or a failed
  initialisation the item has asked docker to stop it, and after a start that failed the item
  sends its exit to the pool.
\<close>

theorem failures_stop_container:
  assumes "ipc i = MainLoop"
  shows "item_recv b e i = Done i' \<Longrightarrow> e \<in> {EvKill, EvLiveError, EvReadyError} \<Longrightarrow> stop_once (container i')"
    and "item_container CStartFailed i = Done i'' \<Longrightarrow> \<exists>i3. item_deliver i'' = Done (ItemExit, i3) \<and> exited i3"
  using assms item_recv_stops [of b e i i']
  by (auto simp: item_container_def go_simps main_loop_container_def item_deliver_def)

definition started_item :: pitem where
  "started_item = createPoolItem\<lparr>ipc := MainLoop, child_sends := [EvLiveError],
     container := createPoolContainer\<lparr>start_once := True, start_send := Some CStartFailed\<rparr>\<rparr>"

theorem failures_stop_container_witness:
  "(\<exists>i'. item_recv True EvLiveError started_item = Done i' \<and> stop_once (container i'))
   \<and> (\<exists>i' i3. item_container CStartFailed started_item = Done i' \<and> item_deliver i' = Done (ItemExit, i3))"
proof
  have m: "ipc started_item = MainLoop" by (simp add: started_item_def)
  have "\<exists>i'. item_recv True EvLiveError started_item = Done i'"
    by (simp add: item_recv_def take_event_def started_item_def)
  with failures_stop_container(1) [OF m] show "\<exists>i'. item_recv True EvLiveError started_item = Done i' \<and> stop_once (container i')"
    by blast
  have "\<exists>i'. item_container CStartFailed started_item = Done i'"
    by (simp add: item_container_def started_item_def calls)
  with failures_stop_container(2) [OF m] show
    "\<exists>i' i3. item_container CStartFailed started_item = Done i' \<and> item_deliver i' = Done (ItemExit, i3)"
    by blast
qed

section \<open>A failed reset\<close>

text \<open>
  An item in its main loop with a running container, with no goroutine of its own under way
  and no stop asked for.
\<close>

definition idle_item :: "pitem \<Rightarrow> bool" where
  "idle_item i \<longleftrightarrow>
     ipc i = MainLoop \<and> posts i = [] \<and> children i = [] \<and> child_sends i = []
     \<and> \<not> starting (container i) \<and> start_send (container i) = None \<and> mon_send (container i) = None
     \<and> \<not> stop_once (container i) \<and> \<not> stopping (container i)"

text \<open>The steps other than calls of the pool and docker's report of the container's removal.\<close>

fun unasked :: "item_op \<Rightarrow> bool" where
  "unasked IJoin = False"
| "unasked IStart = False"
| "unasked IReset = False"
| "unasked IKill = False"
| "unasked (IMonitor (DockerEvent s a)) = (s \<noteq> ''detach'' \<and> s \<noteq> ''destroy'')"
| "unasked _ = True"

lemma idle_exec:
  assumes "idle_item i" "unasked op" "item_exec lc op i = Done (x, j)"
  shows "x = None \<and> idle_item j"
proof (cases op)
  case (IMonitor m)
  then obtain c where c: "monitor_step m (container i) = Done c" "x = None" "j = i\<lparr>container := c\<rparr>"
    using assms(3) by (auto simp: go_simps)
  have "idle_item (i\<lparr>container := c\<rparr>)"
    using c(1) assms(1,2) IMonitor
    by (cases m) (auto simp: monitor_step_def idle_item_def split: if_splits)
  with c show ?thesis by simp
qed (use assms in \<open>auto simp: go_simps idle_item_def calls take_event_def split: if_splits\<close>)

lemma idle_run:
  "item_run lc ops i = Done (es, j) \<Longrightarrow> idle_item i \<Longrightarrow> list_all unasked ops \<Longrightarrow> es = [] \<and> idle_item j"
proof (induction ops arbitrary: i es)
  case (Cons op ops)
  then obtain x k fs where op: "item_exec lc op i = Done (x, k)"
    and r: "item_run lc ops k = Done (fs, j)"
    and es: "es = (case x of None \<Rightarrow> fs | Some e \<Rightarrow> e # fs)"
    by (auto simp: go_simps split: go.splits prod.splits)
  from idle_exec [OF Cons.prems(2) _ op] Cons.prems(3) have "x = None" "idle_item k" by auto
  with Cons.IH [OF r] Cons.prems(3) es show ?case by simp
qed simp

text \<open>
  C37: A failed reset strands the item: once its error has been received by an item with nothing
  else under way, and as long as the pool neither kills nor resets it again (which only a second
  return of its identifier asks for) and docker reports no removal of the container, no history
  makes the item send the pool another event or stop the container, so the pool counts it as one
  of its items.
\<close>

theorem failed_reset_strands:
  assumes "item_ok i" "ipc i = MainLoop" "item_recv True EvResetError i = Done j"
    and "posts i = []" "children i = []" "child_sends i = [EvResetError]"
    and "\<not> starting (container i)" "start_send (container i) = None" "mon_send (container i) = None"
    and "\<not> stop_once (container i)"
    and "list_all unasked ops" "item_run lc ops j = Done (es, k)"
  shows "es = [] \<and> ipc k = MainLoop \<and> \<not> stop_once (container k)"
proof -
  have j: "j = i\<lparr>child_sends := []\<rparr>"
    using item_recv_reset_error [OF assms(3,2)] assms(6) by (simp add: take_event_def)
  have "\<not> stopping (container i)" using assms(1,10) by (auto simp: item_ok_def container_ok_def)
  with j assms have "idle_item j" by (simp add: idle_item_def)
  with idle_run [OF assms(12)] assms(11) show ?thesis by (simp add: idle_item_def)
qed

text \<open>A ready item that is reset once more, with an action that fails.\<close>

definition reset_life :: "item_op list" where
  "reset_life =
     [IJoin, IStart, IRecv False EvStart, IDoStart None (Inr no_status), IContainer CStarted,
      IChild OnChildStarted None None, IRecv True EvLive, IChild OnChildLive None None,
      IRecv True EvReady, IDeliver, IReset, IRecv False EvReset,
      IChild OnChildReset None (Some ErrRetryCountExceeded)]"

theorem failed_reset_strands_witness:
  "\<exists>i j. item_run all_flags reset_life createPoolItem = Done ([ItemReady], i)
     \<and> item_recv True EvResetError i = Done j \<and> ipc j = MainLoop \<and> \<not> stop_once (container j)"
proof -
  let ?c = "createPoolContainer\<lparr>start_once := True\<rparr>"
  let ?i = "createPoolItem\<lparr>ipc := MainLoop, child_sends := [EvResetError], container := ?c,
     emits := [EmitCreated, EmitStarted, EmitLive, EmitReady, EmitResetting]\<rparr>"
  have r: "item_run all_flags reset_life createPoolItem = Done ([ItemReady], ?i)"
    by (simp add: reset_life_def all_flags_def calls item_bodies createPoolItem_def createPoolContainer_def
        onChildStarted_def onChildLive_def onChildReset_def)
  have ok: "item_ok ?i"
    by (simp add: item_ok_def createPoolItem_def createPoolContainer_def container_ok_def posted_event_def)
  obtain j where j: "item_recv True EvResetError ?i = Done j"
    by (simp add: item_recv_def take_event_def createPoolItem_def)
  have "item_run all_flags [] j = Done ([], j)" by simp
  from failed_reset_strands [OF ok _ j _ _ _ _ _ _ _ _ this] have "ipc j = MainLoop \<and> \<not> stop_once (container j)"
    by (simp add: createPoolItem_def createPoolContainer_def)
  with r j show ?thesis by blast
qed

text \<open>
  C33: The item's drain terminates: after its exit event, whatever the goroutines of its wait
  group answer, all of them finish and the drain returns, and the pool hears nothing more.
\<close>

theorem item_drain_terminates:
  assumes "item_run lc ops createPoolItem = Done (es, i)" "ipc i = ItemDrain"
  shows "\<exists>ops' i'. list_all (drain_op answer) ops' \<and> item_run lc ops' i = Done ([], i') \<and> ipc i' = ItemDone
    \<and> children i' = [] \<and> child_sends i' = []"
proof -
  have ok: "item_ok i" using item_run_ok [OF assms(1) item_ok_create] .
  obtain ops' i' where r: "list_all (drain_op answer) ops'" "item_run lc ops' i = Done ([], i')" "ipc i' = ItemDone"
    using item_drains [OF assms(2)] by blast
  with item_run_ok [OF r(2) ok] show ?thesis by (auto simp: item_ok_def)
qed

theorem item_drain_terminates_witness:
  "\<exists>i ops' i'. item_run all_flags one_life createPoolItem = Done ([ItemReady, ItemExit], i) \<and> ipc i = ItemDrain
     \<and> item_run all_flags ops' i = Done ([], i') \<and> ipc i' = ItemDone"
proof -
  have "\<exists>i. item_run all_flags one_life createPoolItem = Done ([ItemReady, ItemExit], i) \<and> ipc i = ItemDrain"
    by (simp add: one_life_def all_flags_def calls item_bodies createPoolItem_def createPoolContainer_def
        onChildStarted_def onChildLive_def exit_event_def)
  then obtain i where i: "item_run all_flags one_life createPoolItem = Done ([ItemReady, ItemExit], i)" "ipc i = ItemDrain"
    by blast
  from item_drain_terminates [OF i, of "\<lambda>_. (None, None)"] i show ?thesis by blast
qed

section \<open>Parameters\<close>

text \<open>
  The port a client is told is the one docker published: the host port of the first binding
  of the configured TCP port, in whatever order the exposed ports are visited, as long as no
  other spelling of that port is bound; and it is empty when that port is not bound.
\<close>

theorem published_port:
  assumes "exposed_ports st = Some ps" "network_ports st = Some net"
    and "\<forall>q \<in> set ps. snd (split_proto_port q) = itoa n \<longrightarrow> q = itoa n @ ''/tcp'' \<or> tcp_binding net q = None"
  shows "TCPPortFor st n =
     (case net (itoa n @ ''/tcp'') of
        Some (b # bs) \<Rightarrow> if itoa n @ ''/tcp'' \<in> set ps then host_port b else []
      | _ \<Rightarrow> [])"
proof (cases "itoa n @ ''/tcp'' \<in> set ps \<and> (\<exists>b bs. net (itoa n @ ''/tcp'') = Some (b # bs))")
  case True
  then obtain b bs where "itoa n @ ''/tcp'' \<in> set ps" "net (itoa n @ ''/tcp'') = Some (b # bs)" by blast
  with TCPPortFor_bound [OF assms(1,2) this assms(3)] show ?thesis by simp
next
  case False
  have "tcp_binding net (itoa n @ ''/tcp'') = None \<or> itoa n @ ''/tcp'' \<notin> set ps"
    using False by (auto simp: tcp_binding_def split: option.splits list.splits)
  then have "TCPPortFor st n = []" using assms(3) by (intro TCPPortFor_unbound [OF assms(1,2)]) auto
  with False show ?thesis by (auto split: option.splits list.splits)
qed

definition pg_status :: container_json where
  "pg_status =
     \<lparr>exposed_ports = Some [''9090/udp'', ''5432/tcp''],
      network_ports = Some [''5432/tcp'' \<mapsto> [\<lparr>host_ip = ''0.0.0.0'', host_port = ''32768''\<rparr>]]\<rparr>"

theorem published_port_witness: "TCPPortFor pg_status 5432 = ''32768''"
proof -
  have n: "itoa 5432 = ''5432''" by (simp add: itoa_def show_nat.simps digit_char_def char_of_def bit_numeral_rec bit_0)
  have u: "snd (split_proto_port ''9090/udp'') \<noteq> ''5432''" by code_simp
  let ?net = "[''5432/tcp'' \<mapsto> [\<lparr>host_ip = ''0.0.0.0'', host_port = ''32768''\<rparr>]]"
  have "exposed_ports pg_status = Some [''9090/udp'', ''5432/tcp'']" "network_ports pg_status = Some ?net"
    by (simp_all add: pg_status_def)
  from published_port [OF this, of 5432] n u show ?thesis by simp
qed

text \<open>
  The url template sees every field of the parameters in a form that decodes to exactly its
  value, and rewriting the parameters for a host depends on the last host only: the host and
  url of an earlier rewriting leave no trace.
\<close>

theorem params_for_last_host:
  assumes "ForHost eng h1 p = Done (q, err)"
  shows "ForHost eng h2 q = ForHost eng h2 p
    \<and> url_unescape True (username (queryEscape q)) = Some (username p)
    \<and> url_unescape True (password (queryEscape q)) = Some (password p)
    \<and> url_unescape True (database (queryEscape q)) = Some (database p)
    \<and> url_unescape True (port (queryEscape q)) = Some (port p)
    \<and> url_unescape True (hostname (queryEscape q)) = Some h1"
proof -
  obtain u where q: "q = p\<lparr>hostname := h1, url := u\<rparr>" using ForHost_fields [OF assms] by blast
  have "username q = username p \<and> password q = password p \<and> database q = database p \<and> port q = port p
      \<and> hostname q = h1"
    by (simp add: q)
  with ForHost_again [OF assms] show ?thesis by (simp add: queryEscape_def query_roundtrip)
qed

theorem params_for_last_host_witness:
  "\<exists>p q. ForHost field_engine ''localhost'' p = Done (q, None) \<and> ForHost field_engine ''h'' q = ForHost field_engine ''h'' p"
proof -
  let ?p = "\<lparr>username = ''u'', password = ''a b&c'', database = ''d'', url = [],
    url_template = Some [TChar CHR ''/'', TField ''Password''], param_id = ''id'', hostname = [], port = ''1''\<rparr>"
  have "\<exists>q. ForHost field_engine ''localhost'' ?p = Done (q, None)"
    by (simp add: ForHost_def generateURL_def ExecuteTemplate_def field_engine_def queryEscape_def field_of_def)
  then obtain q where "ForHost field_engine ''localhost'' ?p = Done (q, None)" ..
  with params_for_last_host [OF this, of "''h''"] show ?thesis by blast
qed

end
