(* ===== verification/Lifecycle_Runner.thy ===== *)
theory Lifecycle_Runner
  imports Go_Prelude "HOL-Library.Word"
begin

text \<open>
  Running a lifecycle action with retries, \<^verbatim>\<open>lifecycle/runner.go\<close>, and the configuration it
  reads, \<^verbatim>\<open>ActionConfig\<close> of \<^verbatim>\<open>lifecycle/action.go\<close>.
\<close>

section \<open>Configuration\<close>

text \<open>Go's \<open>int\<close> and \<open>time.Duration\<close> have 64 bits; durations are in nanoseconds.\<close>

definition wrap64 :: "int \<Rightarrow> int" where
  "wrap64 x = signed_take_bit 63 x"

lemma wrap64_small: "- (2 ^ 63) \<le> x \<Longrightarrow> x < 2 ^ 63 \<Longrightarrow> wrap64 x = x"
  unfolding wrap64_def by (rule signed_take_bit_int_eq_self) simp_all

record action_config =
  ac_type :: string
  Retries :: int
  Timeout :: int
  Delay :: int

definition millis :: "int \<Rightarrow> int" where
  "millis n = n * 1000000"

definition DefaultActionConfig :: action_config where
  "DefaultActionConfig = \<lparr>ac_type = [], Retries = 3, Timeout = millis 1000, Delay = millis 500\<rparr>"

definition zero_config :: action_config where
  "zero_config = \<lparr>ac_type = [], Retries = 0, Timeout = 0, Delay = 0\<rparr>"

section \<open>What one attempt meets\<close>

text \<open>
  \<open>Answered\<close>: the action's result is received first. \<open>Expired\<close>: the attempt's context is done
  first, with its own error and that of the runner's context at that moment.
\<close>

datatype attempt_end = Answered "go_error option" | Expired go_error "go_error option"

text \<open>
  \<open>before\<close>: the error of the runner's context when the attempt starts. \<open>waiting\<close>: its error if it
  ends before the delay that follows a failed attempt. \<open>took\<close>: the duration of the attempt.
\<close>

record attempt_env =
  before :: "go_error option"
  outcome :: attempt_end
  waiting :: "go_error option"
  took :: int

text \<open>
  A context whose timeout is not positive is done when it is created; then neither of the two
  \<^theory_text>\<open>select\<close>s of \<open>doAttempt\<close> waits on \<open>ch\<close>, and the answer is not received.
\<close>

definition doAttempt :: "int \<Rightarrow> attempt_env \<Rightarrow> go_error option \<times> bool" where
  "doAttempt timeout e =
     (case outcome e of
        Answered err \<Rightarrow> if timeout \<le> 0 then (Some ErrDeadlineExceeded, True) else (err, True)
      | Expired ctx_err parent \<Rightarrow> (Some ctx_err, parent = None))"

section \<open>The loop\<close>

text \<open>The two emits, and the waits between the attempts.\<close>

datatype runner_event =
    RAttempt int int \<comment> \<open>\<open>EmitActionAttempt\<close>, with the attempt and \<open>maxAttempts\<close>\<close>
  | RResult int int "go_error option" \<comment> \<open>\<open>EmitActionResult\<close>\<close>
  | RWait int \<comment> \<open>\<open>time.After(delay)\<close> fires\<close>

function runner_loop ::
  "action_config \<Rightarrow> (int \<Rightarrow> attempt_env) \<Rightarrow> int \<Rightarrow> runner_event list \<times> go_error option" where
  "runner_loop cfg env attempt =
     (let retries = Retries cfg; maxAttempts = wrap64 (retries + 1); e = env attempt in
      case before e of
        Some err \<Rightarrow> ([RResult attempt maxAttempts (Some err)], Some err)
      | None \<Rightarrow>
          (case doAttempt (Timeout cfg) e of
             (err, ok) \<Rightarrow>
               (let evs = [RAttempt attempt maxAttempts, RResult attempt maxAttempts err] in
                if \<not> ok then (evs, err)
                else if err = None then (evs, None)
                else if retries < attempt then (evs, Some ErrRetryCountExceeded)
                else case waiting e of
                  Some werr \<Rightarrow> (evs, Some werr)
                | None \<Rightarrow>
                    (case runner_loop cfg env (attempt + 1) of
                       (rest, res) \<Rightarrow> (evs @ RWait attempt # rest, res)))))"
  by pat_completeness auto
termination
  by (relation "measure (\<lambda>(cfg, env, attempt). nat (Retries cfg + 1 - attempt))") auto

declare runner_loop.simps [simp del]

definition runner_Run ::
  "action_config \<Rightarrow> (int \<Rightarrow> attempt_env) \<Rightarrow> runner_event list \<times> go_error option" where
  "runner_Run cfg env = runner_loop cfg env 1"

section \<open>What it computes\<close>

text \<open>An attempt that is followed by another one, and one that ends the run well.\<close>

definition retried :: "action_config \<Rightarrow> (int \<Rightarrow> attempt_env) \<Rightarrow> int \<Rightarrow> bool" where
  "retried cfg env k \<longleftrightarrow>
     before (env k) = None \<and> snd (doAttempt (Timeout cfg) (env k)) \<and> fst (doAttempt (Timeout cfg) (env k)) \<noteq> None
     \<and> k \<le> Retries cfg \<and> waiting (env k) = None"

definition succeeds :: "action_config \<Rightarrow> (int \<Rightarrow> attempt_env) \<Rightarrow> int \<Rightarrow> bool" where
  "succeeds cfg env k \<longleftrightarrow> before (env k) = None \<and> doAttempt (Timeout cfg) (env k) = (None, True)"

lemma doAttempt_not_ok: "doAttempt t e = (err, False) \<Longrightarrow> err \<noteq> None"
  by (auto simp: doAttempt_def split: attempt_end.splits if_splits)

lemma runner_retried:
  "retried cfg env k \<Longrightarrow>
     runner_loop cfg env k =
       (let m = wrap64 (Retries cfg + 1) in
        ([RAttempt k m, RResult k m (fst (doAttempt (Timeout cfg) (env k)))] @ RWait k # fst (runner_loop cfg env (k + 1)),
         snd (runner_loop cfg env (k + 1))))"
  by (subst runner_loop.simps) (auto simp: retried_def Let_def split: prod.split)

lemma runner_succeeds:
  "succeeds cfg env k \<Longrightarrow>
     runner_loop cfg env k =
       (let m = wrap64 (Retries cfg + 1) in ([RAttempt k m, RResult k m None], None))"
  by (subst runner_loop.simps) (simp add: succeeds_def Let_def)

lemma runner_stops:
  assumes "\<not> retried cfg env k" "\<not> succeeds cfg env k"
  shows "snd (runner_loop cfg env k) \<noteq> None"
  using assms
  by (subst runner_loop.simps) (cases "doAttempt (Timeout cfg) (env k)",
      auto simp: retried_def succeeds_def Let_def split: option.splits dest: doAttempt_not_ok)

text \<open>The run succeeds exactly when some attempt does and every attempt before it is retried.\<close>

lemma runner_loop_success:
  "snd (runner_loop cfg env a) = None \<longleftrightarrow>
     (\<exists>k. a \<le> k \<and> succeeds cfg env k \<and> (\<forall>j. a \<le> j \<and> j < k \<longrightarrow> retried cfg env j))"
proof (induction "nat (Retries cfg + 1 - a)" arbitrary: a rule: less_induct)
  case less
  consider (s) "succeeds cfg env a" | (r) "retried cfg env a" | (n) "\<not> retried cfg env a" "\<not> succeeds cfg env a"
    by blast
  then show ?case
  proof cases
    case s
    have "snd (runner_loop cfg env a) = None" using runner_succeeds [OF s] by (simp add: Let_def)
    moreover have "a \<le> a \<and> succeeds cfg env a \<and> (\<forall>j. a \<le> j \<and> j < a \<longrightarrow> retried cfg env j)" using s by auto
    ultimately show ?thesis by blast
  next
    case r
    have ns: "\<not> succeeds cfg env a" using r by (auto simp: retried_def succeeds_def)
    have "a \<le> Retries cfg" using r by (simp add: retried_def)
    then have IH: "snd (runner_loop cfg env (a + 1)) = None \<longleftrightarrow>
        (\<exists>k. a + 1 \<le> k \<and> succeeds cfg env k \<and> (\<forall>j. a + 1 \<le> j \<and> j < k \<longrightarrow> retried cfg env j))"
      by (intro less) auto
    have eq: "snd (runner_loop cfg env a) = snd (runner_loop cfg env (a + 1))"
      using runner_retried [OF r] by (simp add: Let_def)
    have "(\<exists>k. a + 1 \<le> k \<and> succeeds cfg env k \<and> (\<forall>j. a + 1 \<le> j \<and> j < k \<longrightarrow> retried cfg env j))
        \<longleftrightarrow> (\<exists>k. a \<le> k \<and> succeeds cfg env k \<and> (\<forall>j. a \<le> j \<and> j < k \<longrightarrow> retried cfg env j))"
    proof safe
      fix k assume k: "a + 1 \<le> k" "succeeds cfg env k" "\<forall>j. a + 1 \<le> j \<and> j < k \<longrightarrow> retried cfg env j"
      have "retried cfg env j" if "a \<le> j" "j < k" for j using that r k(3) by (cases "j = a") auto
      with k show "\<exists>k. a \<le> k \<and> succeeds cfg env k \<and> (\<forall>j. a \<le> j \<and> j < k \<longrightarrow> retried cfg env j)"
        by (intro exI [of _ k]) auto
    next
      fix k assume k: "a \<le> k" "succeeds cfg env k" "\<forall>j. a \<le> j \<and> j < k \<longrightarrow> retried cfg env j"
      then have "a + 1 \<le> k" using ns by (cases "k = a") auto
      with k show "\<exists>k. a + 1 \<le> k \<and> succeeds cfg env k \<and> (\<forall>j. a + 1 \<le> j \<and> j < k \<longrightarrow> retried cfg env j)"
        by (intro exI [of _ k]) auto
    qed
    with IH eq show ?thesis by simp
  next
    case n
    have "\<not> (a \<le> k \<and> succeeds cfg env k \<and> (\<forall>j. a \<le> j \<and> j < k \<longrightarrow> retried cfg env j))" for k
      using n by (cases "k = a") auto
    then show ?thesis using runner_stops [OF n] by blast
  qed
qed

section \<open>How often, and how long\<close>

fun attempts_in :: "runner_event list \<Rightarrow> int list" where
  "attempts_in [] = []"
| "attempts_in (RAttempt k m # es) = k # attempts_in es"
| "attempts_in (_ # es) = attempts_in es"

text \<open>The time a run takes: the attempts it makes and the delays it waits for.\<close>

fun elapsed :: "action_config \<Rightarrow> (int \<Rightarrow> attempt_env) \<Rightarrow> runner_event list \<Rightarrow> int" where
  "elapsed cfg env [] = 0"
| "elapsed cfg env (RAttempt k m # es) = took (env k) + elapsed cfg env es"
| "elapsed cfg env (RWait k # es) = Delay cfg + elapsed cfg env es"
| "elapsed cfg env (RResult k m r # es) = elapsed cfg env es"

lemma stops_shape:
  assumes "\<not> retried cfg env k" "\<not> succeeds cfg env k"
  shows "\<exists>m r. fst (runner_loop cfg env k) = [RResult k m r] \<or> fst (runner_loop cfg env k) = [RAttempt k m, RResult k m r]"
  using assms
  by (subst (1 2) runner_loop.simps) (cases "doAttempt (Timeout cfg) (env k)",
      auto simp: retried_def succeeds_def Let_def split: option.splits)

text \<open>The attempts are numbered from the first one on, without a gap, up to the limit.\<close>

lemma runner_attempts:
  "\<exists>n. attempts_in (fst (runner_loop cfg env a)) = map (\<lambda>i. a + int i) [0..<n]
     \<and> int n \<le> max 1 (Retries cfg + 2 - a)"
proof (induction "nat (Retries cfg + 1 - a)" arbitrary: a rule: less_induct)
  case less
  consider (s) "succeeds cfg env a" | (r) "retried cfg env a" | (n) "\<not> retried cfg env a" "\<not> succeeds cfg env a"
    by blast
  then show ?case
  proof cases
    case s
    then show ?thesis by (intro exI [of _ 1]) (simp add: runner_succeeds Let_def)
  next
    case r
    have le: "a \<le> Retries cfg" using r by (simp add: retried_def)
    then obtain n where n: "attempts_in (fst (runner_loop cfg env (a + 1))) = map (\<lambda>i. a + 1 + int i) [0..<n]"
      "int n \<le> max 1 (Retries cfg + 2 - (a + 1))"
      using less [of "a + 1"] by auto
    have "attempts_in (fst (runner_loop cfg env a)) = a # map (\<lambda>i. a + 1 + int i) [0..<n]"
      using n(1) by (simp add: runner_retried [OF r] Let_def)
    also have "\<dots> = map (\<lambda>i. a + int i) [0..<Suc n]"
      by (simp only: upt_conv_Cons map_Suc_upt [symmetric] zero_less_Suc) (simp add: algebra_simps)
    finally show ?thesis using n(2) le by (intro exI [of _ "Suc n"]) simp
  next
    case n
    then obtain m r where "fst (runner_loop cfg env a) = [RResult a m r] \<or> fst (runner_loop cfg env a) = [RAttempt a m, RResult a m r]"
      using stops_shape by blast
    then show ?thesis by (elim disjE; intro exI [of _ 0] exI [of _ 1]) simp_all
  qed
qed

lemma runner_elapsed:
  assumes t: "\<And>k. took (env k) \<le> Timeout cfg" "0 \<le> Timeout cfg" "0 \<le> Delay cfg"
  shows "elapsed cfg env (fst (runner_loop cfg env a)) \<le> (Delay cfg + Timeout cfg) * max 1 (Retries cfg + 2 - a)"
proof (induction "nat (Retries cfg + 1 - a)" arbitrary: a rule: less_induct)
  case less
  have base: "took (env a) \<le> (Delay cfg + Timeout cfg) * max 1 (Retries cfg + 2 - a)"
  proof -
    have "Timeout cfg * 1 \<le> (Delay cfg + Timeout cfg) * max 1 (Retries cfg + 2 - a)"
      by (rule mult_mono) (use t in auto)
    with t(1) [of a] show ?thesis by simp
  qed
  have nn: "0 \<le> (Delay cfg + Timeout cfg) * max 1 (Retries cfg + 2 - a)" using t by (intro mult_nonneg_nonneg) auto
  consider (s) "succeeds cfg env a" | (r) "retried cfg env a" | (n) "\<not> retried cfg env a" "\<not> succeeds cfg env a"
    by blast
  then show ?case
  proof cases
    case s
    then show ?thesis using base by (simp add: runner_succeeds Let_def)
  next
    case r
    have le: "a \<le> Retries cfg" using r by (simp add: retried_def)
    then have IH: "elapsed cfg env (fst (runner_loop cfg env (a + 1)))
        \<le> (Delay cfg + Timeout cfg) * max 1 (Retries cfg + 2 - (a + 1))"
      by (intro less) auto
    have "elapsed cfg env (fst (runner_loop cfg env a))
        = took (env a) + (Delay cfg + elapsed cfg env (fst (runner_loop cfg env (a + 1))))"
      by (simp add: runner_retried [OF r] Let_def)
    also have "\<dots> \<le> (Delay cfg + Timeout cfg) + (Delay cfg + Timeout cfg) * (Retries cfg + 1 - a)"
    proof -
      have "max 1 (Retries cfg + 2 - (a + 1)) = Retries cfg + 1 - a" using le by simp
      then have "elapsed cfg env (fst (runner_loop cfg env (a + 1))) \<le> (Delay cfg + Timeout cfg) * (Retries cfg + 1 - a)"
        using IH by metis
      with t(1) [of a] show ?thesis by linarith
    qed
    also have "\<dots> = (Delay cfg + Timeout cfg) * max 1 (Retries cfg + 2 - a)"
      using le by (simp add: algebra_simps max_def)
    finally show ?thesis .
  next
    case n
    then obtain m r where "fst (runner_loop cfg env a) = [RResult a m r] \<or> fst (runner_loop cfg env a) = [RAttempt a m, RResult a m r]"
      using stops_shape by blast
    then show ?thesis using base nn by auto
  qed
qed
text \<open>An action whose timeout is not positive never succeeds: its attempts are over before they start.\<close>

lemma zero_timeout_never_succeeds:
  assumes "Timeout cfg \<le> 0"
  shows "snd (runner_Run cfg env) \<noteq> None"
proof
  assume "snd (runner_Run cfg env) = None"
  then obtain k where "succeeds cfg env k" unfolding runner_Run_def runner_loop_success by blast
  with assms show False by (auto simp: succeeds_def doAttempt_def split: attempt_end.splits)
qed

section \<open>Properties\<close>

text \<open>
  C13: A lifecycle action succeeds exactly when one of its at most \<open>Retries + 1\<close> attempts answers
  without an error in time and every attempt before it failed, was allowed a retry and was not
  interrupted.
\<close>

theorem runner_success_iff:
  "snd (runner_Run cfg env) = None \<longleftrightarrow>
     (\<exists>k. 1 \<le> k \<and> succeeds cfg env k \<and> (\<forall>j \<in> {1..<k}. retried cfg env j))"
  unfolding runner_Run_def runner_loop_success by auto

definition flaky :: "int \<Rightarrow> attempt_env" where
  "flaky k = \<lparr>before = None, outcome = (if k < 3 then Answered (Some (ErrExtern ''refused'')) else Answered None),
     waiting = None, took = 1\<rparr>"

theorem runner_success_iff_witness:
  "snd (runner_Run DefaultActionConfig flaky) = None \<and> length (attempts_in (fst (runner_Run DefaultActionConfig flaky))) = 3"
proof -
  have "\<forall>j \<in> {1..<3}. retried DefaultActionConfig flaky j"
  proof
    fix j :: int assume "j \<in> {1..<3}"
    then show "retried DefaultActionConfig flaky j"
      by (simp add: retried_def flaky_def doAttempt_def DefaultActionConfig_def millis_def)
  qed
  moreover have "succeeds DefaultActionConfig flaky 3"
    by (simp add: succeeds_def flaky_def doAttempt_def DefaultActionConfig_def millis_def)
  ultimately have "snd (runner_Run DefaultActionConfig flaky) = None"
    unfolding runner_success_iff by (intro exI [of _ 3]) simp
  moreover have "length (attempts_in (fst (runner_Run DefaultActionConfig flaky))) = 3" by code_simp
  ultimately show ?thesis by simp
qed

text \<open>
  C34: The attempts of a run are numbered 1, 2, 3 and so on without a gap, and there are at most
  \<open>Retries + 1\<close> of them, or at most one when \<open>Retries\<close> is negative.
\<close>

theorem runner_attempt_bound:
  "\<exists>n. attempts_in (fst (runner_Run cfg env)) = map (\<lambda>i. 1 + int i) [0..<n] \<and> int n \<le> max 1 (Retries cfg + 1)"
  using runner_attempts [of cfg env 1] by (simp add: runner_Run_def add.commute)

end
