(* ===== verification/Json_Values.thy ===== *)
theory Json_Values
  imports Go_Strings Lifecycle_Runner
begin

text \<open>
  JSON values, and what the program does with them through \<^verbatim>\<open>encoding/json\<close> and
  \<^verbatim>\<open>jsonparser\<close>. A text is represented by the value it denotes; members of an object
  keep their order and duplicates. Strings are sequences of bytes; letters are folded as in ASCII.
\<close>

section \<open>Values\<close>

datatype json =
    JNull
  | JBool bool
  | JInt int
  | JFrac string \<comment> \<open>a number literal with a fraction or an exponent\<close>
  | JStr string
  | JArr "json list"
  | JObj "(string \<times> json) list"

definition to_lower :: "char \<Rightarrow> char" where
  "to_lower c = (let n = of_char c :: nat in if 65 \<le> n \<and> n \<le> 90 then char_of (n + 32) else c)"

definition ToLower :: "string \<Rightarrow> string" where
  "ToLower s = map to_lower s"

text \<open>\<^verbatim>\<open>jsonparser.Get\<close>: the first member with that exact name, or the key-path error.\<close>

definition json_get :: "json \<Rightarrow> string \<Rightarrow> go_error + json" where
  "json_get j key =
     (case j of
        JObj ms \<Rightarrow> (case map_of ms key of None \<Rightarrow> Inl ErrKeyPathNotFound | Some v \<Rightarrow> Inr v)
      | _ \<Rightarrow> Inl ErrKeyPathNotFound)"

definition json_get_string :: "json \<Rightarrow> string \<Rightarrow> go_error + string" where
  "json_get_string j key =
     (case json_get j key of
        Inl e \<Rightarrow> Inl e
      | Inr (JStr s) \<Rightarrow> Inr s
      | Inr _ \<Rightarrow> Inl (ErrText ''Value is not a string''))"

text \<open>
  \<^verbatim>\<open>jsonparser.GetInt\<close> computes digit by digit in 64 bits and does not check the range, so a literal
  of any length is a number modulo the word.
\<close>

definition json_get_int :: "json \<Rightarrow> string \<Rightarrow> go_error + int" where
  "json_get_int j key =
     (case json_get j key of
        Inl e \<Rightarrow> Inl e
      | Inr (JInt n) \<Rightarrow> Inr (wrap64 n)
      | Inr (JFrac s) \<Rightarrow> Inl (ErrText ''Value is malformed'')
      | Inr _ \<Rightarrow> Inl (ErrText ''Value is not a number''))"

section \<open>\<^verbatim>\<open>json.Unmarshal\<close>\<close>

definition json_error :: go_error where
  "json_error = ErrExtern ''json''"

text \<open>
  Into a struct: each member in turn is stored in the field whose name it equals up to case, if
  there is one. \<open>set\<close> stores a value in a field; \<open>None\<close> is a value of the wrong type, which is
  remembered while the rest is still stored.
\<close>

fun unmarshal_members ::
  "(string \<Rightarrow> json \<Rightarrow> 'r \<Rightarrow> 'r option) \<Rightarrow> (string \<times> json) list \<Rightarrow> 'r \<Rightarrow> 'r \<times> bool" where
  "unmarshal_members set_fld [] r = (r, True)"
| "unmarshal_members set_fld ((k, v) # ms) r =
     (case set_fld (ToLower k) v r of
        Some r' \<Rightarrow> unmarshal_members set_fld ms r'
      | None \<Rightarrow> (fst (unmarshal_members set_fld ms r), False))"

definition unmarshal_struct ::
  "(string \<Rightarrow> json \<Rightarrow> 'r \<Rightarrow> 'r option) \<Rightarrow> json \<Rightarrow> 'r \<Rightarrow> 'r \<times> go_error option" where
  "unmarshal_struct set_fld j r =
     (case j of
        JObj ms \<Rightarrow> (case unmarshal_members set_fld ms r of (r', ok) \<Rightarrow> (r', if ok then None else Some json_error))
      | JNull \<Rightarrow> (r, None)
      | _ \<Rightarrow> (r, Some json_error))"

text \<open>Storing into a string, an \<open>int\<close> and a slice of strings; a null changes nothing.\<close>

definition store_string :: "json \<Rightarrow> string \<Rightarrow> string option" where
  "store_string v old = (case v of JStr s \<Rightarrow> Some s | JNull \<Rightarrow> Some old | _ \<Rightarrow> None)"

definition store_int :: "json \<Rightarrow> int \<Rightarrow> int option" where
  "store_int v old =
     (case v of
        JInt n \<Rightarrow> if - (2 ^ 63) \<le> n \<and> n < 2 ^ 63 then Some n else None
      | JNull \<Rightarrow> Some old
      | _ \<Rightarrow> None)"

definition unmarshal_strings :: "json \<Rightarrow> go_error + string list" where
  "unmarshal_strings j =
     (case j of
        JArr vs \<Rightarrow>
          if list_all (\<lambda>v. store_string v [] \<noteq> None) vs
          then Inr (map (\<lambda>v. the (store_string v [])) vs) else Inl json_error
      | JNull \<Rightarrow> Inr []
      | _ \<Rightarrow> Inl json_error)"

section \<open>Facts\<close>

lemma json_get_obj [simp]:
  "json_get (JObj ms) k = (case map_of ms k of None \<Rightarrow> Inl ErrKeyPathNotFound | Some v \<Rightarrow> Inr v)"
  by (simp add: json_get_def)

lemma json_get_error: "json_get j k = Inl e \<Longrightarrow> e = ErrKeyPathNotFound"
  by (auto simp: json_get_def split: json.splits option.splits)

lemma unmarshal_members_skip:
  "(\<forall>(k, v) \<in> set ms. set_fld (ToLower k) v r = Some r) \<Longrightarrow> unmarshal_members set_fld ms r = (r, True)"
  by (induction ms) auto

lemma unmarshal_strings_map [simp]: "unmarshal_strings (JArr (map JStr xs)) = Inr xs"
  by (simp add: unmarshal_strings_def store_string_def list_all_iff comp_def)

end
