(* ===== verification/Lifecycle_Actions.thy ===== *)
theory Lifecycle_Actions
  imports Json_Values Item_Params
begin

text \<open>
  The actions a pool can be configured with: \<^verbatim>\<open>lifecycle/action.go\<close>, the plugins
  \<^verbatim>\<open>noop\<close>, \<^verbatim>\<open>tcp.connect\<close>, \<^verbatim>\<open>http.get\<close> and \<^verbatim>\<open>exec\<close> beside it, and those of
  \<^verbatim>\<open>builtin/postgres\<close> and \<^verbatim>\<open>builtin/redis\<close>: how each reads its configuration, and what
  it does around its calls of the network, the operating system or a database.
  \<open>ParseDuration\<close> stands for \<^verbatim>\<open>time.ParseDuration\<close>.
\<close>

section \<open>Actions\<close>

datatype 't action =
    ActionNoop action_config
  | ActionTCPConnect action_config
  | ActionHttpGet action_config string "'t option"
  | ActionExec action_config string "string list" "string list" string \<comment> \<open>path, args, env, dir\<close>
  | ActionPGExec action_config string "string list" \<comment> \<open>query, params\<close>
  | ActionPGPing action_config
  | ActionPGTruncate action_config "string list" \<comment> \<open>exclude\<close>
  | ActionRedisExec action_config string \<comment> \<open>command\<close>

fun Config :: "'t action \<Rightarrow> action_config" where
  "Config (ActionNoop c) = c"
| "Config (ActionTCPConnect c) = c"
| "Config (ActionHttpGet c u t) = c"
| "Config (ActionExec c p as es d) = c"
| "Config (ActionPGExec c q ps) = c"
| "Config (ActionPGPing c) = c"
| "Config (ActionPGTruncate c xs) = c"
| "Config (ActionRedisExec c cmd) = c"

section \<open>\<open>ActionConfig.UnmarshalJSON\<close>\<close>

type_synonym durations = "string \<Rightarrow> go_error + int"

definition parseError :: "string \<Rightarrow> go_error \<Rightarrow> go_error" where
  "parseError field err = ErrField field err"

text \<open>The anonymous struct the method decodes into.\<close>

record raw_config =
  raw_type :: string
  raw_retries :: int
  raw_timeout :: string
  raw_delay :: string

definition set_raw :: "string \<Rightarrow> json \<Rightarrow> raw_config \<Rightarrow> raw_config option" where
  "set_raw k v r =
     (if k = ''type'' then map_option (\<lambda>s. r\<lparr>raw_type := s\<rparr>) (store_string v (raw_type r))
      else if k = ''retries'' then map_option (\<lambda>n. r\<lparr>raw_retries := n\<rparr>) (store_int v (raw_retries r))
      else if k = ''timeout'' then map_option (\<lambda>s. r\<lparr>raw_timeout := s\<rparr>) (store_string v (raw_timeout r))
      else if k = ''delay'' then map_option (\<lambda>s. r\<lparr>raw_delay := s\<rparr>) (store_string v (raw_delay r))
      else Some r)"

definition UnmarshalJSON :: "durations \<Rightarrow> json \<Rightarrow> action_config \<Rightarrow> go_error + action_config" where
  "UnmarshalJSON ParseDuration buf ac =
     (case unmarshal_struct set_raw buf
             \<lparr>raw_type = [], raw_retries = Retries ac, raw_timeout = [], raw_delay = []\<rparr> of
        (_, Some err) \<Rightarrow> Inl err
      | (other, None) \<Rightarrow>
          (let ac1 = ac\<lparr>ac_type := raw_type other, Retries := raw_retries other\<rparr> in
           case (if raw_timeout other = [] then Inr (Timeout ac1) else ParseDuration (raw_timeout other)) of
             Inl err \<Rightarrow> Inl (parseError ''timeout'' err)
           | Inr timeout \<Rightarrow>
               (case (if raw_delay other = [] then Inr (Delay ac1) else ParseDuration (raw_delay other)) of
                  Inl err \<Rightarrow> Inl (parseError ''delay'' err)
                | Inr delay \<Rightarrow> Inr (ac1\<lparr>Timeout := timeout, Delay := delay\<rparr>))))"

section \<open>The plugins' parsers\<close>

text \<open>
  \<^verbatim>\<open>json.Unmarshal\<close> of a whole action calls the method its embedded \<open>ActionConfig\<close>
  promotes, so it decodes the configuration and none of the action's own fields.
\<close>

definition optional_string :: "json \<Rightarrow> string \<Rightarrow> string \<Rightarrow> go_error + string" where
  "optional_string buf key dflt =
     (case json_get_string buf key of
        Inr v \<Rightarrow> Inr v
      | Inl e \<Rightarrow> if e = ErrKeyPathNotFound then Inr dflt else Inl e)"

definition optional_array :: "json \<Rightarrow> string \<Rightarrow> go_error \<Rightarrow> go_error + string list" where
  "optional_array buf key bad_type =
     (case json_get buf key of
        Inr (JArr vs) \<Rightarrow> unmarshal_strings (JArr vs)
      | Inr _ \<Rightarrow> Inl bad_type
      | Inl e \<Rightarrow> if e = ErrKeyPathNotFound then Inr [] else Inl e)"

definition actionNoopParse :: "durations \<Rightarrow> json \<Rightarrow> go_error + 't action" where
  "actionNoopParse pd buf = map_sum id ActionNoop (UnmarshalJSON pd buf zero_config)"

definition actionTCPConnectParse :: "durations \<Rightarrow> json \<Rightarrow> go_error + 't action" where
  "actionTCPConnectParse pd buf = map_sum id ActionTCPConnect (UnmarshalJSON pd buf DefaultActionConfig)"

definition actionHttpGetParse :: "'t engine \<Rightarrow> durations \<Rightarrow> json \<Rightarrow> go_error + 't action" where
  "actionHttpGetParse eng pd buf =
     (case UnmarshalJSON pd buf DefaultActionConfig of
        Inl err \<Rightarrow> Inl err
      | Inr ac \<Rightarrow>
          (case optional_string buf ''url'' [] of
             Inl err \<Rightarrow> Inl err
           | Inr u \<Rightarrow>
               if u \<noteq> [] then
                 (case template_parse eng u of
                    Inl err \<Rightarrow> Inl err
                  | Inr tmpl \<Rightarrow> Inr (ActionHttpGet ac u (Some tmpl)))
               else Inr (ActionHttpGet ac u None)))"

definition actionExecParse :: "durations \<Rightarrow> json \<Rightarrow> go_error + 't action" where
  "actionExecParse pd buf =
     (case UnmarshalJSON pd buf (DefaultActionConfig\<lparr>Timeout := millis 5000\<rparr>) of
        Inl err \<Rightarrow> Inl err
      | Inr ac \<Rightarrow>
          (case json_get_string buf ''path'' of
             Inl err \<Rightarrow> Inl (if err = ErrKeyPathNotFound then ErrText ''exec: no path given'' else err)
           | Inr path \<Rightarrow>
               (case optional_array buf ''args'' (ErrText ''exec: args bad type'') of
                  Inl err \<Rightarrow> Inl err
                | Inr args \<Rightarrow>
                    (case optional_array buf ''env'' (ErrText ''exec: args bad type'') of
                       Inl err \<Rightarrow> Inl err
                     | Inr env \<Rightarrow>
                         (case optional_string buf ''dir'' [] of
                            Inl err \<Rightarrow> Inl err
                          | Inr dir \<Rightarrow> Inr (ActionExec ac path args env dir))))))"

definition pg_default_config :: action_config where
  "pg_default_config = \<lparr>ac_type = [], Retries = 10, Timeout = millis 1000, Delay = millis 500\<rparr>"

text \<open>\<open>json.Unmarshal(buf, action.Params)\<close> passes a slice, not a pointer: always an error.\<close>

definition actionPGExecParse :: "durations \<Rightarrow> json \<Rightarrow> go_error + 't action" where
  "actionPGExecParse pd buf =
     (case UnmarshalJSON pd buf pg_default_config of
        Inl err \<Rightarrow> Inl err
      | Inr ac \<Rightarrow>
          (case optional_string buf ''query'' ''SELECT 1 = 1'' of
             Inl err \<Rightarrow> Inl err
           | Inr query \<Rightarrow>
               (case json_get buf ''params'' of
                  Inr (JArr vs) \<Rightarrow> Inl (ErrExtern ''json: Unmarshal(non-pointer []string)'')
                | Inr _ \<Rightarrow> Inl (ErrText ''postgres.exec: bad params type'')
                | Inl e \<Rightarrow> if e = ErrKeyPathNotFound then Inr (ActionPGExec ac query []) else Inl e)))"

definition actionPGPingParse :: "durations \<Rightarrow> json \<Rightarrow> go_error + 't action" where
  "actionPGPingParse pd buf = map_sum id ActionPGPing (UnmarshalJSON pd buf pg_default_config)"

definition actionPGTruncateParse :: "durations \<Rightarrow> json \<Rightarrow> go_error + 't action" where
  "actionPGTruncateParse pd buf =
     (case UnmarshalJSON pd buf pg_default_config of
        Inl err \<Rightarrow> Inl err
      | Inr ac \<Rightarrow>
          (case json_get buf ''exclude'' of
             Inr (JArr vs) \<Rightarrow> map_sum id (ActionPGTruncate ac) (unmarshal_strings (JArr vs))
           | Inr (JStr s) \<Rightarrow> Inr (ActionPGTruncate ac [s])
           | Inr _ \<Rightarrow> Inl (ErrText ''postgres.truncate: exclude: bad type'')
           | Inl e \<Rightarrow> if e = ErrKeyPathNotFound then Inr (ActionPGTruncate ac []) else Inl e))"

definition parseRedisExec :: "durations \<Rightarrow> string \<Rightarrow> json \<Rightarrow> go_error + 't action" where
  "parseRedisExec pd command buf =
     map_sum id (\<lambda>ac. ActionRedisExec ac command) (UnmarshalJSON pd buf DefaultActionConfig)"

definition actionRedisExecParse :: "durations \<Rightarrow> json \<Rightarrow> go_error + 't action" where
  "actionRedisExecParse pd buf = parseRedisExec pd ''PING'' buf"

definition actionRedisTruncateParse :: "durations \<Rightarrow> json \<Rightarrow> go_error + 't action" where
  "actionRedisTruncateParse pd buf = parseRedisExec pd ''FLUSHALL'' buf"

section \<open>The registry\<close>

text \<open>The plugins that the \<open>init\<close> functions register, and their look-up.\<close>

definition lookupPlugin :: "'t engine \<Rightarrow> durations \<Rightarrow> string \<Rightarrow> go_error + (json \<Rightarrow> go_error + 't action)" where
  "lookupPlugin eng pd name =
     (case map_of
        [(''noop'', actionNoopParse pd), (''tcp.connect'', actionTCPConnectParse pd),
         (''http.get'', actionHttpGetParse eng pd), (''exec'', actionExecParse pd),
         (''postgres.exec'', actionPGExecParse pd), (''postgres.ping'', actionPGPingParse pd),
         (''postgres.truncate'', actionPGTruncateParse pd), (''redis.exec'', actionRedisExecParse pd),
         (''redis.ping'', actionRedisExecParse pd), (''redis.truncate'', actionRedisTruncateParse pd)] name of
        Some p \<Rightarrow> Inr p
      | None \<Rightarrow> Inl (ErrText (''action plugin '' @ [CHR 0x27] @ name @ [CHR 0x27] @ '' not found'')))"

definition ParseAction :: "'t engine \<Rightarrow> durations \<Rightarrow> json \<Rightarrow> go_error + 't action" where
  "ParseAction eng pd buf =
     (case json_get_string buf ''type'' of
        Inl err \<Rightarrow> Inl (parseError ''type'' err)
      | Inr t \<Rightarrow> (case lookupPlugin eng pd t of Inl err \<Rightarrow> Inl err | Inr p \<Rightarrow> p buf))"

section \<open>What the actions do\<close>

definition actionNoop_Do :: "'t params \<Rightarrow> go_error option" where
  "actionNoop_Do p = None"

text \<open>After a failed dial the connection is nil, and its \<open>Close\<close> is deferred all the same.\<close>

definition actionTCPConnect_Do :: "go_error option \<Rightarrow> go_error option go" where
  "actionTCPConnect_Do dial = (case dial of Some _ \<Rightarrow> Panic | None \<Rightarrow> Done None)"

text \<open>\<open>fetch\<close>: the outcome of making the request, sending it and reading the body.\<close>

definition actionHttpGet_Do ::
  "'t engine \<Rightarrow> (string \<Rightarrow> go_error option) \<Rightarrow> 't option \<Rightarrow> 't params \<Rightarrow> go_error option" where
  "actionHttpGet_Do eng fetch tmpl p =
     (case (case tmpl of None \<Rightarrow> Inr (url p) | Some t \<Rightarrow> template_execute eng t p) of
        Inl err \<Rightarrow> Some err
      | Inr u \<Rightarrow> if u = [] then Some (ErrText ''http.get: no url found'') else fetch u)"

text \<open>The environment of the command, and the command's outcome \<open>exec\<close>.\<close>

fun interpolate_all :: "'t engine \<Rightarrow> 't params \<Rightarrow> string list \<Rightarrow> string list \<Rightarrow> (go_error + string list) go" where
  "interpolate_all eng p [] acc = Done (Inr acc)"
| "interpolate_all eng p (text # texts) acc =
     (case Interpolate eng p text of
        Done (Inr v) \<Rightarrow> interpolate_all eng p texts (acc @ [v])
      | Done (Inl err) \<Rightarrow> Done (Inl err)
      | Blocked \<Rightarrow> Blocked
      | Panic \<Rightarrow> Panic)"

definition exec_base_env :: "'t params \<Rightarrow> string list" where
  "exec_base_env p =
     [''EPHEMERALD_ID='' @ param_id p, ''EPHEMERALD_HOSTNAME='' @ hostname p,
      ''EPHEMERALD_PORT='' @ port p, ''EPHEMERALD_USERNAME='' @ username p,
      ''EPHEMERALD_PASSWORD='' @ password p, ''EPHEMERALD_DATABASE='' @ database p,
      ''EPHEMERALD_URL='' @ url p]"

definition actionExec_Do ::
  "'t engine \<Rightarrow> (string list \<Rightarrow> go_error option) \<Rightarrow> string list \<Rightarrow> 't params \<Rightarrow> go_error option go" where
  "actionExec_Do eng exec env p =
     go_map (\<lambda>r. case r of Inl err \<Rightarrow> Some err | Inr e \<Rightarrow> exec e)
       (interpolate_all eng p env (exec_base_env p))"

section \<open>Properties\<close>

text \<open>
  The configured \<open>command\<close> of \<open>redis.exec\<close> is never read: whatever the configuration says,
  the action that is built executes \<open>PING\<close>.
\<close>

theorem redis_command_ignored:
  "actionRedisExecParse pd buf = Inr a \<Longrightarrow> \<exists>ac. a = ActionRedisExec ac ''PING''"
  by (cases "UnmarshalJSON pd buf DefaultActionConfig") (auto simp: actionRedisExecParse_def parseRedisExec_def)

theorem redis_command_ignored_witness:
  "\<exists>a ac. ParseAction field_engine (\<lambda>_. Inr 0) (JObj [(''type'', JStr ''redis.exec''), (''command'', JStr ''FLUSHDB'')]) = Inr a
     \<and> a = ActionRedisExec ac ''PING''"
proof -
  let ?j = "JObj [(''type'', JStr ''redis.exec''), (''command'', JStr ''FLUSHDB'')]"
  obtain a where a: "actionRedisExecParse (\<lambda>_. Inr 0) ?j = Inr (a :: tnode list action)"
    by (simp add: actionRedisExecParse_def parseRedisExec_def UnmarshalJSON_def unmarshal_struct_def
        set_raw_def store_string_def ToLower_def to_lower_def Let_def)
  moreover have "ParseAction field_engine (\<lambda>_. Inr 0) ?j = actionRedisExecParse (\<lambda>_. Inr 0) ?j"
    by (simp add: ParseAction_def json_get_string_def lookupPlugin_def)
  ultimately show ?thesis using redis_command_ignored [OF a] by auto
qed

text \<open>
  The \<open>params\<close> of \<open>postgres.exec\<close> cannot be used: any array of them makes the whole
  configuration fail to parse.
\<close>

theorem pg_params_rejected:
  "json_get buf ''params'' = Inr (JArr vs) \<Longrightarrow> \<exists>e. actionPGExecParse pd buf = Inl e"
  by (auto simp: actionPGExecParse_def split: sum.splits)

theorem pg_params_rejected_witness:
  "\<exists>e. actionPGExecParse (\<lambda>_. Inr 0) (JObj [(''type'', JStr ''postgres.exec''), (''params'', JArr [JStr ''x''])]) = Inl e"
  by (rule pg_params_rejected [where vs = "[JStr ''x'']"]) simp

definition only_type :: "string \<Rightarrow> json" where
  "only_type t = JObj [(''type'', JStr t)]"

lemma UnmarshalJSON_only_type:
  "UnmarshalJSON pd (only_type t) ac = Inr (ac\<lparr>ac_type := t\<rparr>)"
proof -
  have l: "ToLower ''type'' = ''type''" by (simp add: ToLower_def to_lower_def)
  show ?thesis by (simp add: UnmarshalJSON_def only_type_def unmarshal_struct_def set_raw_def store_string_def l Let_def)
qed

lemma type_absent:
  "json_get (only_type t) ''url'' = Inl ErrKeyPathNotFound" "json_get (only_type t) ''path'' = Inl ErrKeyPathNotFound"
  "json_get (only_type t) ''query'' = Inl ErrKeyPathNotFound" "json_get (only_type t) ''params'' = Inl ErrKeyPathNotFound"
  "json_get (only_type t) ''exclude'' = Inl ErrKeyPathNotFound" "json_get (only_type t) ''type'' = Inr (JStr t)"
  by (simp_all add: only_type_def)

lemmas parse_only_type =
  ParseAction_def json_get_string_def type_absent lookupPlugin_def UnmarshalJSON_only_type optional_string_def
  actionNoopParse_def actionTCPConnectParse_def actionHttpGetParse_def actionExecParse_def actionPGExecParse_def
  actionPGPingParse_def actionPGTruncateParse_def parseRedisExec_def actionRedisExecParse_def
  actionRedisTruncateParse_def

text \<open>
  The defaults of every plugin: three retries, one second and half a second, ten retries for
  postgres, and none of it for \<open>noop\<close>, which starts from zero; \<open>exec\<close> needs a path.
\<close>

theorem plugin_defaults:
  "map (\<lambda>t. ParseAction eng pd (only_type t))
     [''noop'', ''tcp.connect'', ''http.get'', ''exec'', ''postgres.exec'', ''postgres.ping'',
      ''postgres.truncate'', ''redis.exec'', ''redis.ping'', ''redis.truncate''] =
   [Inr (ActionNoop (zero_config\<lparr>ac_type := ''noop''\<rparr>)),
    Inr (ActionTCPConnect (DefaultActionConfig\<lparr>ac_type := ''tcp.connect''\<rparr>)),
    Inr (ActionHttpGet (DefaultActionConfig\<lparr>ac_type := ''http.get''\<rparr>) [] None),
    Inl (ErrText ''exec: no path given''),
    Inr (ActionPGExec (pg_default_config\<lparr>ac_type := ''postgres.exec''\<rparr>) ''SELECT 1 = 1'' []),
    Inr (ActionPGPing (pg_default_config\<lparr>ac_type := ''postgres.ping''\<rparr>)),
    Inr (ActionPGTruncate (pg_default_config\<lparr>ac_type := ''postgres.truncate''\<rparr>) []),
    Inr (ActionRedisExec (DefaultActionConfig\<lparr>ac_type := ''redis.exec''\<rparr>) ''PING''),
    Inr (ActionRedisExec (DefaultActionConfig\<lparr>ac_type := ''redis.ping''\<rparr>) ''PING''),
    Inr (ActionRedisExec (DefaultActionConfig\<lparr>ac_type := ''redis.truncate''\<rparr>) ''FLUSHALL'')]"
  by (simp add: parse_only_type)

text \<open>
  A \<open>noop\<close> action configured without a timeout never succeeds, although it does nothing:
  its context is over before it starts. As a reset action it fails every returned item.
\<close>

theorem noop_never_succeeds:
  "\<exists>a. ParseAction eng pd (only_type ''noop'') = Inr a \<and> actionNoop_Do p = None
     \<and> snd (runner_Run (Config a) env) \<noteq> None"
proof -
  have "ParseAction eng pd (only_type ''noop'') = Inr (ActionNoop (zero_config\<lparr>ac_type := ''noop''\<rparr>))"
    by (simp add: parse_only_type)
  moreover have "snd (runner_Run (zero_config\<lparr>ac_type := ''noop''\<rparr>) env) \<noteq> None"
    by (rule zero_timeout_never_succeeds) (simp add: zero_config_def)
  ultimately show ?thesis by (intro exI conjI) (auto simp: actionNoop_Do_def)
qed

end
