(* ===== verification/Lifecycle_Manager.thy ===== *)
theory Lifecycle_Manager
  imports Lifecycle_Actions Pool_Item
begin

text \<open>
  The lifecycle manager of a pool, \<^verbatim>\<open>lifecycle/manager.go\<close>: the three optional actions, how
  they are read from the configuration and run for a container, and the longest time a
  container can spend in one of them, from which the pool takes its checkout timeout.
\<close>

section \<open>State and configuration\<close>

record 't manager =
  initializeAction :: "'t action option"
  healthcheckAction :: "'t action option"
  resetAction :: "'t action option"

definition NewManager :: "'t manager" where
  "NewManager = \<lparr>initializeAction = None, healthcheckAction = None, resetAction = None\<rparr>"

definition parseAction :: "'t engine \<Rightarrow> durations \<Rightarrow> json \<Rightarrow> string \<Rightarrow> go_error + 't action option" where
  "parseAction eng pd buf key =
     (case json_get buf key of
        Inl err \<Rightarrow> if err = ErrKeyPathNotFound then Inr None else Inl err
      | Inr (JObj ms) \<Rightarrow> map_sum id Some (ParseAction eng pd (JObj ms))
      | Inr _ \<Rightarrow> Inl (ErrText (''lifecycle manager: invalid config at '' @ key @ '': '')))"

text \<open>An error leaves the actions that were read before it in place.\<close>

definition manager_ParseConfig ::
  "'t engine \<Rightarrow> durations \<Rightarrow> json \<Rightarrow> 't manager \<Rightarrow> 't manager \<times> go_error option" where
  "manager_ParseConfig eng pd buf m =
     (case parseAction eng pd buf ''initialize'' of
        Inl err \<Rightarrow> (m, Some (parseError ''initialize'' err))
      | Inr i \<Rightarrow>
          (let m1 = m\<lparr>initializeAction := i\<rparr> in
           case parseAction eng pd buf ''healthcheck'' of
             Inl err \<Rightarrow> (m1, Some (parseError ''healthcheck'' err))
           | Inr h \<Rightarrow>
               (let m2 = m1\<lparr>healthcheckAction := h\<rparr> in
                case parseAction eng pd buf ''reset'' of
                  Inl err \<Rightarrow> (m2, Some (parseError ''reset'' err))
                | Inr r \<Rightarrow> (m2\<lparr>resetAction := r\<rparr>, None))))"

section \<open>Actions of a container\<close>

definition actions :: "'t manager \<Rightarrow> 't action list" where
  "actions m =
     (case initializeAction m of None \<Rightarrow> [] | Some a \<Rightarrow> [a])
     @ (case healthcheckAction m of None \<Rightarrow> [] | Some a \<Rightarrow> [a])
     @ (case resetAction m of None \<Rightarrow> [] | Some a \<Rightarrow> [a])"

text \<open>64-bit arithmetic, which wraps around.\<close>

definition action_delay :: "action_config \<Rightarrow> int" where
  "action_delay cfg = wrap64 (wrap64 (Delay cfg + Timeout cfg) * wrap64 (Retries cfg + 1))"

definition MaxDelay :: "'t manager \<Rightarrow> int" where
  "MaxDelay m =
     foldl (\<lambda>mx a. let val = action_delay (Config a) in if mx < val then val else mx) 0 (actions m)"

definition defaultCheckoutTimeout :: "'t manager \<Rightarrow> int" where
  "defaultCheckoutTimeout m = wrap64 (MaxDelay m + millis 500)"

definition flags_of :: "'t manager \<Rightarrow> lifecycle_flags" where
  "flags_of m =
     \<lparr>has_initialize = initializeAction m \<noteq> None, has_healthcheck = healthcheckAction m \<noteq> None,
      has_reset = resetAction m \<noteq> None\<rparr>"

text \<open>\<open>ForContainer\<close> copies the manager; the short identifier for the log can panic.\<close>

definition ForContainer :: "string \<Rightarrow> 't manager \<Rightarrow> 't manager go" where
  "ForContainer i m = (if length i < 12 then Panic else Done m)"

definition runAction ::
  "'t action option \<Rightarrow> (int \<Rightarrow> attempt_env) \<Rightarrow> runner_event list \<times> go_error option" where
  "runAction a env =
     (case a of
        None \<Rightarrow> ([], Some ErrActionNotConfigured)
      | Some act \<Rightarrow> runner_Run (Config act) env)"

definition DoInitialize :: "'t manager \<Rightarrow> (int \<Rightarrow> attempt_env) \<Rightarrow> runner_event list \<times> go_error option" where
  "DoInitialize m env = runAction (initializeAction m) env"

definition DoHealthcheck :: "'t manager \<Rightarrow> (int \<Rightarrow> attempt_env) \<Rightarrow> runner_event list \<times> go_error option" where
  "DoHealthcheck m env = runAction (healthcheckAction m) env"

definition DoReset :: "'t manager \<Rightarrow> (int \<Rightarrow> attempt_env) \<Rightarrow> runner_event list \<times> go_error option" where
  "DoReset m env = runAction (resetAction m) env"

section \<open>Facts\<close>

lemma foldl_max_ge:
  "mx \<le> foldl (\<lambda>mx a. let val = f a in if mx < val then val else mx) mx xs"
  "x \<in> set xs \<Longrightarrow> f x \<le> foldl (\<lambda>mx a. let val = f a in if mx < val then val else mx) (mx :: int) xs"
proof -
  show ge: "mx \<le> foldl (\<lambda>mx a. let val = f a in if mx < val then val else mx) mx xs" for mx :: int and xs
  proof (induction xs arbitrary: mx)
    case (Cons y ys)
    have "mx \<le> (let val = f y in if mx < val then val else mx)" by (simp add: Let_def)
    also have "\<dots> \<le> foldl (\<lambda>mx a. let val = f a in if mx < val then val else mx) mx (y # ys)"
      using Cons.IH by simp
    finally show ?case .
  qed simp
  show "x \<in> set xs \<Longrightarrow> f x \<le> foldl (\<lambda>mx a. let val = f a in if mx < val then val else mx) (mx :: int) xs"
  proof (induction xs arbitrary: mx)
    case (Cons y ys)
    show ?case
    proof (cases "x = y")
      case True
      have "f x \<le> (let val = f y in if mx < val then val else mx)" using True by (simp add: Let_def)
      also have "\<dots> \<le> foldl (\<lambda>mx a. let val = f a in if mx < val then val else mx) mx (y # ys)"
        using ge by simp
      finally show ?thesis .
    qed (use Cons in simp)
  qed simp
qed

lemma runAction_not_configured: "snd (runAction None env) = Some ErrActionNotConfigured"
  by (simp add: runAction_def)

section \<open>Properties\<close>

text \<open>
  C25: The checkout timeout is not shorter than a run of an action: no run of a configured action,
  with all its attempts and delays, lasts longer than \<open>MaxDelay\<close>, as long as each attempt respects
  its timeout, the configured retries, delay and timeout are not negative, and they and their
  product fit into 64 bits.
\<close>

theorem max_delay_covers:
  assumes "a \<in> set (actions m)" and "\<And>k. took (env k) \<le> Timeout (Config a)"
    and "0 \<le> Timeout (Config a)" "0 \<le> Delay (Config a)" "0 \<le> Retries (Config a)"
    and "Delay (Config a) + Timeout (Config a) < 2 ^ 63" "Retries (Config a) + 1 < 2 ^ 63"
    and "(Delay (Config a) + Timeout (Config a)) * (Retries (Config a) + 1) < 2 ^ 63"
  shows "elapsed (Config a) env (fst (runner_Run (Config a) env)) \<le> MaxDelay m"
proof -
  let ?c = "Config a"
  have "elapsed ?c env (fst (runner_loop ?c env 1)) \<le> (Delay ?c + Timeout ?c) * max 1 (Retries ?c + 2 - 1)"
    by (rule runner_elapsed) (use assms in auto)
  also have "\<dots> = (Delay ?c + Timeout ?c) * (Retries ?c + 1)" using assms(5) by (simp add: add.commute)
  also have "\<dots> = action_delay ?c"
  proof -
    have "0 \<le> (Delay ?c + Timeout ?c) * (Retries ?c + 1)" using assms(3-5) by (intro mult_nonneg_nonneg) auto
    then have "wrap64 ((Delay ?c + Timeout ?c) * (Retries ?c + 1)) = (Delay ?c + Timeout ?c) * (Retries ?c + 1)"
      using assms(8) by (intro wrap64_small) simp_all
    moreover have "wrap64 (Delay ?c + Timeout ?c) = Delay ?c + Timeout ?c" "wrap64 (Retries ?c + 1) = Retries ?c + 1"
      using assms(3-7) by (intro wrap64_small; simp)+
    ultimately show ?thesis by (simp only: action_delay_def)
  qed
  also have "\<dots> \<le> MaxDelay m"
    unfolding MaxDelay_def using assms(1) by (rule foldl_max_ge(2) [where f = "\<lambda>a. action_delay (Config a)"])
  finally show ?thesis by (simp add: runner_Run_def)
qed

definition tcp_manager :: "tnode list manager" where
  "tcp_manager = NewManager\<lparr>healthcheckAction := Some (ActionTCPConnect DefaultActionConfig)\<rparr>"

theorem max_delay_covers_witness:
  "elapsed DefaultActionConfig flaky (fst (runner_Run DefaultActionConfig flaky)) \<le> MaxDelay tcp_manager
     \<and> MaxDelay tcp_manager = millis 6000"
proof -
  have "elapsed (Config (ActionTCPConnect DefaultActionConfig :: tnode list action)) flaky
      (fst (runner_Run (Config (ActionTCPConnect DefaultActionConfig :: tnode list action)) flaky)) \<le> MaxDelay tcp_manager"
    by (rule max_delay_covers)
      (simp_all add: tcp_manager_def NewManager_def actions_def flaky_def DefaultActionConfig_def millis_def)
  moreover have "MaxDelay tcp_manager = millis 6000" by code_simp
  ultimately show ?thesis by simp
qed

text \<open>
  The configuration also accepts negative numbers. With \<open>-1\<close> retries one attempt is still made, but
  it does not count in \<open>MaxDelay\<close>.
\<close>

lemma negative_retries_uncovered:
  assumes "actions m = [a]" "Retries (Config a) = -1" "before (env 1) = None"
  shows "MaxDelay m = 0 \<and> elapsed (Config a) env (fst (runner_Run (Config a) env)) = took (env 1)"
proof -
  have "action_delay (Config a) = 0" using assms(2) by (simp add: action_delay_def wrap64_def)
  then have "MaxDelay m = 0" by (simp add: MaxDelay_def assms(1))
  moreover have "elapsed (Config a) env (fst (runner_Run (Config a) env)) = took (env 1)"
    using assms(2,3) unfolding runner_Run_def
    by (subst runner_loop.simps) (cases "doAttempt (Timeout (Config a)) (env 1)", auto simp: Let_def split: option.splits)
  ultimately show ?thesis by simp
qed

text \<open>
  C24: Reading the lifecycle configuration succeeds exactly when each of the three sections is
  absent or an object that the plugin its type names accepts.
\<close>

theorem manager_config_complete:
  "snd (manager_ParseConfig eng pd buf m) = None \<longleftrightarrow>
     (\<forall>key \<in> {''initialize'', ''healthcheck'', ''reset''}.
        json_get buf key = Inl ErrKeyPathNotFound
        \<or> (\<exists>ms a. json_get buf key = Inr (JObj ms) \<and> ParseAction eng pd (JObj ms) = Inr a))"
proof -
  have p: "(\<exists>x. parseAction eng pd buf key = Inr x) \<longleftrightarrow>
      json_get buf key = Inl ErrKeyPathNotFound
      \<or> (\<exists>ms a. json_get buf key = Inr (JObj ms) \<and> ParseAction eng pd (JObj ms) = Inr a)" for key
  proof (cases "json_get buf key")
    case (Inl e)
    then show ?thesis using json_get_error [OF Inl] by (simp add: parseAction_def)
  next
    case (Inr j)
    show ?thesis
    proof (cases j)
      case (JObj ms)
      with Inr show ?thesis by (cases "ParseAction eng pd (JObj ms)") (simp_all add: parseAction_def)
    qed (use Inr in \<open>simp_all add: parseAction_def\<close>)
  qed
  have "snd (manager_ParseConfig eng pd buf m) = None \<longleftrightarrow>
      (\<forall>key \<in> {''initialize'', ''healthcheck'', ''reset''}. \<exists>x. parseAction eng pd buf key = Inr x)"
    by (simp add: manager_ParseConfig_def Let_def split: sum.split)
  then show ?thesis unfolding p .
qed

theorem manager_config_complete_witness:
  "snd (manager_ParseConfig field_engine (\<lambda>_. Inr 0) (JObj [(''healthcheck'', only_type ''tcp.connect'')]) NewManager) = None"
proof -
  have "json_get (JObj [(''healthcheck'', only_type ''tcp.connect'')]) k = Inl ErrKeyPathNotFound
      \<or> (\<exists>ms a. json_get (JObj [(''healthcheck'', only_type ''tcp.connect'')]) k = Inr (JObj ms)
           \<and> ParseAction field_engine (\<lambda>_. Inr 0) (JObj ms) = Inr a)" for k
  proof (cases "k = ''healthcheck''")
    case True
    have "\<exists>a. ParseAction field_engine (\<lambda>_. Inr 0) (only_type ''tcp.connect'') = Inr a" by (simp add: parse_only_type)
    then show ?thesis using True by (auto simp: only_type_def)
  qed simp
  then show ?thesis unfolding manager_config_complete by blast
qed

end
