(* ===== verification/Config_Parse.thy ===== *)
theory Config_Parse
  imports Lifecycle_Manager
begin

text \<open>
  Reading the configuration of the pools: \<^verbatim>\<open>config/config.go\<close>, \<^verbatim>\<open>config/conatainer.go\<close>,
  \<^verbatim>\<open>config/builder.go\<close> and \<open>ParseConfig\<close> of \<^verbatim>\<open>params/params.go\<close>. The file system, the
  reader and the two decoders (JSON text, and YAML through its JSON image) are arguments.
\<close>

section \<open>\<open>params.ParseConfig\<close>\<close>

record raw_params =
  rp_username :: string
  rp_password :: string
  rp_database :: string
  rp_url :: string

definition set_params :: "string \<Rightarrow> json \<Rightarrow> raw_params \<Rightarrow> raw_params option" where
  "set_params k v r =
     (if k = ''username'' then map_option (\<lambda>s. r\<lparr>rp_username := s\<rparr>) (store_string v (rp_username r))
      else if k = ''password'' then map_option (\<lambda>s. r\<lparr>rp_password := s\<rparr>) (store_string v (rp_password r))
      else if k = ''database'' then map_option (\<lambda>s. r\<lparr>rp_database := s\<rparr>) (store_string v (rp_database r))
      else if k = ''url'' then map_option (\<lambda>s. r\<lparr>rp_url := s\<rparr>) (store_string v (rp_url r))
      else Some r)"

definition params_ParseConfig :: "'t engine \<Rightarrow> json \<Rightarrow> go_error + 't param_config" where
  "params_ParseConfig eng buf =
     (case unmarshal_struct set_params buf \<lparr>rp_username = [], rp_password = [], rp_database = [], rp_url = []\<rparr> of
        (_, Some err) \<Rightarrow> Inl err
      | (r, None) \<Rightarrow>
          (case template_parse eng (rp_url r) of
             Inl err \<Rightarrow> Inl err
           | Inr tmpl \<Rightarrow>
               Inr \<lparr>username = rp_username r, password = rp_password r, database = rp_database r,
                    url = rp_url r, url_template = Some tmpl\<rparr>))"

section \<open>The container section\<close>

record container_conf =
  Labels :: "string \<rightharpoonup> string"
  Env :: "string list"
  Cmd :: "string list"
  Volumes :: "string list"
  Entrypoint :: "string list"
  User :: string
  CapAdd :: "string list"
  CapDrop :: "string list"

definition NewContainer :: container_conf where
  "NewContainer =
     \<lparr>Labels = Map.empty, Env = [], Cmd = [], Volumes = [], Entrypoint = [], User = [], CapAdd = [], CapDrop = []\<rparr>"

text \<open>Decoding a slice of strings, docker's \<open>StrSlice\<close> (a string or a slice), and maps.\<close>

definition store_strings :: "json \<Rightarrow> string list option" where
  "store_strings v = (case unmarshal_strings v of Inl _ \<Rightarrow> None | Inr xs \<Rightarrow> Some xs)"

definition store_strslice :: "json \<Rightarrow> string list option" where
  "store_strslice v = (case v of JStr s \<Rightarrow> Some [s] | _ \<Rightarrow> store_strings v)"

fun store_map :: "(string \<times> json) list \<Rightarrow> (string \<rightharpoonup> string) \<Rightarrow> (string \<rightharpoonup> string) option" where
  "store_map [] m = Some m"
| "store_map ((k, v) # ms) m =
     (case store_string v [] of None \<Rightarrow> None | Some s \<Rightarrow> store_map ms (m(k \<mapsto> s)))"

definition store_labels :: "json \<Rightarrow> (string \<rightharpoonup> string) \<Rightarrow> (string \<rightharpoonup> string) option" where
  "store_labels v m = (case v of JObj ms \<Rightarrow> store_map ms m | JNull \<Rightarrow> Some Map.empty | _ \<Rightarrow> None)"

definition store_volumes :: "json \<Rightarrow> string list \<Rightarrow> string list option" where
  "store_volumes v vs =
     (case v of
        JObj ms \<Rightarrow>
          if list_all (\<lambda>(_, x). case x of JObj _ \<Rightarrow> True | JNull \<Rightarrow> True | _ \<Rightarrow> False) ms
          then Some (remdups (vs @ map fst ms)) else None
      | JNull \<Rightarrow> Some []
      | _ \<Rightarrow> None)"

definition set_container :: "string \<Rightarrow> json \<Rightarrow> container_conf \<Rightarrow> container_conf option" where
  "set_container k v c =
     (if k = ''labels'' then map_option (\<lambda>m. c\<lparr>Labels := m\<rparr>) (store_labels v (Labels c))
      else if k = ''env'' then map_option (\<lambda>x. c\<lparr>Env := x\<rparr>) (store_strings v)
      else if k = ''cmd'' then map_option (\<lambda>x. c\<lparr>Cmd := x\<rparr>) (store_strslice v)
      else if k = ''volumes'' then map_option (\<lambda>x. c\<lparr>Volumes := x\<rparr>) (store_volumes v (Volumes c))
      else if k = ''entrypoint'' then map_option (\<lambda>x. c\<lparr>Entrypoint := x\<rparr>) (store_strslice v)
      else if k = ''user'' then map_option (\<lambda>s. c\<lparr>User := s\<rparr>) (store_string v (User c))
      else if k = ''capadd'' then map_option (\<lambda>x. c\<lparr>CapAdd := x\<rparr>) (store_strslice v)
      else if k = ''capdrop'' then map_option (\<lambda>x. c\<lparr>CapDrop := x\<rparr>) (store_strslice v)
      else Some c)"

section \<open>\<open>config.Parse\<close>\<close>

record 't config =
  Name :: string
  Size :: int
  Image :: string
  Port :: int
  Container :: container_conf
  Params :: "'t param_config"
  Lifecycle :: "'t manager"

definition maxSize :: int where
  "maxSize = 200"

text \<open>An absent section reads as an empty object.\<close>

definition json_section :: "json \<Rightarrow> string \<Rightarrow> go_error + json" where
  "json_section buf key =
     (case json_get buf key of
        Inl err \<Rightarrow> if err = ErrKeyPathNotFound then Inr (JObj []) else Inl err
      | Inr j \<Rightarrow> Inr j)"

definition Parse :: "'t engine \<Rightarrow> durations \<Rightarrow> string \<Rightarrow> json \<Rightarrow> go_error + 't config" where
  "Parse eng pd name buf =
     (case json_get_int buf ''size'' of
        Inl err \<Rightarrow> Inl err
      | Inr sz \<Rightarrow>
          if sz \<le> 0 \<or> maxSize \<le> sz then
            Inl (ErrText (''invalid pool size '' @ itoa sz @ '' not in (0,'' @ itoa maxSize @ '')''))
          else case json_get_string buf ''image'' of
            Inl err \<Rightarrow> Inl err
          | Inr img \<Rightarrow>
              (case json_get_int buf ''port'' of
                 Inl err \<Rightarrow> Inl err
               | Inr prt \<Rightarrow>
                   (case json_section buf ''params'' of
                      Inl err \<Rightarrow> Inl err
                    | Inr pbuf \<Rightarrow>
                        (case params_ParseConfig eng pbuf of
                           Inl err \<Rightarrow> Inl err
                         | Inr ps \<Rightarrow>
                             (case json_section buf ''container'' of
                                Inl err \<Rightarrow> Inl err
                              | Inr cbuf \<Rightarrow>
                                  (case unmarshal_struct set_container cbuf NewContainer of
                                     (_, Some err) \<Rightarrow> Inl err
                                   | (cont, None) \<Rightarrow>
                                       (case json_section buf ''actions'' of
                                          Inl err \<Rightarrow> Inl err
                                        | Inr abuf \<Rightarrow>
                                            (case manager_ParseConfig eng pd abuf NewManager of
                                               (_, Some err) \<Rightarrow> Inl err
                                             | (m, None) \<Rightarrow>
                                                 Inr \<lparr>Name = name, Size = sz, Image = img, Port = prt,
                                                      Container = cont, Params = ps, Lifecycle = m\<rparr>))))))))"

section \<open>\<open>config.ParseAll\<close> and the files\<close>

text \<open>\<^verbatim>\<open>jsonparser.ObjectEach\<close> visits the members in order and stops at the callback's first error.\<close>

fun parse_pools ::
  "'t engine \<Rightarrow> durations \<Rightarrow> (string \<times> json) list \<Rightarrow> 't config list \<Rightarrow> 't config list \<times> go_error option" where
  "parse_pools eng pd [] configs = (configs, None)"
| "parse_pools eng pd ((key, buf) # ms) configs =
     (case Parse eng pd key buf of
        Inl err \<Rightarrow> (configs, Some err)
      | Inr c \<Rightarrow> parse_pools eng pd ms (configs @ [c]))"

definition ParseAll :: "'t engine \<Rightarrow> durations \<Rightarrow> json \<Rightarrow> 't config list \<times> go_error option" where
  "ParseAll eng pd buf =
     (case json_get buf ''pools'' of
        Inl err \<Rightarrow> ([], Some err)
      | Inr (JObj ms) \<Rightarrow> parse_pools eng pd ms []
      | Inr _ \<Rightarrow> ([], Some (ErrText ''Malformed JSON error'')))"

text \<open>\<^verbatim>\<open>path.Ext\<close>: from the last dot of the last element on.\<close>

fun ext_scan :: "string \<Rightarrow> string \<Rightarrow> string" where
  "ext_scan [] acc = []"
| "ext_scan (c # rev_prefix) acc =
     (if c = CHR ''/'' then []
      else if c = CHR ''.'' then c # acc
      else ext_scan rev_prefix (c # acc))"

definition path_ext :: "string \<Rightarrow> string" where
  "path_ext p = ext_scan (rev p) []"

definition ReadFile ::
  "'t engine \<Rightarrow> durations \<Rightarrow> (string \<Rightarrow> go_error + string) \<Rightarrow> (string \<Rightarrow> go_error + json) \<Rightarrow> (string \<Rightarrow> go_error + json)
     \<Rightarrow> string \<Rightarrow> 't config list \<times> go_error option" where
  "ReadFile eng pd read_file json_text yaml_text fpath =
     (case read_file fpath of
        Inl err \<Rightarrow> ([], Some err)
      | Inr txt \<Rightarrow>
          if path_ext fpath \<in> {''.yml'', ''.yaml''} then
            (case yaml_text txt of Inl err \<Rightarrow> ([], Some err) | Inr j \<Rightarrow> ParseAll eng pd j)
          else if path_ext fpath = ''.json'' then
            (case json_text txt of Inl err \<Rightarrow> ([], Some err) | Inr j \<Rightarrow> ParseAll eng pd j)
          else ([], Some (ErrText (''Unknown extension '' @ path_ext fpath))))"

section \<open>The builder\<close>

text \<open>The configurations that programs build themselves; the params keep their zero value.\<close>

definition NewConfig :: "string \<Rightarrow> 't config" where
  "NewConfig name =
     \<lparr>Name = name, Size = 0, Image = [], Port = 0, Container = NewContainer,
      Params = \<lparr>username = [], password = [], database = [], url = [], url_template = None\<rparr>,
      Lifecycle = NewManager\<rparr>"

definition WithImage :: "string \<Rightarrow> 't config \<Rightarrow> 't config" where
  "WithImage img c = c\<lparr>Image := img\<rparr>"

definition WithEnv :: "string \<Rightarrow> string \<Rightarrow> 't config \<Rightarrow> 't config" where
  "WithEnv name val c = c\<lparr>Container := (Container c)\<lparr>Env := Env (Container c) @ [name @ ''='' @ val]\<rparr>\<rparr>"

definition WithLabel :: "string \<Rightarrow> string \<Rightarrow> 't config \<Rightarrow> 't config" where
  "WithLabel k v c = c\<lparr>Container := (Container c)\<lparr>Labels := (Labels (Container c))(k \<mapsto> v)\<rparr>\<rparr>"

section \<open>Facts\<close>


lemma parse_pools_acc:
  "parse_pools eng pd ms acc =
     (acc @ fst (parse_pools eng pd ms []), snd (parse_pools eng pd ms []))"
proof (induction ms arbitrary: acc)
  case (Cons kb ms)
  obtain k b where kb: "kb = (k, b)" by fastforce
  show ?case
  proof (cases "Parse eng pd k b")
    case (Inr c)
    then show ?thesis using Cons.IH [of "acc @ [c]"] Cons.IH [of "[c]"] by (simp add: kb)
  qed (simp add: kb)
qed simp

text \<open>The configurations before the first error, and that error.\<close>

lemma parse_pools_spec:
  "parse_pools eng pd ms [] =
     (let rs = map (\<lambda>(k, b). Parse eng pd k b) ms in
      (map projr (takeWhile (\<lambda>r. \<not> isl r) rs), map_option projl (find isl rs)))"
proof (induction ms)
  case (Cons kb ms)
  obtain k b where kb: "kb = (k, b)" by fastforce
  show ?case
  proof (cases "Parse eng pd k b")
    case (Inr c)
    then show ?thesis using Cons.IH parse_pools_acc [of eng pd ms "[c]"] by (simp add: kb Let_def)
  qed (simp add: kb)
qed simp


section \<open>Properties\<close>


definition redis_conf :: json where
  "redis_conf = JObj [(''size'', JInt 10), (''image'', JStr ''redis''), (''port'', JInt 6379),
     (''params'', JObj [(''url'', JStr ''redis'')]), (''actions'', JObj [(''healthcheck'', only_type ''tcp.connect'')])]"


text \<open>
  Numbers that do not fit are not refused: a size or port that is too large by a multiple of
  \<open>2 ^ 64\<close> is read as the small one.
\<close>

lemma config_number_wraps: "json_get_int (JObj [(''size'', JInt (2 ^ 64 + 10))]) ''size'' = Inr 10"
  by (simp add: json_get_int_def wrap64_def)

text \<open>
  The pools of a configuration file are read in the order of the file up to the first one
  that is not accepted, whose error is the result.
\<close>

theorem parse_all_in_order:
  "json_get buf ''pools'' = Inr (JObj ms) \<Longrightarrow>
     ParseAll eng pd buf =
       (let rs = map (\<lambda>(k, b). Parse eng pd k b) ms in
        (map projr (takeWhile (\<lambda>r. \<not> isl r) rs), map_option projl (find isl rs)))"
  by (simp add: ParseAll_def parse_pools_spec)

theorem parse_all_in_order_witness:
  "snd (ParseAll field_engine (\<lambda>_. Inr 0)
     (JObj [(''pools'', JObj [(''a'', redis_conf), (''b'', JObj [(''size'', JInt 200)])])])) \<noteq> None"
proof -
  have "(case Parse field_engine (\<lambda>_. Inr 0) ''a'' redis_conf of Inl _ \<Rightarrow> False | Inr _ \<Rightarrow> True)" by code_simp
  then have a: "\<not> isl (Parse field_engine (\<lambda>_. Inr 0) ''a'' redis_conf)" by (simp add: isl_def split: sum.splits)
  have "(case Parse field_engine (\<lambda>_. Inr 0) ''b'' (JObj [(''size'', JInt 200)]) of Inl _ \<Rightarrow> True | Inr _ \<Rightarrow> False)"
    by code_simp
  then have b: "isl (Parse field_engine (\<lambda>_. Inr 0) ''b'' (JObj [(''size'', JInt 200)]))" by (simp add: isl_def split: sum.splits)
  have "json_get (JObj [(''pools'', JObj [(''a'', redis_conf), (''b'', JObj [(''size'', JInt 200)])])]) ''pools''
      = Inr (JObj [(''a'', redis_conf), (''b'', JObj [(''size'', JInt 200)])])"
    by simp
  from parse_all_in_order [OF this, of field_engine "\<lambda>_. Inr 0"] a b show ?thesis by (simp add: Let_def)
qed

end
