(* ===== verification/Pool_Set.thy ===== *)
theory Pool_Set
  imports Item_Params
begin

text \<open>
  A set of named pools, \<^verbatim>\<open>poolset.go\<close>. Its operations start one goroutine per pool and
  collect their answers from a channel; the order in which the answers arrive is an argument.
\<close>

section \<open>State\<close>

text \<open>The pools by name; a name is bound once. \<open>'q\<close> is what the set keeps of a pool.\<close>

type_synonym 'q pool_map = "string \<rightharpoonup> 'q"

text \<open>A set of checked-out parameters, \<^verbatim>\<open>params.Set\<close>.\<close>

type_synonym 'p param_set = "string \<rightharpoonup> 'p"

section \<open>Creation\<close>

text \<open>
  \<open>NewPoolSet\<close>: \<open>create\<close> answers for each configuration. After the first failure the pools
  that are in the map are stopped; the result is the map or the error, and the names stopped.
\<close>

fun create_pools :: "('c \<Rightarrow> go_error + 'q) \<Rightarrow> (string \<times> 'c) list \<Rightarrow> 'q pool_map \<Rightarrow> 'q pool_map \<times> go_error option" where
  "create_pools create [] ps = (ps, None)"
| "create_pools create ((n, c) # cs) ps =
     (case create c of
        Inl err \<Rightarrow> (ps, Some err)
      | Inr q \<Rightarrow> create_pools create cs (ps(n \<mapsto> q)))"

definition NewPoolSet ::
  "('c \<Rightarrow> go_error + 'q) \<Rightarrow> (string \<times> 'c) list \<Rightarrow> (go_error + 'q pool_map) \<times> string set" where
  "NewPoolSet create configs =
     (case create_pools create configs Map.empty of
        (ps, None) \<Rightarrow> (Inr ps, {})
      | (ps, Some err) \<Rightarrow> (Inl err, dom ps))"

section \<open>Checkout\<close>

text \<open>All the pools when no name is given; a name without a pool is skipped.\<close>

definition poolsForCheckout :: "string list \<Rightarrow> 'q pool_map \<Rightarrow> 'q pool_map" where
  "poolsForCheckout names ps =
     (if names = [] then ps
      else foldl (\<lambda>m n. case ps n of None \<Rightarrow> m | Some q \<Rightarrow> m(n \<mapsto> q)) Map.empty names)"

text \<open>The loop over the answers: the parameters by name, and the errors in order of arrival.\<close>

fun collect_answers ::
  "(string \<times> (go_error + 'p)) list \<Rightarrow> 'p param_set \<Rightarrow> go_error list \<Rightarrow> 'p param_set \<times> go_error list" where
  "collect_answers [] st errs = (st, errs)"
| "collect_answers ((n, Inl err) # as) st errs = collect_answers as st (errs @ [err])"
| "collect_answers ((n, Inr p) # as) st errs = collect_answers as (st(n \<mapsto> p)) errs"

text \<open>
  \<open>CheckoutWith\<close>: the result, and the parameters handed back by \<open>ReturnAll\<close> to their pools.
\<close>

definition set_CheckoutWith ::
  "(string \<times> (go_error + 'p)) list \<Rightarrow> (go_error + 'p param_set) \<times> 'p param_set" where
  "set_CheckoutWith answers =
     (case collect_answers answers Map.empty [] of
        (st, err # _) \<Rightarrow> (Inl err, st)
      | (st, []) \<Rightarrow> (Inr st, Map.empty))"

text \<open>The answers that can arrive: one per selected pool, each that of its pool.\<close>

definition answers_of ::
  "('q \<Rightarrow> go_error + 'p) \<Rightarrow> string list \<Rightarrow> 'q pool_map \<Rightarrow> (string \<times> (go_error + 'p)) list \<Rightarrow> bool" where
  "answers_of checkout names ps as \<longleftrightarrow>
     distinct (map fst as) \<and> set (map fst as) = dom (poolsForCheckout names ps)
     \<and> list_all (\<lambda>(n, r). case poolsForCheckout names ps n of None \<Rightarrow> False | Some q \<Rightarrow> r = checkout q) as"

section \<open>Return, readiness and stop\<close>

text \<open>An item goes to the pool of that name, if there is one. \<open>give\<close> is the pool's \<open>Return\<close>.\<close>

definition set_Return :: "('p \<Rightarrow> 'q \<Rightarrow> 'q) \<Rightarrow> string \<Rightarrow> 'p \<Rightarrow> 'q pool_map \<Rightarrow> 'q pool_map" where
  "set_Return give name item ps =
     (case ps name of None \<Rightarrow> ps | Some q \<Rightarrow> ps(name \<mapsto> give item q))"

definition set_ReturnAll :: "('p \<Rightarrow> 'q \<Rightarrow> 'q) \<Rightarrow> (string \<times> 'p) list \<Rightarrow> 'q pool_map \<Rightarrow> 'q pool_map" where
  "set_ReturnAll give items ps = foldl (\<lambda>m (n, p). set_Return give n p m) ps items"

text \<open>\<open>WaitReady\<close> waits for every pool and answers with the error that arrived first.\<close>

fun first_error :: "go_error option list \<Rightarrow> go_error option \<Rightarrow> go_error option" where
  "first_error [] err = err"
| "first_error (r # rs) err =
     first_error rs (case r of None \<Rightarrow> err | Some e \<Rightarrow> (case err of None \<Rightarrow> Some e | Some e' \<Rightarrow> Some e'))"

definition set_WaitReady :: "go_error option list \<Rightarrow> go_error option" where
  "set_WaitReady answers = first_error answers None"

definition set_Stop :: "('q \<Rightarrow> 'q) \<Rightarrow> 'q pool_map \<Rightarrow> 'q pool_map" where
  "set_Stop stop ps = (\<lambda>n. map_option stop (ps n))"

section \<open>Facts\<close>

lemma foldl_pools:
  "foldl (\<lambda>m n. case ps n of None \<Rightarrow> m | Some q \<Rightarrow> m(n \<mapsto> q)) m0 names k =
     (if k \<in> set names \<and> k \<in> dom ps then ps k else m0 k)"
  by (induction names arbitrary: m0) (auto split: option.splits)

lemma poolsForCheckout_names:
  "poolsForCheckout names ps = (if names = [] then ps else ps |` set names)"
  by (auto simp: poolsForCheckout_def fun_eq_iff foldl_pools restrict_map_def domIff)

lemma collect_answers_spec:
  "distinct (map fst as) \<Longrightarrow> \<forall>n \<in> set (map fst as). st n = None \<Longrightarrow>
     collect_answers as st errs =
       (\<lambda>n. case map_of as n of Some (Inr p) \<Rightarrow> Some p | _ \<Rightarrow> st n, errs @ map projl (filter isl (map snd as)))"
proof (induction as arbitrary: st errs)
  case Nil
  then show ?case by (simp add: fun_eq_iff)
next
  case (Cons a as)
  obtain n r where a: "a = (n, r)" by fastforce
  have n: "n \<notin> fst ` set as" using Cons.prems a by auto
  then have m: "map_of as n = None" by (simp add: map_of_eq_None_iff)
  show ?case
  proof (cases r)
    case (Inl e)
    have "collect_answers as st (errs @ [e]) =
       (\<lambda>n. case map_of as n of Some (Inr p) \<Rightarrow> Some p | _ \<Rightarrow> st n, (errs @ [e]) @ map projl (filter isl (map snd as)))"
      using Cons.prems a by (intro Cons.IH) auto
    with Inl a m Cons.prems show ?thesis by (auto simp: fun_eq_iff)
  next
    case (Inr p)
    have "collect_answers as (st(n \<mapsto> p)) errs =
       (\<lambda>k. case map_of as k of Some (Inr p) \<Rightarrow> Some p | _ \<Rightarrow> (st(n \<mapsto> p)) k, errs @ map projl (filter isl (map snd as)))"
      using Cons.prems a n by (intro Cons.IH) auto
    with Inr a m show ?thesis by (auto simp: fun_eq_iff split: option.splits sum.splits)
  qed
qed

lemma first_error_some: "first_error rs (Some e) = Some e"
  by (induction rs) (auto split: option.splits)

lemma first_error_None: "first_error rs None = None \<longleftrightarrow> (\<forall>r \<in> set rs. r = None)"
  by (induction rs) (auto simp: first_error_some split: option.splits)

lemma create_pools_ok:
  "create_pools create cs ps = (ps', None) \<longleftrightarrow>
     (\<forall>(n, c) \<in> set cs. \<not> isl (create c)) \<and> ps' = ps ++ map_of (rev (map (\<lambda>(n, c). (n, projr (create c))) cs))"
proof (induction cs arbitrary: ps)
  case (Cons nc cs)
  obtain n c where nc: "nc = (n, c)" by fastforce
  show ?case using Cons.IH by (cases "create c") (auto simp: nc map_add_def fun_eq_iff split: option.splits)
qed auto

lemma answers_map_of:
  assumes "answers_of checkout names ps as"
  shows "map_of as n = map_option checkout (poolsForCheckout names ps n)"
proof (cases "poolsForCheckout names ps n")
  case None
  then have "n \<notin> fst ` set as" using assms by (auto simp: answers_of_def)
  then have "map_of as n = None" by (simp add: map_of_eq_None_iff)
  with None show ?thesis by simp
next
  case (Some q)
  then have "n \<in> fst ` set as" using assms by (auto simp: answers_of_def)
  then obtain r where r: "(n, r) \<in> set as" by auto
  then have "map_of as n = Some r" using assms by (simp add: answers_of_def)
  moreover have "r = checkout q" using r Some assms by (auto simp: answers_of_def list_all_iff)
  ultimately show ?thesis using Some by simp
qed

section \<open>Properties\<close>

text \<open>
  C18: A checkout of several pools is all or nothing, whatever the order of the answers: either
  every selected pool answered with parameters and these are exactly the result, by name, or
  the result is the error of one of the pools and every other pool's parameters are returned
  to it.
\<close>

theorem checkout_all_or_nothing:
  assumes "answers_of checkout names ps as"
  shows "case set_CheckoutWith as of
      (Inr st, back) \<Rightarrow>
        (\<forall>q \<in> ran (poolsForCheckout names ps). \<not> isl (checkout q)) \<and> back = Map.empty
        \<and> st = (\<lambda>n. map_option (projr \<circ> checkout) (poolsForCheckout names ps n))
    | (Inl err, back) \<Rightarrow>
        (\<exists>q \<in> ran (poolsForCheckout names ps). checkout q = Inl err)
        \<and> back = (\<lambda>n. case poolsForCheckout names ps n of
                     Some q \<Rightarrow> (case checkout q of Inr p \<Rightarrow> Some p | Inl _ \<Rightarrow> None) | None \<Rightarrow> None)"
proof -
  let ?sel = "poolsForCheckout names ps"
  have d: "distinct (map fst as)" using assms by (simp add: answers_of_def)
  define st where "st = (\<lambda>n. case map_of as n of Some (Inr p) \<Rightarrow> Some p | _ \<Rightarrow> None)"
  define errs where "errs = map projl (filter isl (map snd as))"
  have c: "collect_answers as Map.empty [] = (st, errs)"
    using collect_answers_spec [OF d, of Map.empty "[]"] by (simp add: st_def errs_def)
  have st: "st = (\<lambda>n. case ?sel n of Some q \<Rightarrow> (case checkout q of Inr p \<Rightarrow> Some p | Inl _ \<Rightarrow> None) | None \<Rightarrow> None)"
    by (auto simp: st_def fun_eq_iff answers_map_of [OF assms] split: option.splits sum.splits)
  have e: "e \<in> set errs \<longleftrightarrow> (\<exists>q \<in> ran ?sel. checkout q = Inl e)" for e
  proof -
    have "e \<in> set errs \<longleftrightarrow> (\<exists>n. (n, Inl e) \<in> set as)"
      unfolding errs_def set_map set_filter by (auto simp: isl_def image_iff)
    also have "\<dots> \<longleftrightarrow> (\<exists>n. map_of as n = Some (Inl e))" using d by auto
    also have "\<dots> \<longleftrightarrow> (\<exists>q \<in> ran ?sel. checkout q = Inl e)"
      by (auto simp: answers_map_of [OF assms] ran_def)
    finally show ?thesis .
  qed
  show ?thesis
  proof (cases errs)
    case (Cons err rest)
    then show ?thesis using e [of err] by (simp add: set_CheckoutWith_def c st)
  next
    case Nil
    have all: "\<not> isl (checkout q)" if "q \<in> ran ?sel" for q
    proof
      assume "isl (checkout q)"
      then obtain x where "checkout q = Inl x" by (auto simp: isl_def)
      with e [of x] that Nil show False by auto
    qed
    moreover have "st = (\<lambda>n. map_option (projr \<circ> checkout) (?sel n))"
    proof
      fix n
      show "st n = map_option (projr \<circ> checkout) (?sel n)"
      proof (cases "?sel n")
        case (Some q)
        then have "\<not> isl (checkout q)" by (intro all ranI)
        with Some show ?thesis by (cases "checkout q") (simp_all add: st)
      qed (simp add: st)
    qed
    ultimately show ?thesis using Nil by (simp add: set_CheckoutWith_def c)
  qed
qed

theorem checkout_all_or_nothing_witness:
  "snd (set_CheckoutWith [(''pg'', Inr (1 :: nat)), (''redis'', Inl ErrNotRunning)]) = [''pg'' \<mapsto> 1]"
proof -
  let ?ps = "[''pg'' \<mapsto> Inr (1 :: nat), ''redis'' \<mapsto> Inl ErrNotRunning]"
  have "answers_of (\<lambda>q. q) [] ?ps [(''pg'', Inr (1 :: nat)), (''redis'', Inl ErrNotRunning)]"
    by (auto simp: answers_of_def poolsForCheckout_def)
  from checkout_all_or_nothing [OF this] show ?thesis
    by (auto simp: set_CheckoutWith_def poolsForCheckout_def fun_eq_iff)
qed

text \<open>
  Returning a whole set gives every item to the pool it came from, once, and leaves the
  other pools alone; items of unknown pools are dropped.
\<close>

theorem return_all_by_name:
  "distinct (map fst items) \<Longrightarrow>
     set_ReturnAll give items ps n =
       map_option (\<lambda>q. case map_of items n of None \<Rightarrow> q | Some p \<Rightarrow> give p q) (ps n)"
proof (induction items arbitrary: ps)
  case Nil
  then show ?case by (simp add: set_ReturnAll_def option.map_ident)
next
  case (Cons a items)
  obtain m p where a: "a = (m, p)" by fastforce
  have m: "map_of items m = None" using Cons.prems a by (simp add: map_of_eq_None_iff image_iff)
  have "set_ReturnAll give (a # items) ps n = set_ReturnAll give items (set_Return give m p ps) n"
    by (simp add: set_ReturnAll_def a)
  also have "\<dots> = map_option (\<lambda>q. case map_of items n of None \<Rightarrow> q | Some p \<Rightarrow> give p q) (set_Return give m p ps n)"
    using Cons by simp
  also have "\<dots> = map_option (\<lambda>q. case map_of (a # items) n of None \<Rightarrow> q | Some p \<Rightarrow> give p q) (ps n)"
    using m by (auto simp: a set_Return_def split: option.splits)
  finally show ?case .
qed

theorem return_all_by_name_witness:
  "set_ReturnAll (\<lambda>p q. q @ [p]) [(''pg'', 7 :: nat), (''gone'', 8)] [''pg'' \<mapsto> [1], ''redis'' \<mapsto> [2]] ''pg'' = Some [1, 7]"
  using return_all_by_name [of "[(''pg'', 7 :: nat), (''gone'', 8)]" "\<lambda>p q. q @ [p]" "[''pg'' \<mapsto> [1], ''redis'' \<mapsto> [2]]" "''pg''"]
  by simp

text \<open>The set is ready exactly when every one of its pools is.\<close>

theorem wait_ready_all: "set_WaitReady answers = None \<longleftrightarrow> (\<forall>r \<in> set answers. r = None)"
  by (simp add: set_WaitReady_def first_error_None)

theorem wait_ready_all_witness: "set_WaitReady [None, None] = None"
  using wait_ready_all [of "[None, None]"] by simp

end
