(* ===== verification/Docker_Adapter.thy ===== *)
theory Docker_Adapter
  imports Config_Parse Pool_Loop
begin

text \<open>
  The adapter between a pool and docker, \<^verbatim>\<open>adapter.go\<close>, and the pool's calls that go through
  it or wait on its channels: creation, readiness, checkout and stop (\<^verbatim>\<open>pool.go\<close>). Docker's
  client and its reference parser are arguments.
\<close>

section \<open>State\<close>

text \<open>A parsed image reference: its name without the tag, and its full text.\<close>

record image_ref =
  ref_name :: string
  ref_string :: string

record 't dadapter =
  adapter_config :: "'t config"
  adapter_ref :: image_ref

text \<open>Docker's answer to the inspection of an image.\<close>

datatype image_answer = ImageFound | ImageNotFound | ImageInspectError go_error

text \<open>What \<open>createContainer\<close> asks for: the fields of the three configurations that it sets.\<close>

record create_request =
  req_image :: string
  req_cmd :: "string list"
  req_env :: "string list"
  req_volumes :: "string list"
  req_labels :: "string \<rightharpoonup> string"
  req_attach :: bool \<comment> \<open>stdin, stdout and stderr alike\<close>
  req_exposed :: "string set"
  req_auto_remove :: bool
  req_publish_all :: bool

text \<open>
  The calls to docker, on a state \<open>'d\<close> of the daemon: the creation of a container answers with
  its identifier and warnings.
\<close>

record 'd docker =
  image_inspect :: "string \<Rightarrow> 'd \<Rightarrow> image_answer"
  image_create :: "string \<Rightarrow> 'd \<Rightarrow> go_error option"
  image_stream :: "string \<Rightarrow> 'd \<Rightarrow> go_error option \<times> 'd"
  container_create :: "create_request \<Rightarrow> 'd \<Rightarrow> (go_error + string \<times> string list) \<times> 'd"

section \<open>The adapter's operations\<close>

text \<open>The three steps of the constructor: the reference, the repository, the client.\<close>

definition newDockerAdapter ::
  "(string \<Rightarrow> go_error + image_ref) \<Rightarrow> (image_ref \<Rightarrow> go_error option) \<Rightarrow> go_error option
     \<Rightarrow> 't config \<Rightarrow> go_error + 't dadapter" where
  "newDockerAdapter parse_ref repository client conf =
     (case parse_ref (Image conf) of
        Inl err \<Rightarrow> Inl err
      | Inr ref \<Rightarrow>
          (case repository ref of
             Some err \<Rightarrow> Inl err
           | None \<Rightarrow>
               (case client of
                  Some err \<Rightarrow> Inl err
                | None \<Rightarrow> Inr \<lparr>adapter_config = conf, adapter_ref = ref\<rparr>)))"

definition imageExists :: "'d docker \<Rightarrow> 't dadapter \<Rightarrow> 'd \<Rightarrow> go_error + bool" where
  "imageExists dk a d =
     (case image_inspect dk (ref_name (adapter_ref a)) d of
        ImageFound \<Rightarrow> Inr True
      | ImageNotFound \<Rightarrow> Inr False
      | ImageInspectError err \<Rightarrow> Inl err)"

text \<open>The pull takes place while its body is read.\<close>

definition imagePull :: "'d docker \<Rightarrow> 't dadapter \<Rightarrow> 'd \<Rightarrow> go_error option \<times> 'd" where
  "imagePull dk a d =
     (case image_create dk (ref_string (adapter_ref a)) d of
        Some err \<Rightarrow> (Some err, d)
      | None \<Rightarrow> image_stream dk (ref_string (adapter_ref a)) d)"

definition ensureImage :: "'d docker \<Rightarrow> 't dadapter \<Rightarrow> 'd \<Rightarrow> go_error option \<times> 'd" where
  "ensureImage dk a d =
     (case imageExists dk a d of
        Inl err \<Rightarrow> (Some err, d)
      | Inr True \<Rightarrow> (None, d)
      | Inr False \<Rightarrow> imagePull dk a d)"

definition create_request_of :: "'t dadapter \<Rightarrow> create_request" where
  "create_request_of a =
     (let c = Container (adapter_config a) in
      \<lparr>req_image = ref_name (adapter_ref a), req_cmd = Cmd c, req_env = Env c, req_volumes = Volumes c,
       req_labels = Labels c, req_attach = False, req_exposed = {itoa (Port (adapter_config a))},
       req_auto_remove = True, req_publish_all = True\<rparr>)"

text \<open>The identifier is shortened for the log at once, and again for every warning.\<close>

definition createContainer :: "'d docker \<Rightarrow> 't dadapter \<Rightarrow> 'd \<Rightarrow> ((go_error + string) \<times> 'd) go" where
  "createContainer dk a d =
     (case container_create dk (create_request_of a) d of
        (Inl err, d') \<Rightarrow> Done (Inl err, d')
      | (Inr (i, warnings), d') \<Rightarrow> go_map (\<lambda>_. (Inr i, d')) (lcid i))"

definition makeParams :: "'t engine \<Rightarrow> 't dadapter \<Rightarrow> string \<Rightarrow> container_json \<Rightarrow> ('t params \<times> go_error option) go" where
  "makeParams eng a i st = ParamsFor eng (Params (adapter_config a)) i st (Port (adapter_config a))"

section \<open>The pool's calls\<close>

text \<open>
  \<open>NewPoolWithContext\<close>: the error branch asks the adapter, which is nil, for its log. Otherwise
  the pool starts empty with the size of its configuration.
\<close>

definition NewPoolWithContext :: "go_error + 't dadapter \<Rightarrow> pool go" where
  "NewPoolWithContext adapter =
     (case adapter of Inl _ \<Rightarrow> Panic | Inr a \<Rightarrow> Done (newPool (Size (adapter_config a))))"

text \<open>Which case of the \<^theory_text>\<open>select\<close> of \<open>CheckoutWith\<close> fires.\<close>

datatype checkout_case =
    CheckoutCancelled go_error
  | CheckoutItem "(cid \<times> container_json) option"

text \<open>What a checkout does: its result, and the item it gives back to the pool, if any.\<close>

definition pool_CheckoutWith ::
  "'t engine \<Rightarrow> 't dadapter \<Rightarrow> checkout_case \<Rightarrow> ((go_error + 't params) \<times> cid option) go" where
  "pool_CheckoutWith eng a sel =
     (case sel of
        CheckoutCancelled err \<Rightarrow> Done (Inl err, None)
      | CheckoutItem None \<Rightarrow> Done (Inl ErrNotRunning, None)
      | CheckoutItem (Some (i, st)) \<Rightarrow>
          (case makeParams eng a i st of
             Done (p, Some err) \<Rightarrow> Done (Inl err, Some i)
           | Done (p, None) \<Rightarrow> go_map (\<lambda>_. (Inr p, None)) (lcid i)
           | Blocked \<Rightarrow> Blocked
           | Panic \<Rightarrow> Panic))"

text \<open>\<open>Checkout\<close> waits for at most the longest lifecycle action and half a second more.\<close>

definition checkout_deadline :: "'t dadapter \<Rightarrow> int" where
  "checkout_deadline a = defaultCheckoutTimeout (Lifecycle (adapter_config a))"

text \<open>\<open>WaitReady\<close>: the pool's context has been cancelled, or \<open>initch\<close> is closed.\<close>

definition pool_WaitReady :: "go_error option \<Rightarrow> bool \<Rightarrow> pool \<Rightarrow> go_error option go" where
  "pool_WaitReady ctx_err take_ctx p =
     (case (take_ctx, ctx_err) of
        (True, Some err) \<Rightarrow> Done (Some err)
      | _ \<Rightarrow> if initch_closed p then Done (init_err p) else Blocked)"

section \<open>Facts\<close>

lemma ensureImage_None:
  "ensureImage dk a d = (None, d') \<Longrightarrow>
     (image_inspect dk (ref_name (adapter_ref a)) d = ImageFound \<and> d' = d)
     \<or> (image_inspect dk (ref_name (adapter_ref a)) d = ImageNotFound
        \<and> image_stream dk (ref_string (adapter_ref a)) d = (None, d'))"
  by (auto simp: ensureImage_def imageExists_def imagePull_def
      split: image_answer.splits option.splits if_splits)

text \<open>
  What docker documents of its images: a reference without a tag means the tag \<open>latest\<close>; an
  image is found when the image its reference means is present; a successful pull adds the
  image it names; a container can only be created from an image that is present.
\<close>

definition docker_images :: "'d docker \<Rightarrow> ('d \<Rightarrow> string set) \<Rightarrow> (string \<Rightarrow> string) \<Rightarrow> bool" where
  "docker_images dk present meaning \<longleftrightarrow>
     (\<forall>r d. image_inspect dk r d = ImageFound \<longleftrightarrow> meaning r \<in> present d)
     \<and> (\<forall>r d d'. image_stream dk r d = (None, d') \<longrightarrow> present d' = insert (meaning r) (present d))
     \<and> (\<forall>q d. meaning (req_image q) \<notin> present d \<longrightarrow> (\<exists>err d'. container_create dk q d = (Inl err, d')))"

text \<open>A daemon that knows its images by full name and creates containers one after the other.\<close>

definition full_name :: "string \<Rightarrow> string" where
  "full_name r = (if CHR '':'' \<in> set r then r else r @ '':latest'')"

definition small_docker :: "string set docker" where
  "small_docker =
     \<lparr>image_inspect = (\<lambda>r d. if full_name r \<in> d then ImageFound else ImageNotFound),
      image_create = (\<lambda>r d. None),
      image_stream = (\<lambda>r d. (None, insert (full_name r) d)),
      container_create = (\<lambda>q d. if full_name (req_image q) \<in> d then (Inr (''0123456789abcdef'', []), d)
                                 else (Inl (ErrExtern ''no such image''), d))\<rparr>"

lemma small_docker_images: "docker_images small_docker (\<lambda>d. d) full_name"
  by (auto simp: docker_images_def small_docker_def)

definition redis_adapter :: "string \<Rightarrow> tnode list dadapter" where
  "redis_adapter img =
     \<lparr>adapter_config =
        \<lparr>Name = ''redis'', Size = 2, Image = img, Port = 6379, Container = NewContainer,
         Params = \<lparr>username = [], password = [], database = [], url = [], url_template = Some []\<rparr>,
         Lifecycle = NewManager\<rparr>,
      adapter_ref = \<lparr>ref_name = ''redis'', ref_string = img\<rparr>\<rparr>"

section \<open>Properties\<close>

text \<open>
  Initialisation makes an untagged image available: when \<open>ensureImage\<close> succeeds for a
  reference whose name and full text mean the same image, docker finds the image that the
  pool's containers are created from, and a present image is not pulled again.
\<close>

theorem ensured_image_found:
  assumes "docker_images dk present meaning"
    and "meaning (ref_name (adapter_ref a)) = meaning (ref_string (adapter_ref a))"
    and "ensureImage dk a d = (None, d')"
  shows "imageExists dk a d' = Inr True
    \<and> (meaning (ref_name (adapter_ref a)) \<in> present d \<longrightarrow> d' = d)"
proof -
  let ?r = "ref_name (adapter_ref a)"
  have f: "image_inspect dk ?r x = ImageFound \<longleftrightarrow> meaning ?r \<in> present x" for x
    using assms(1) by (simp add: docker_images_def)
  have s: "image_stream dk r x = (None, x') \<Longrightarrow> present x' = insert (meaning r) (present x)" for r x x'
    using assms(1) by (simp add: docker_images_def)
  from ensureImage_None [OF assms(3)] have "image_inspect dk ?r d' = ImageFound"
    using f s assms(2) by auto
  moreover have "meaning ?r \<in> present d \<longrightarrow> d' = d"
    using ensureImage_None [OF assms(3)] f [of d] by auto
  ultimately show ?thesis by (simp add: imageExists_def)
qed

theorem ensured_image_found_witness:
  "imageExists small_docker (redis_adapter ''redis:latest'') {''redis:latest''} = Inr True"
proof -
  have m: "full_name (ref_name (adapter_ref (redis_adapter ''redis:latest'')))
      = full_name (ref_string (adapter_ref (redis_adapter ''redis:latest'')))"
    by (simp add: redis_adapter_def full_name_def)
  have "ensureImage small_docker (redis_adapter ''redis:latest'') {} = (None, {''redis:latest''})"
    by (simp add: ensureImage_def imageExists_def imagePull_def small_docker_def redis_adapter_def full_name_def)
  from ensured_image_found [OF small_docker_images m this] show ?thesis by blast
qed

text \<open>
  The tag of an image is honoured by the pull only: on a daemon without the image that the
  bare name means, a tagged image is pulled and initialisation succeeds, and then no container
  can be created from it.
\<close>

theorem tagged_image_unusable:
  assumes "docker_images dk present meaning"
    and "meaning (ref_name (adapter_ref a)) \<noteq> meaning (ref_string (adapter_ref a))"
    and "meaning (ref_name (adapter_ref a)) \<notin> present d"
    and "ensureImage dk a d = (None, d')"
  shows "meaning (ref_string (adapter_ref a)) \<in> present d'
    \<and> (\<exists>err d''. createContainer dk a d' = Done (Inl err, d''))"
proof -
  have "image_stream dk (ref_string (adapter_ref a)) d = (None, d')"
    using ensureImage_None [OF assms(4)] assms(1,3) by (auto simp: docker_images_def)
  with assms have p: "present d' = insert (meaning (ref_string (adapter_ref a))) (present d)"
    by (simp add: docker_images_def)
  then have "meaning (req_image (create_request_of a)) \<notin> present d'"
    using assms(2,3) by (simp add: create_request_of_def Let_def)
  then obtain err d'' where "container_create dk (create_request_of a) d' = (Inl err, d'')"
    using assms(1) unfolding docker_images_def by blast
  with p show ?thesis by (simp add: createContainer_def)
qed

theorem tagged_image_unusable_witness:
  "ensureImage small_docker (redis_adapter ''redis:3'') {} = (None, {''redis:3''})
   \<and> (\<exists>err d. createContainer small_docker (redis_adapter ''redis:3'') {''redis:3''} = Done (Inl err, d))"
proof -
  have e: "ensureImage small_docker (redis_adapter ''redis:3'') {} = (None, {''redis:3''})"
    by (simp add: ensureImage_def imageExists_def imagePull_def small_docker_def redis_adapter_def full_name_def)
  have n: "full_name (ref_name (adapter_ref (redis_adapter ''redis:3'')))
      \<noteq> full_name (ref_string (adapter_ref (redis_adapter ''redis:3'')))"
    "full_name (ref_name (adapter_ref (redis_adapter ''redis:3''))) \<notin> ({} :: string set)"
    by (simp_all add: redis_adapter_def full_name_def)
  from tagged_image_unusable [OF small_docker_images n e] e show ?thesis by blast
qed

text \<open>
  C19: A checkout settles the item it received: the caller gets parameters that carry the item's
  identifier, docker's port for it and the local host, or the caller gets an error and the item
  is given back to the pool, and never both.
\<close>

theorem checkout_settles:
  assumes "pool_CheckoutWith eng a (CheckoutItem (Some (i, st))) = Done (r, back)"
  shows "case r of
      Inr p \<Rightarrow> back = None \<and> param_id p = i \<and> hostname p = default_hostname
        \<and> port p = TCPPortFor st (Port (adapter_config a)) \<and> \<not> length i < 12
    | Inl err \<Rightarrow> back = Some i"
proof -
  obtain p err where m: "makeParams eng a i st = Done (p, err)"
    using assms by (auto simp: pool_CheckoutWith_def split: go.splits prod.splits)
  have f: "param_id p = i \<and> hostname p = default_hostname \<and> port p = TCPPortFor st (Port (adapter_config a))"
    using ParamsFor_fields [OF m [unfolded makeParams_def]] by blast
  show ?thesis using assms m f by (cases err) (auto simp: pool_CheckoutWith_def go_simps)
qed

theorem checkout_settles_witness:
  "\<exists>p. pool_CheckoutWith field_engine (redis_adapter ''redis'') (CheckoutItem (Some (''0123456789abcdef'', no_status)))
         = Done (Inr p, None) \<and> param_id p = ''0123456789abcdef''"
proof -
  have "\<exists>p. pool_CheckoutWith field_engine (redis_adapter ''redis'') (CheckoutItem (Some (''0123456789abcdef'', no_status)))
         = Done (Inr p, None)"
    by (simp add: pool_CheckoutWith_def makeParams_def ParamsFor_def ForHost_def generateURL_def ExecuteTemplate_def
        redis_adapter_def field_engine_def lcid_def)
  then obtain p where p: "pool_CheckoutWith field_engine (redis_adapter ''redis'') (CheckoutItem (Some (''0123456789abcdef'', no_status)))
         = Done (Inr p, None)" ..
  from checkout_settles [OF p] p show ?thesis by simp
qed

text \<open>
  The options \<open>entrypoint\<close>, \<open>user\<close>, \<open>capadd\<close> and \<open>capdrop\<close> that a configuration may give are
  not passed on: whatever their values, docker is asked for the same container, and what the
  code does with the answer is the same.
\<close>

theorem container_options_ignored:
  "createContainer dk (a\<lparr>adapter_config := (adapter_config a)
      \<lparr>Container := (Container (adapter_config a))
         \<lparr>Entrypoint := e, User := u, CapAdd := add, CapDrop := drp\<rparr>\<rparr>\<rparr>) d
   = createContainer dk a d"
  by (simp add: createContainer_def create_request_of_def Let_def)

end
