(* ===== verification/Net_Server.thy ===== *)
theory Net_Server
  imports Pool_Set
begin

text \<open>
  The REST interface, \<^verbatim>\<open>net/server.go\<close>, \<^verbatim>\<open>net/client.go\<close>, \<^verbatim>\<open>net/net.go\<close>: addresses,
  the routes and the paths the client builds, and the four handlers. The pool set, the template
  engine and the JSON encoder are arguments of the handlers.
\<close>

section \<open>Addresses\<close>

text \<open>\<^verbatim>\<open>net.SplitHostPort\<close> and \<^verbatim>\<open>net.JoinHostPort\<close>.\<close>

fun last_colon :: "string \<Rightarrow> (string \<times> string) option" where
  "last_colon [] = None"
| "last_colon (c # cs) =
     (case last_colon cs of
        Some (h, p) \<Rightarrow> Some (c # h, p)
      | None \<Rightarrow> if c = CHR '':'' then Some ([], cs) else None)"

definition addr_error :: "string \<Rightarrow> go_error" where
  "addr_error why = ErrText (''address: '' @ why)"

definition quoted :: "char \<Rightarrow> string" where
  "quoted c = [CHR 0x27, c, CHR 0x27]"

definition SplitHostPort :: "string \<Rightarrow> go_error + (string \<times> string)" where
  "SplitHostPort hp =
     (case last_colon hp of
        None \<Rightarrow> Inl (addr_error ''missing port in address'')
      | Some (front, prt) \<Rightarrow>
          if hp \<noteq> [] \<and> hd hp = CHR ''['' then
            (if CHR '']'' \<notin> set hp then Inl (addr_error (''missing '' @ quoted CHR '']'' @ '' in address''))
             else
               (let h = takeWhile (\<lambda>c. c \<noteq> CHR '']'') (tl hp); rest = drop (length h + 2) hp in
                if rest = [] then Inl (addr_error ''missing port in address'')
                else if rest \<noteq> CHR '':'' # prt then
                  Inl (addr_error (if hd rest = CHR '':'' then ''too many colons in address''
                                   else ''missing port in address''))
                else if CHR ''['' \<in> set (tl hp) then Inl (addr_error (''unexpected '' @ quoted CHR ''['' @ '' in address''))
                else if CHR '']'' \<in> set rest then Inl (addr_error (''unexpected '' @ quoted CHR '']'' @ '' in address''))
                else Inr (h, prt)))
          else if CHR '':'' \<in> set front then Inl (addr_error ''too many colons in address'')
          else if CHR ''['' \<in> set hp then Inl (addr_error (''unexpected '' @ quoted CHR ''['' @ '' in address''))
          else if CHR '']'' \<in> set hp then Inl (addr_error (''unexpected '' @ quoted CHR '']'' @ '' in address''))
          else Inr (front, prt))"

definition JoinHostPort :: "string \<Rightarrow> string \<Rightarrow> string" where
  "JoinHostPort h p =
     (if CHR '':'' \<in> set h \<or> CHR ''%'' \<in> set h then ''['' @ h @ '']:'' @ p else h @ CHR '':'' # p)"

text \<open>The builders of server and client replace the port; an error reads as empty strings.\<close>

definition WithPort :: "int \<Rightarrow> string \<Rightarrow> string" where
  "WithPort prt address =
     JoinHostPort (case SplitHostPort address of Inl _ \<Rightarrow> [] | Inr (h, _) \<Rightarrow> h) (itoa prt)"

definition DefaultListenAddress :: string where
  "DefaultListenAddress = '':6000''"

definition DefaultConnectAddress :: string where
  "DefaultConnectAddress = ''localhost:6000''"

definition server_Port :: "string \<Rightarrow> int" where
  "server_Port address =
     (case atoi (case SplitHostPort address of Inl _ \<Rightarrow> [] | Inr (_, p) \<Rightarrow> p) of None \<Rightarrow> 0 | Some n \<Rightarrow> n)"

section \<open>Routes\<close>

definition rpcCheckoutPath :: string where
  "rpcCheckoutPath = ''/checkout''"

definition rpcReturnPath :: string where
  "rpcReturnPath = ''/return''"

definition rpcContentType :: string where
  "rpcContentType = ''application/json''"

text \<open>The path the client asks for: every part escaped as a query component.\<close>

definition client_path :: "string \<Rightarrow> string list \<Rightarrow> string" where
  "client_path path parts = foldl (\<lambda>p part. p @ CHR ''/'' # query_escape part) path parts"

datatype route =
    CheckoutBatch
  | CheckoutPool string
  | ReturnBatch
  | ReturnItem string string

text \<open>
  The routes that \<open>Create\<close> registers. The router matches the decoded path segment by segment; a
  variable matches one segment that is not empty. A path with an empty, \<open>.\<close> or \<open>..\<close> segment is
  redirected to its clean form, and is no route here.
\<close>

definition clean_segment :: "string \<Rightarrow> bool" where
  "clean_segment s \<longleftrightarrow> s \<noteq> [] \<and> s \<noteq> ''.'' \<and> s \<noteq> ''..''"

definition routes :: "string \<Rightarrow> string \<Rightarrow> string \<Rightarrow> route option" where
  "routes verb raw_path content_type =
     (case url_unescape False raw_path of
        None \<Rightarrow> None
      | Some path \<Rightarrow>
          (case split_on CHR ''/'' path of
             root # segs \<Rightarrow>
               if root \<noteq> [] \<or> \<not> list_all clean_segment segs then None
               else if verb = ''POST'' then
                 (case segs of
                    [a] \<Rightarrow> if a = ''checkout'' then Some CheckoutBatch else None
                  | [a, pool] \<Rightarrow> if a = ''checkout'' then Some (CheckoutPool pool) else None
                  | _ \<Rightarrow> None)
               else if verb = ''DELETE'' then
                 (case segs of
                    [a] \<Rightarrow> if a = ''return'' \<and> content_type = rpcContentType then Some ReturnBatch else None
                  | [a, pool, i] \<Rightarrow> if a = ''return'' then Some (ReturnItem pool i) else None
                  | _ \<Rightarrow> None)
               else None
           | [] \<Rightarrow> None))"

section \<open>Handlers\<close>

text \<open>
  A handler answers with a status and a body and hands some parameters back to their pools.
  \<open>host_of\<close> is the request's \<open>Host\<close>; \<open>answer\<close> the pool set's answer to the checkout.
\<close>

datatype status = StatusOK | StatusBadRequest | StatusRequestTimeout | StatusInternalServerError

record 'p response =
  code :: status
  body :: string
  handed_back :: "'p param_set"

text \<open>Rewriting the parameters of a set for the caller's host, in some order of its names.\<close>

fun for_host_all ::
  "'t engine \<Rightarrow> string \<Rightarrow> string list \<Rightarrow> 't params param_set \<Rightarrow> ('t params param_set \<times> go_error option) go" where
  "for_host_all eng host [] ps = Done (ps, None)"
| "for_host_all eng host (n # ns) ps =
     (case ps n of
        None \<Rightarrow> for_host_all eng host ns ps
      | Some p \<Rightarrow>
          (case ForHost eng host p of
             Done (p2, None) \<Rightarrow> for_host_all eng host ns (ps(n \<mapsto> p2))
           | Done (p2, Some e) \<Rightarrow> Done (ps, Some e)
           | Blocked \<Rightarrow> Blocked
           | Panic \<Rightarrow> Panic))"

text \<open>\<open>order\<close>: the order in which \<^verbatim>\<open>range\<close> visits the set; \<open>marshal\<close>: \<^verbatim>\<open>json.Marshal\<close>.\<close>

definition handleCheckoutBatch ::
  "'t engine \<Rightarrow> ('t params param_set \<Rightarrow> go_error + string) \<Rightarrow> string \<Rightarrow> string list
     \<Rightarrow> go_error + 't params param_set \<Rightarrow> 't params response go" where
  "handleCheckoutBatch eng marshal host_of order answer =
     (case SplitHostPort host_of of
        Inl err \<Rightarrow> Done \<lparr>code = StatusBadRequest, body = error_text err, handed_back = Map.empty\<rparr>
      | Inr (host, _) \<Rightarrow>
          (case answer of
             Inl err \<Rightarrow> Done \<lparr>code = StatusRequestTimeout, body = error_text err, handed_back = Map.empty\<rparr>
           | Inr ps \<Rightarrow>
               go_map (\<lambda>(ps', err). case err of
                   Some e \<Rightarrow> \<lparr>code = StatusRequestTimeout, body = error_text e, handed_back = ps'\<rparr>
                 | None \<Rightarrow>
                     (case marshal ps' of
                        Inl e \<Rightarrow> \<lparr>code = StatusInternalServerError, body = error_text e, handed_back = ps'\<rparr>
                      | Inr buf \<Rightarrow> \<lparr>code = StatusOK, body = buf, handed_back = Map.empty\<rparr>))
                 (for_host_all eng host order ps)))"

text \<open>\<open>checkout\<close>: the pool set's answer to the checkout of one name.\<close>

definition handleCheckoutPool ::
  "'t engine \<Rightarrow> ('t params \<Rightarrow> go_error + string) \<Rightarrow> string \<Rightarrow> string
     \<Rightarrow> (string \<Rightarrow> go_error + 't params param_set) \<Rightarrow> 't params response go" where
  "handleCheckoutPool eng marshal host_of pool checkout =
     (case SplitHostPort host_of of
        Inl err \<Rightarrow> Done \<lparr>code = StatusBadRequest, body = error_text err, handed_back = Map.empty\<rparr>
      | Inr (host, _) \<Rightarrow>
          if pool = [] then
            Done \<lparr>code = StatusBadRequest, body = ''Invalid pool name'', handed_back = Map.empty\<rparr>
          else case checkout pool of
            Inl err \<Rightarrow> Done \<lparr>code = StatusRequestTimeout, body = error_text err, handed_back = Map.empty\<rparr>
          | Inr ps \<Rightarrow>
              (case ps pool of
                 None \<Rightarrow> Done \<lparr>code = StatusInternalServerError, body = ''Pool not found'', handed_back = ps\<rparr>
               | Some p \<Rightarrow>
                   go_map (\<lambda>(p2, err). case err of
                       Some e \<Rightarrow> \<lparr>code = StatusInternalServerError, body = error_text e, handed_back = ps\<rparr>
                     | None \<Rightarrow>
                         (case marshal p2 of
                            Inl e \<Rightarrow> \<lparr>code = StatusInternalServerError, body = error_text e, handed_back = ps\<rparr>
                          | Inr buf \<Rightarrow> \<lparr>code = StatusOK, body = buf, handed_back = Map.empty\<rparr>))
                     (ForHost eng host p)))"

text \<open>The decoded set of a batch return, or the decoder's error.\<close>

definition handleReturnBatch :: "go_error + 'p param_set \<Rightarrow> 'p response" where
  "handleReturnBatch decoded =
     (case decoded of
        Inl err \<Rightarrow> \<lparr>code = StatusInternalServerError, body = error_text err, handed_back = Map.empty\<rparr>
      | Inr ps \<Rightarrow> \<lparr>code = StatusOK, body = [], handed_back = ps\<rparr>)"

text \<open>The item that is returned is just the identifier of the path.\<close>

definition handleReturn :: "string \<Rightarrow> string \<Rightarrow> string response" where
  "handleReturn pool i =
     (if pool = [] then \<lparr>code = StatusBadRequest, body = ''Invalid pool name'', handed_back = Map.empty\<rparr>
      else if i = [] then \<lparr>code = StatusBadRequest, body = ''Invalid ID'', handed_back = Map.empty\<rparr>
      else \<lparr>code = StatusOK, body = [], handed_back = [pool \<mapsto> i]\<rparr>)"

section \<open>Facts\<close>

lemma last_colon_append: "CHR '':'' \<notin> set p \<Longrightarrow> last_colon (h @ CHR '':'' # p) = Some (h, p)"
proof (induction h)
  case Nil
  have "last_colon p = None" using Nil by (induction p) (auto simp: last_colon.simps)
  then show ?case by (simp add: last_colon.simps)
qed (simp add: last_colon.simps)

declare last_colon.simps [simp del]

lemma split_join:
  assumes "\<forall>c \<in> set h. c \<noteq> CHR ''['' \<and> c \<noteq> CHR '']''" "\<forall>c \<in> set p. c \<noteq> CHR ''['' \<and> c \<noteq> CHR '']'' \<and> c \<noteq> CHR '':''"
  shows "SplitHostPort (JoinHostPort h p) = Inr (h, p)"
proof (cases "CHR '':'' \<in> set h \<or> CHR ''%'' \<in> set h")
  case True
  let ?hp = "CHR ''['' # h @ CHR '']'' # CHR '':'' # p"
  have j: "JoinHostPort h p = ?hp" using True by (simp add: JoinHostPort_def)
  have "last_colon ((CHR ''['' # h @ [CHR '']'']) @ CHR '':'' # p) = Some (CHR ''['' # h @ [CHR '']''], p)"
    by (rule last_colon_append) (use assms in auto)
  then have l: "last_colon ?hp = Some (CHR ''['' # h @ [CHR '']''], p)" by simp
  have t: "takeWhile (\<lambda>c. c \<noteq> CHR '']'') (h @ CHR '']'' # CHR '':'' # p) = h"
    using assms(1) by (simp add: takeWhile_append)
  have b: "CHR ''['' \<notin> set h" "CHR ''['' \<notin> set p" "CHR '']'' \<notin> set p" using assms by auto
  show ?thesis unfolding j by (simp add: SplitHostPort_def l t Let_def b)
next
  case False
  then have j: "JoinHostPort h p = h @ CHR '':'' # p" by (simp add: JoinHostPort_def)
  have l: "last_colon (h @ CHR '':'' # p) = Some (h, p)" by (rule last_colon_append) (use assms in auto)
  have b: "CHR ''['' \<notin> set h" "CHR '']'' \<notin> set h" "CHR ''['' \<notin> set p" "CHR '']'' \<notin> set p" using assms by auto
  have "hd (h @ CHR '':'' # p) \<noteq> CHR ''[''" using b by (cases h) auto
  then show ?thesis unfolding j using False b by (simp add: SplitHostPort_def l)
qed

lemma digit_char_ne: "d < 10 \<Longrightarrow> digit_val x = None \<Longrightarrow> digit_char d \<noteq> x"
  using digit_val_char [of d] by auto

lemma itoa_chars:
  assumes "c \<in> set (itoa i)"
  shows "c \<noteq> CHR ''['' \<and> c \<noteq> CHR '']'' \<and> c \<noteq> CHR '':''"
proof -
  have n: "digit_val CHR ''['' = None" "digit_val CHR '']'' = None" "digit_val CHR '':'' = None"
    by (simp_all add: digit_val_def)
  consider "c = CHR ''-''" | k where "c \<in> set (show_nat k)"
    using assms unfolding itoa_def by (cases "i < 0") auto
  then show ?thesis
  proof cases
    case 1
    then show ?thesis by simp
  next
    case 2
    then obtain d where d: "d < 10" "c = digit_char d" using show_nat_digits by blast
    show ?thesis unfolding d(2) by (intro conjI digit_char_ne [OF d(1)] n)
  qed
qed

text \<open>A path of plain segments is split into them.\<close>

lemma split_segments:
  "\<forall>s \<in> set segs. CHR ''/'' \<notin> set s \<Longrightarrow> CHR ''/'' \<notin> set a \<Longrightarrow>
     split_on CHR ''/'' (foldl (\<lambda>p s. p @ CHR ''/'' # s) a segs) = a # segs"
proof (induction segs rule: rev_induct)
  case Nil
  then show ?case by (simp add: split_on_plain)
next
  case (snoc s segs)
  have app: "split_on CHR ''/'' (x @ CHR ''/'' # s) = split_on CHR ''/'' x @ [s]" for x
    using snoc.prems(1) by (induction x) (auto simp: split_on_plain split: list.splits)
  from snoc show ?case by (simp add: app)
qed

lemma url_unescape_append:
  "url_unescape q x = Some x' \<Longrightarrow> url_unescape q y = Some y' \<Longrightarrow> url_unescape q (x @ y) = Some (x' @ y')"
proof (induction q x arbitrary: x' rule: url_unescape.induct)
  case (2 q c cs)
  then show ?case by (cases "c = CHR ''%''") (auto split: list.splits option.splits)
qed simp

definition plus_for_space :: "string \<Rightarrow> string" where
  "plus_for_space s = map (\<lambda>c. if c = CHR '' '' then CHR ''+'' else c) s"

lemma client_path_decoded:
  "url_unescape False path = Some path \<Longrightarrow>
     url_unescape False (client_path path parts) = Some (foldl (\<lambda>p s. p @ CHR ''/'' # s) path (map plus_for_space parts))"
proof (induction parts rule: rev_induct)
  case Nil
  then show ?case by (simp add: client_path_def)
next
  case (snoc s parts)
  have "client_path path (parts @ [s]) = client_path path parts @ CHR ''/'' # query_escape s"
    by (simp add: client_path_def)
  moreover have "url_unescape False (CHR ''/'' # query_escape s) = Some (CHR ''/'' # plus_for_space s)"
    by (simp add: path_unescape_query plus_for_space_def)
  ultimately show ?case
    using url_unescape_append [OF snoc.IH [OF snoc.prems], of "CHR ''/'' # query_escape s"] by simp
qed

text \<open>What the caller gets for the parameters of a set: only the address and the url change.\<close>

lemma for_host_all_ids:
  "for_host_all eng host ns ps = Done (ps', err) \<Longrightarrow>
     dom ps' = dom ps \<and> (\<forall>n. map_option param_id (ps' n) = map_option param_id (ps n))
     \<and> (\<forall>n. map_option port (ps' n) = map_option port (ps n))"
proof (induction ns arbitrary: ps)
  case (Cons n ns)
  show ?case
  proof (cases "ps n")
    case None
    with Cons show ?thesis by simp
  next
    case (Some p)
    with Cons.prems obtain p2 e where f: "ForHost eng host p = Done (p2, e)"
      by (auto split: go.splits)
    have p2: "p2 = p\<lparr>hostname := host, url := url p2\<rparr>" using ForHost_fields [OF f] by blast
    then have same: "param_id p2 = param_id p" "port p2 = port p"
      by (metis params.select_convs param_config.select_convs params.surjective params.update_convs
          param_config.update_convs)+
    show ?thesis
    proof (cases e)
      case None
      with Cons.prems f Some have "for_host_all eng host ns (ps(n \<mapsto> p2)) = Done (ps', err)" by simp
      from Cons.IH [OF this] Some same show ?thesis by (auto split: if_splits)
    next
      case (Some x)
      with Cons.prems f \<open>ps n = Some p\<close> show ?thesis by auto
    qed
  qed
qed simp

lemma last_colon_Some: "last_colon s = Some (h, p) \<Longrightarrow> s = h @ CHR '':'' # p \<and> CHR '':'' \<notin> set p"
proof (induction s arbitrary: h)
  case (Cons c s)
  have n: "last_colon s = None \<Longrightarrow> CHR '':'' \<notin> set s" for s
    by (induction s) (auto simp: last_colon.simps split: option.splits if_splits)
  from Cons show ?case using n [of s]
    by (auto simp: last_colon.simps split: option.splits if_splits)
qed (simp add: last_colon.simps)

lemma SplitHostPort_chars:
  assumes "SplitHostPort a = Inr (h, p)"
  shows "CHR ''['' \<notin> set h" "CHR '']'' \<notin> set h"
proof -
  obtain front where l: "last_colon a = Some (front, p)"
    using assms by (auto simp: SplitHostPort_def Let_def split: option.splits if_splits)
  note c = last_colon_Some [OF l]
  have "(h = takeWhile (\<lambda>c. c \<noteq> CHR '']'') (tl a) \<and> CHR ''['' \<notin> set (tl a))
      \<or> (h = front \<and> CHR ''['' \<notin> set a \<and> CHR '']'' \<notin> set a)"
    using assms l by (auto simp: SplitHostPort_def Let_def split: if_splits)
  then show "CHR ''['' \<notin> set h" "CHR '']'' \<notin> set h"
    using c by (auto dest: set_takeWhileD)
qed

section \<open>Properties\<close>

text \<open>
  \<open>WithPort\<close> of the server and client builders replaces the port and nothing else: the
  resulting address splits into the same host, IPv6 literals included, and the new port.
\<close>

theorem with_port_keeps_host:
  assumes "SplitHostPort a = Inr (h, p)" "0 \<le> n" "n < 2 ^ 16"
  shows "SplitHostPort (WithPort n a) = Inr (h, itoa n) \<and> server_Port (WithPort n a) = n"
proof -
  have "SplitHostPort (JoinHostPort h (itoa n)) = Inr (h, itoa n)"
    by (rule split_join) (use SplitHostPort_chars [OF assms(1)] itoa_chars in auto)
  moreover have "WithPort n a = JoinHostPort h (itoa n)" using assms(1) by (simp add: WithPort_def)
  moreover have "atoi (itoa n) = Some n" using assms by (intro atoi_itoa) auto
  ultimately show ?thesis by (simp add: server_Port_def)
qed

theorem with_port_keeps_host_witness:
  "SplitHostPort (WithPort 6001 ''[::1]:6000'') = Inr (''::1'', itoa 6001) \<and> server_Port (WithPort 6001 ''[::1]:6000'') = 6001"
proof -
  have "SplitHostPort ''[::1]:6000'' = Inr (''::1'', ''6000'')"
    by (simp add: SplitHostPort_def last_colon.simps Let_def)
  from with_port_keeps_host [OF this, of 6001] show ?thesis by simp
qed

definition plain_part :: "string \<Rightarrow> bool" where
  "plain_part s \<longleftrightarrow> clean_segment s \<and> CHR ''/'' \<notin> set s \<and> CHR '' '' \<notin> set s"

lemma plain_plus: "CHR '' '' \<notin> set s \<Longrightarrow> plus_for_space s = s"
  by (induction s) (auto simp: plus_for_space_def)

lemma path_literals: "url_unescape False rpcCheckoutPath = Some rpcCheckoutPath" "url_unescape False rpcReturnPath = Some rpcReturnPath"
  by (simp_all add: rpcCheckoutPath_def rpcReturnPath_def)

lemma client_path_split:
  assumes "\<forall>s \<in> set parts. CHR ''/'' \<notin> set s" "a = ''checkout'' \<or> a = ''return''"
  shows "\<exists>path. url_unescape False (client_path (CHR ''/'' # a) parts) = Some path
    \<and> split_on CHR ''/'' path = [] # a # map plus_for_space parts"
proof -
  let ?path = "foldl (\<lambda>p s. p @ CHR ''/'' # s) (CHR ''/'' # a) (map plus_for_space parts)"
  have "url_unescape False (CHR ''/'' # a) = Some (CHR ''/'' # a)" using assms(2) by auto
  then have "url_unescape False (client_path (CHR ''/'' # a) parts) = Some ?path" by (rule client_path_decoded)
  moreover have "split_on CHR ''/'' ?path = [] # a # map plus_for_space parts"
  proof -
    have "?path = foldl (\<lambda>p s. p @ CHR ''/'' # s) [] (a # map plus_for_space parts)" by simp
    moreover have "\<forall>s \<in> set (a # map plus_for_space parts). CHR ''/'' \<notin> set s"
      using assms by (auto simp: plus_for_space_def)
    ultimately show ?thesis using split_segments [of "a # map plus_for_space parts" "[]"] by simp
  qed
  ultimately show ?thesis by blast
qed

text \<open>
  The client's paths reach the handlers they are meant for: with pool names and identifiers
  free of spaces and slashes, each request is routed to its operation with exactly the name and
  identifier the client was given.
\<close>

theorem client_reaches_handler:
  assumes "plain_part name" "plain_part i"
  shows "routes ''POST'' (client_path rpcCheckoutPath [name]) ct = Some (CheckoutPool name)
    \<and> routes ''DELETE'' (client_path rpcReturnPath [name, i]) ct = Some (ReturnItem name i)
    \<and> routes ''POST'' (client_path rpcCheckoutPath []) ct = Some CheckoutBatch
    \<and> routes ''DELETE'' (client_path rpcReturnPath []) rpcContentType = Some ReturnBatch"
proof -
  have p: "plus_for_space name = name" "plus_for_space i = i" "clean_segment name" "clean_segment i"
    "CHR ''/'' \<notin> set name" "CHR ''/'' \<notin> set i"
    using assms by (simp_all add: plain_part_def plain_plus)
  obtain p1 where "url_unescape False (client_path ''/checkout'' [name]) = Some p1" "split_on CHR ''/'' p1 = [[], ''checkout'', name]"
    using client_path_split [of "[name]" "''checkout''"] p by auto
  moreover obtain p2 where "url_unescape False (client_path ''/return'' [name, i]) = Some p2" "split_on CHR ''/'' p2 = [[], ''return'', name, i]"
    using client_path_split [of "[name, i]" "''return''"] p by auto
  moreover obtain p3 where "url_unescape False (client_path ''/checkout'' []) = Some p3" "split_on CHR ''/'' p3 = [[], ''checkout'']"
    using client_path_split [of "[]" "''checkout''"] by auto
  moreover obtain p4 where "url_unescape False (client_path ''/return'' []) = Some p4" "split_on CHR ''/'' p4 = [[], ''return'']"
    using client_path_split [of "[]" "''return''"] by auto
  ultimately show ?thesis using p(3,4) by (simp add: routes_def rpcCheckoutPath_def rpcReturnPath_def clean_segment_def)
qed

theorem client_reaches_handler_witness:
  "routes ''DELETE'' (client_path rpcReturnPath [''postgres'', ''8482c266192f013346d03f71b2aa6d4b'']) [] =
     Some (ReturnItem ''postgres'' ''8482c266192f013346d03f71b2aa6d4b'')"
  using client_reaches_handler [of "''postgres''" "''8482c266192f013346d03f71b2aa6d4b''" "[]"]
  by (simp add: plain_part_def clean_segment_def)

text \<open>
  A pool name with a space is not reachable: the client encodes the space as in a query,
  the server decodes a path, and looks the name up with a plus sign in its place.
\<close>

theorem client_space_misrouted:
  assumes "CHR '' '' \<in> set name" "CHR ''/'' \<notin> set name" "clean_segment (plus_for_space name)"
  shows "routes ''POST'' (client_path rpcCheckoutPath [name]) ct = Some (CheckoutPool (plus_for_space name))
    \<and> plus_for_space name \<noteq> name"
proof -
  obtain p1 where "url_unescape False (client_path ''/checkout'' [name]) = Some p1"
    "split_on CHR ''/'' p1 = [[], ''checkout'', plus_for_space name]"
    using client_path_split [of "[name]" "''checkout''"] assms(2) by auto
  moreover have "CHR '' '' \<notin> set (plus_for_space name)" by (auto simp: plus_for_space_def)
  then have "plus_for_space name \<noteq> name" using assms(1) by metis
  ultimately show ?thesis using assms(3) by (simp add: routes_def rpcCheckoutPath_def clean_segment_def)
qed

theorem client_space_misrouted_witness:
  "routes ''POST'' (client_path rpcCheckoutPath [''my pool'']) [] = Some (CheckoutPool ''my+pool'')"
  using client_space_misrouted [of "''my pool''" "[]"] by (simp add: clean_segment_def plus_for_space_def)

text \<open>
  A batch checkout request never loses a container: the caller gets the whole set, rewritten
  for the host it asked for, or every container of the set goes back to its pool.
\<close>

theorem batch_checkout_no_leak:
  assumes "SplitHostPort host_of = Inr (host, prt)"
    and "handleCheckoutBatch eng marshal host_of order (Inr ps) = Done r"
  shows "if code r = StatusOK
     then handed_back r = Map.empty \<and> (\<exists>ps'. for_host_all eng host order ps = Done (ps', None) \<and> marshal ps' = Inr (body r))
     else dom (handed_back r) = dom ps \<and> (\<forall>n. map_option param_id (handed_back r n) = map_option param_id (ps n))"
proof -
  obtain ps' err where f: "for_host_all eng host order ps = Done (ps', err)"
    using assms by (auto simp: handleCheckoutBatch_def go_simps)
  have r: "r = (case err of
      Some e \<Rightarrow> \<lparr>code = StatusRequestTimeout, body = error_text e, handed_back = ps'\<rparr>
    | None \<Rightarrow>
        (case marshal ps' of
           Inl e \<Rightarrow> \<lparr>code = StatusInternalServerError, body = error_text e, handed_back = ps'\<rparr>
         | Inr buf \<Rightarrow> \<lparr>code = StatusOK, body = buf, handed_back = Map.empty\<rparr>))"
    using assms f by (auto simp: handleCheckoutBatch_def)
  show ?thesis
    unfolding r using f for_host_all_ids [OF f] by (cases err; cases "marshal ps'") simp_all
qed

definition sample_params :: "string \<Rightarrow> tnode list params" where
  "sample_params i =
     \<lparr>username = [], password = [], database = [], url = [], url_template = Some [TField ''Hostname''],
      param_id = i, hostname = default_hostname, port = ''6379''\<rparr>"

theorem batch_checkout_no_leak_witness:
  "\<exists>r. handleCheckoutBatch field_engine (\<lambda>_. Inl (ErrText ''json'')) ''example:6000'' [''redis''] (Inr [''redis'' \<mapsto> sample_params ''id'']) = Done r
     \<and> code r = StatusInternalServerError \<and> dom (handed_back r) = {''redis''}"
proof -
  have s: "SplitHostPort ''example:6000'' = Inr (''example'', ''6000'')"
    by (simp add: SplitHostPort_def last_colon.simps)
  have "\<exists>r. handleCheckoutBatch field_engine (\<lambda>_. Inl (ErrText ''json'')) ''example:6000'' [''redis''] (Inr [''redis'' \<mapsto> sample_params ''id'']) = Done r
     \<and> code r = StatusInternalServerError"
    by (simp add: handleCheckoutBatch_def s ForHost_def generateURL_def ExecuteTemplate_def queryEscape_def
        sample_params_def field_engine_def field_of_def)
  then obtain r where r: "handleCheckoutBatch field_engine (\<lambda>_. Inl (ErrText ''json'')) ''example:6000'' [''redis''] (Inr [''redis'' \<mapsto> sample_params ''id'']) = Done r"
    "code r = StatusInternalServerError"
    by blast
  from batch_checkout_no_leak [OF s r(1)] r(2) have "dom (handed_back r) = {''redis''}" by simp
  with r show ?thesis by blast
qed

text \<open>
  So does the checkout of one pool: with any answer but success, everything that the pool
  set handed out for the request is returned.
\<close>

theorem pool_checkout_no_leak:
  assumes "SplitHostPort host_of = Inr (host, prt)" "pool \<noteq> []" "checkout pool = Inr ps"
    and "handleCheckoutPool eng marshal host_of pool checkout = Done r"
  shows "if code r = StatusOK
     then handed_back r = Map.empty
       \<and> (\<exists>p p'. ps pool = Some p \<and> ForHost eng host p = Done (p', None) \<and> marshal p' = Inr (body r))
     else handed_back r = ps"
proof (cases "ps pool")
  case None
  with assms show ?thesis by (auto simp: handleCheckoutPool_def)
next
  case (Some p)
  then obtain p' err where f: "ForHost eng host p = Done (p', err)"
    using assms by (auto simp: handleCheckoutPool_def go_simps)
  show ?thesis
    using assms Some f by (cases err; cases "marshal p'") (auto simp: handleCheckoutPool_def)
qed

theorem pool_checkout_no_leak_witness:
  "\<exists>r. handleCheckoutPool field_engine (\<lambda>_. Inr ''{}'') ''example:6000'' ''pg'' (\<lambda>_. Inr Map.empty) = Done r
     \<and> handed_back r = (Map.empty :: tnode list params param_set)"
proof -
  have s: "SplitHostPort ''example:6000'' = Inr (''example'', ''6000'')"
    by (simp add: SplitHostPort_def last_colon.simps)
  have "\<exists>r. handleCheckoutPool field_engine (\<lambda>_. Inr ''{}'') ''example:6000'' ''pg'' (\<lambda>_. Inr Map.empty) = Done r
     \<and> code r = StatusInternalServerError"
    by (simp add: handleCheckoutPool_def s)
  with pool_checkout_no_leak [OF s, of "''pg''" "\<lambda>_. Inr Map.empty"] show ?thesis by fastforce
qed

end
