(* ===== verification/Net_Client.thy ===== *)
theory Net_Client
  imports Net_Server
begin

text \<open>
  The client of the REST interface, \<^verbatim>\<open>net/client.go\<close>. The HTTP transport and the JSON codec
  are arguments of its operations.
\<close>

section \<open>State and requests\<close>

record client =
  address :: string

record request =
  req_verb :: string
  req_url :: string
  req_content_type :: string
  req_body :: string

record reply =
  reply_status :: status
  reply_body :: string

definition NewClientBuilder :: client where
  "NewClientBuilder = \<lparr>address = DefaultConnectAddress\<rparr>"

definition client_WithPort :: "int \<Rightarrow> client \<Rightarrow> client" where
  "client_WithPort prt b = b\<lparr>address := WithPort prt (address b)\<rparr>"

definition client_url :: "client \<Rightarrow> string \<Rightarrow> string list \<Rightarrow> string" where
  "client_url c path parts = ''http://'' @ address c @ client_path path parts"

definition client_request :: "string \<Rightarrow> string \<Rightarrow> string \<Rightarrow> request" where
  "client_request verb u bdy =
     \<lparr>req_verb = verb, req_url = u, req_content_type = rpcContentType, req_body = bdy\<rparr>"

section \<open>Operations\<close>

text \<open>
  \<open>send\<close>: building the request and the exchange; \<open>decode\<close>: what the decoder leaves in the result,
  and its error. The status of the reply is looked at nowhere.
\<close>

definition Client_CheckoutBatch ::
  "(request \<Rightarrow> go_error + reply) \<Rightarrow> (string \<Rightarrow> 'p param_set \<times> go_error option) \<Rightarrow> client \<Rightarrow> string list
     \<Rightarrow> 'p param_set \<times> go_error option" where
  "Client_CheckoutBatch send decode c names =
     (case send (client_request ''POST'' (client_url c rpcCheckoutPath []) []) of
        Inl err \<Rightarrow> (Map.empty, Some err)
      | Inr r \<Rightarrow> decode (reply_body r))"

definition Client_Checkout ::
  "(request \<Rightarrow> go_error + reply) \<Rightarrow> (string \<Rightarrow> 'p \<times> go_error option) \<Rightarrow> 'p \<Rightarrow> client \<Rightarrow> string
     \<Rightarrow> 'p \<times> go_error option" where
  "Client_Checkout send decode zero_params c name =
     (case send (client_request ''POST'' (client_url c rpcCheckoutPath [name]) []) of
        Inl err \<Rightarrow> (zero_params, Some err)
      | Inr r \<Rightarrow> decode (reply_body r))"

definition Client_ReturnBatch ::
  "('p param_set \<Rightarrow> go_error + string) \<Rightarrow> (request \<Rightarrow> go_error + reply) \<Rightarrow> client \<Rightarrow> 'p param_set
     \<Rightarrow> go_error option" where
  "Client_ReturnBatch marshal send c ps =
     (case marshal ps of
        Inl err \<Rightarrow> Some err
      | Inr buf \<Rightarrow>
          (case send (client_request ''DELETE'' (client_url c rpcReturnPath []) buf) of
             Inl err \<Rightarrow> Some err
           | Inr r \<Rightarrow> None))"

definition Client_Return ::
  "(request \<Rightarrow> go_error + reply) \<Rightarrow> client \<Rightarrow> string \<Rightarrow> string \<Rightarrow> go_error option" where
  "Client_Return send c name i =
     (case send (client_request ''DELETE'' (client_url c rpcReturnPath [name, i]) []) of
        Inl err \<Rightarrow> Some err
      | Inr r \<Rightarrow> None)"

section \<open>Client and server together\<close>

text \<open>
  The exchange with a server at the client's address: the server routes the path of the url and
  the handler \<open>handle\<close> of that route answers; a path without a route is not found.
\<close>

definition exchange ::
  "client \<Rightarrow> (route \<Rightarrow> string \<Rightarrow> reply) \<Rightarrow> request \<Rightarrow> go_error + reply" where
  "exchange c handle r =
     (let front = ''http://'' @ address c in
      if take (length front) (req_url r) \<noteq> front then Inl (ErrExtern ''no such host'')
      else case routes (req_verb r) (drop (length front) (req_url r)) (req_content_type r) of
        None \<Rightarrow> Inr \<lparr>reply_status = StatusBadRequest, reply_body = ''404 page not found''\<rparr>
      | Some rt \<Rightarrow> Inr (handle rt (req_body r)))"

lemma exchange_client:
  "exchange c handle (client_request verb (client_url c path parts) bdy) =
     (case routes verb (client_path path parts) rpcContentType of
        None \<Rightarrow> Inr \<lparr>reply_status = StatusBadRequest, reply_body = ''404 page not found''\<rparr>
      | Some rt \<Rightarrow> Inr (handle rt bdy))"
  by (auto simp: exchange_def client_request_def client_url_def Let_def split: option.split)

section \<open>Properties\<close>

text \<open>
  C22: The client and the server agree on the protocol for plain names: for pool names and
  identifiers that are not empty, not a dot or two, and free of spaces and slashes, each operation of the client is answered by the handler it is meant for,
  with exactly its arguments, and the client's result is what that handler's body decodes to. A
  batch checkout ignores the names it is given, and a return reports success whatever status
  the handler answers with.
\<close>

theorem client_meets_server:
  assumes "plain_part name" "plain_part i" and "marshal ps = Inr buf"
  shows "Client_Checkout (exchange c handle) decode z c name = decode (reply_body (handle (CheckoutPool name) []))
    \<and> Client_CheckoutBatch (exchange c handle) decode_set c names = decode_set (reply_body (handle CheckoutBatch []))
    \<and> exchange c handle (client_request ''DELETE'' (client_url c rpcReturnPath [name, i]) []) = Inr (handle (ReturnItem name i) [])
    \<and> Client_Return (exchange c handle) c name i = None
    \<and> exchange c handle (client_request ''DELETE'' (client_url c rpcReturnPath []) buf) = Inr (handle ReturnBatch buf)
    \<and> Client_ReturnBatch marshal (exchange c handle) c ps = None"
  using client_reaches_handler [OF assms(1,2), of rpcContentType] assms(3)
  by (simp_all add: Client_Checkout_def Client_CheckoutBatch_def Client_Return_def Client_ReturnBatch_def exchange_client)

theorem client_meets_server_witness:
  "Client_Checkout (exchange NewClientBuilder (\<lambda>rt b. \<lparr>reply_status = StatusOK, reply_body = (case rt of CheckoutPool n \<Rightarrow> n | _ \<Rightarrow> [])\<rparr>))
     (\<lambda>b. (b, None)) [] NewClientBuilder ''redis'' = (''redis'', None)
   \<and> Client_Return (exchange NewClientBuilder (\<lambda>rt b. \<lparr>reply_status = StatusInternalServerError, reply_body = []\<rparr>)) NewClientBuilder ''redis'' ''0123456789ab'' = None"
proof -
  have p: "plain_part ''redis''" "plain_part ''0123456789ab''" by code_simp+
  have m: "(\<lambda>_. Inr ''{}'') (Map.empty :: string param_set) = (Inr ''{}'' :: go_error + string)" by simp
  show ?thesis by (simp add: client_meets_server [OF p m])
qed

end
