(* ===== verification/Ui_Processor.thy ===== *)
theory Ui_Processor
  imports Pool_Loop Lifecycle_Runner
begin

text \<open>
  What the user interface knows of the pools and containers: the emitters (\<^verbatim>\<open>ui/emitter.go\<close>)
  turn what pools, items and action runners report into events, and the processor
  (\<^verbatim>\<open>ui/processor.go\<close>, \<^verbatim>\<open>ui/state.go\<close>) keeps one record per pool and per container and
  passes every change to a writer. The plain writer is \<^verbatim>\<open>ui/writer.go\<close>.
\<close>

section \<open>State\<close>

text \<open>The zero value of a state, the empty string, is a constructor of its own.\<close>

datatype pstate = PstateUnset | PstateInit | PstateErr | PstateRunning | PstateDraining | PstateStopped

datatype cstate =
    CstateUnset | CstateCreated | CstateStarted | CstateLive | CstateReady | CstateResetting
  | CstateExiting | CstateExited

record ui_pool =
  pool_name :: string
  pool_state :: pstate
  numItems :: int
  numPending :: int
  numReady :: int
  pool_err :: "go_error option"

record ui_container =
  pname :: string
  container_id :: string
  container_state :: cstate
  lifecycleName :: string
  actionName :: string
  actionAttempt :: int
  actionAttempts :: int
  actionError :: "go_error option"

section \<open>Events\<close>

datatype pevent_id =
    PeventInit | PeventInitErr | PeventRunning | PeventDraining | PeventDone
  | PeventNumItems | PeventNumPending | PeventNumReady

record pevent =
  pe_id :: pevent_id
  pe_pool :: string
  pe_err :: "go_error option"
  pe_count :: int

datatype cevent_id =
    CeventCreated | CeventStarted | CeventLive | CeventReady | CeventResetting | CeventExiting
  | CeventExited | CeventAction | CeventResult

record cevent =
  ce_id :: cevent_id
  ce_container :: string
  ce_pool :: string
  ce_lifecycle :: string
  ce_action :: string
  ce_attempt :: int
  ce_attempts :: int
  ce_err :: "go_error option"

section \<open>Emitters\<close>

text \<open>A pool's emitter is bound to its name, a container's to its name and its pool's.\<close>

fun pool_emitter :: "string \<Rightarrow> pool_emit \<Rightarrow> pevent" where
  "pool_emitter n PoolInitializing = \<lparr>pe_id = PeventInit, pe_pool = n, pe_err = None, pe_count = 0\<rparr>"
| "pool_emitter n (PoolInitializeError e) = \<lparr>pe_id = PeventInitErr, pe_pool = n, pe_err = Some e, pe_count = 0\<rparr>"
| "pool_emitter n PoolRunning = \<lparr>pe_id = PeventRunning, pe_pool = n, pe_err = None, pe_count = 0\<rparr>"
| "pool_emitter n PoolDraining = \<lparr>pe_id = PeventDraining, pe_pool = n, pe_err = None, pe_count = 0\<rparr>"
| "pool_emitter n PoolDone = \<lparr>pe_id = PeventDone, pe_pool = n, pe_err = None, pe_count = 0\<rparr>"
| "pool_emitter n (PoolNumItems k) = \<lparr>pe_id = PeventNumItems, pe_pool = n, pe_err = None, pe_count = int k\<rparr>"

definition EmitNumPending :: "string \<Rightarrow> int \<Rightarrow> pevent" where
  "EmitNumPending n k = \<lparr>pe_id = PeventNumPending, pe_pool = n, pe_err = None, pe_count = k\<rparr>"

definition EmitNumReady :: "string \<Rightarrow> int \<Rightarrow> pevent" where
  "EmitNumReady n k = \<lparr>pe_id = PeventNumReady, pe_pool = n, pe_err = None, pe_count = k\<rparr>"

definition plain_cevent :: "cevent_id \<Rightarrow> string \<Rightarrow> string \<Rightarrow> cevent" where
  "plain_cevent k n i =
     \<lparr>ce_id = k, ce_container = i, ce_pool = n, ce_lifecycle = [], ce_action = [],
      ce_attempt = 0, ce_attempts = 0, ce_err = None\<rparr>"

fun container_emitter :: "string \<Rightarrow> string \<Rightarrow> item_emit \<Rightarrow> cevent" where
  "container_emitter n i EmitCreated = plain_cevent CeventCreated n i"
| "container_emitter n i EmitStarted = plain_cevent CeventStarted n i"
| "container_emitter n i EmitLive = plain_cevent CeventLive n i"
| "container_emitter n i EmitReady = plain_cevent CeventReady n i"
| "container_emitter n i EmitResetting = plain_cevent CeventResetting n i"
| "container_emitter n i EmitExiting = plain_cevent CeventExiting n i"
| "container_emitter n i EmitExited = plain_cevent CeventExited n i"

text \<open>What a run of a lifecycle action reports; the waits are silent.\<close>

fun action_emitter :: "string \<Rightarrow> string \<Rightarrow> string \<Rightarrow> string \<Rightarrow> runner_event \<Rightarrow> cevent list" where
  "action_emitter n i lname name (RAttempt k m) =
     [\<lparr>ce_id = CeventAction, ce_container = i, ce_pool = n, ce_lifecycle = lname, ce_action = name,
       ce_attempt = k, ce_attempts = m, ce_err = None\<rparr>]"
| "action_emitter n i lname name (RResult k m err) =
     [\<lparr>ce_id = CeventResult, ce_container = i, ce_pool = n, ce_lifecycle = lname, ce_action = name,
       ce_attempt = k, ce_attempts = m, ce_err = err\<rparr>]"
| "action_emitter n i lname name (RWait k) = []"

section \<open>The processor\<close>

datatype ui_write = UpdatePool ui_pool | UpdateContainer ui_container | DeleteContainer ui_container

record processor =
  ui_pools :: "string \<rightharpoonup> ui_pool"
  ui_containers :: "string \<rightharpoonup> ui_container"
  writes :: "ui_write list"

definition newProcessor :: processor where
  "newProcessor = \<lparr>ui_pools = Map.empty, ui_containers = Map.empty, writes = []\<rparr>"

text \<open>The fields an event sets; \<open>clear_action\<close> is the common tail of the cases that reset them.\<close>

definition clear_action :: "ui_container \<Rightarrow> ui_container" where
  "clear_action c =
     c\<lparr>lifecycleName := [], actionName := [], actionAttempt := 0, actionAttempts := 0, actionError := None\<rparr>"

definition set_action :: "cevent \<Rightarrow> ui_container \<Rightarrow> ui_container" where
  "set_action e c =
     c\<lparr>lifecycleName := ce_lifecycle e, actionName := ce_action e, actionAttempt := ce_attempt e,
       actionAttempts := ce_attempts e\<rparr>"

definition apply_cevent :: "cevent \<Rightarrow> ui_container \<Rightarrow> ui_container" where
  "apply_cevent e c =
     (case ce_id e of
        CeventCreated \<Rightarrow> clear_action (c\<lparr>container_state := CstateCreated\<rparr>)
      | CeventStarted \<Rightarrow> clear_action (c\<lparr>container_state := CstateStarted\<rparr>)
      | CeventLive \<Rightarrow> c\<lparr>container_state := CstateLive\<rparr>
      | CeventReady \<Rightarrow> clear_action (c\<lparr>container_state := CstateReady\<rparr>)
      | CeventResetting \<Rightarrow> clear_action (c\<lparr>container_state := CstateResetting\<rparr>)
      | CeventExiting \<Rightarrow> c\<lparr>container_state := CstateExiting\<rparr>
      | CeventExited \<Rightarrow> c\<lparr>container_state := CstateExited\<rparr>
      | CeventAction \<Rightarrow> set_action e c
      | CeventResult \<Rightarrow> (set_action e c)\<lparr>actionError := ce_err e\<rparr>)"

definition handleContainerUpdate :: "ui_container \<Rightarrow> cevent \<Rightarrow> processor \<Rightarrow> processor" where
  "handleContainerUpdate c e p =
     (let c' = apply_cevent e c in
      if ce_id e = CeventExited
      then p\<lparr>writes := writes p @ [DeleteContainer c'],
             ui_containers := (ui_containers p)(container_id c' := None)\<rparr>
      else p\<lparr>writes := writes p @ [UpdateContainer c'],
             ui_containers := (ui_containers p)(container_id c' \<mapsto> c')\<rparr>)"

definition new_container :: "cevent \<Rightarrow> ui_container" where
  "new_container e =
     \<lparr>pname = ce_pool e, container_id = ce_container e, container_state = CstateUnset,
      lifecycleName = [], actionName = [], actionAttempt = 0, actionAttempts = 0, actionError = None\<rparr>"

definition handleContainerCreate :: "cevent \<Rightarrow> processor \<Rightarrow> processor" where
  "handleContainerCreate e p =
     (let c = new_container e in
      handleContainerUpdate c e (p\<lparr>ui_containers := (ui_containers p)(container_id c \<mapsto> c)\<rparr>))"

text \<open>One turn of \<open>handleContainerEvents\<close>.\<close>

definition container_event_step :: "cevent \<Rightarrow> processor \<Rightarrow> processor" where
  "container_event_step e p =
     (case ui_containers p (ce_container e) of
        Some c \<Rightarrow> handleContainerUpdate c e p
      | None \<Rightarrow> handleContainerCreate e p)"

definition apply_pevent :: "pevent \<Rightarrow> ui_pool \<Rightarrow> ui_pool" where
  "apply_pevent e q =
     (case pe_id e of
        PeventInit \<Rightarrow> q\<lparr>pool_state := PstateInit\<rparr>
      | PeventInitErr \<Rightarrow> q\<lparr>pool_state := PstateErr, pool_err := pe_err e\<rparr>
      | PeventRunning \<Rightarrow> q\<lparr>pool_state := PstateRunning\<rparr>
      | PeventDraining \<Rightarrow> q\<lparr>pool_state := PstateDraining\<rparr>
      | PeventDone \<Rightarrow> q\<lparr>pool_state := PstateStopped\<rparr>
      | PeventNumItems \<Rightarrow> q\<lparr>numItems := pe_count e\<rparr>
      | PeventNumPending \<Rightarrow> q\<lparr>numPending := pe_count e\<rparr>
      | PeventNumReady \<Rightarrow> q\<lparr>numReady := pe_count e\<rparr>)"

definition handlePoolUpdate :: "ui_pool \<Rightarrow> pevent \<Rightarrow> processor \<Rightarrow> processor" where
  "handlePoolUpdate q e p =
     (let q' = apply_pevent e q in
      p\<lparr>ui_pools := (ui_pools p)(pool_name q' \<mapsto> q'), writes := writes p @ [UpdatePool q']\<rparr>)"

definition new_pool :: "pevent \<Rightarrow> ui_pool" where
  "new_pool e =
     \<lparr>pool_name = pe_pool e, pool_state = PstateUnset, numItems = 0, numPending = 0, numReady = 0, pool_err = None\<rparr>"

definition handlePoolCreate :: "pevent \<Rightarrow> processor \<Rightarrow> processor" where
  "handlePoolCreate e p =
     (let q = new_pool e in
      handlePoolUpdate q e (p\<lparr>ui_pools := (ui_pools p)(pool_name q \<mapsto> q)\<rparr>))"

text \<open>One turn of \<open>handlePoolEvents\<close>.\<close>

definition pool_event_step :: "pevent \<Rightarrow> processor \<Rightarrow> processor" where
  "pool_event_step e p =
     (case ui_pools p (pe_pool e) of
        Some q \<Rightarrow> handlePoolUpdate q e p
      | None \<Rightarrow> handlePoolCreate e p)"

section \<open>The plain writer\<close>

fun pstate_text :: "pstate \<Rightarrow> string" where
  "pstate_text PstateUnset = []"
| "pstate_text PstateInit = ''initializing''"
| "pstate_text PstateErr = ''error''"
| "pstate_text PstateRunning = ''running''"
| "pstate_text PstateDraining = ''draining''"
| "pstate_text PstateStopped = ''stopped''"

fun cstate_text :: "cstate \<Rightarrow> string" where
  "cstate_text CstateUnset = []"
| "cstate_text CstateCreated = ''created''"
| "cstate_text CstateStarted = ''started''"
| "cstate_text CstateLive = ''live''"
| "cstate_text CstateReady = ''ready''"
| "cstate_text CstateResetting = ''resetting''"
| "cstate_text CstateExiting = ''exiting''"
| "cstate_text CstateExited = ''exited''"

definition newline :: string where
  "newline = [CHR 0x0A]"

definition ioPool_Print :: "ui_pool \<Rightarrow> string" where
  "ioPool_Print p =
     ''[POOL]      '' @ pool_name p @ '' '' @ pstate_text (pool_state p) @ '' items: '' @ itoa (numItems p)
     @ '' ready: '' @ itoa (numReady p) @ ''  pending: '' @ itoa (numPending p) @ newline"

definition attempts_text :: "ui_container \<Rightarrow> string" where
  "attempts_text c = ''['' @ itoa (actionAttempt c) @ ''/'' @ itoa (actionAttempts c) @ '']''"

text \<open>The short identifier is a slice, which panics on fewer than twelve bytes.\<close>

definition ioContainer_Print :: "ui_container \<Rightarrow> string go" where
  "ioContainer_Print c =
     go_map (\<lambda>short.
       ''[CONTAINER] '' @ pname c @ '' '' @ short @ '' '' @ cstate_text (container_state c)
       @ (if actionName c = [] then []
          else '' '' @ actionName c @ '' '' @ attempts_text c
            @ (case actionError c of None \<Rightarrow> [] | Some e \<Rightarrow> '' '' @ error_text e))
       @ newline) (lcid (container_id c))"

fun ioWriter :: "ui_write \<Rightarrow> string go" where
  "ioWriter (UpdatePool p) = Done (ioPool_Print p)"
| "ioWriter (UpdateContainer c) = ioContainer_Print c"
| "ioWriter (DeleteContainer c) = Done []"

section \<open>Facts\<close>

lemma apply_cevent_id [simp]: "container_id (apply_cevent e c) = container_id c"
  by (simp add: apply_cevent_def clear_action_def set_action_def split: cevent_id.split)

lemma apply_pevent_name [simp]: "pool_name (apply_pevent e q) = pool_name q"
  by (simp add: apply_pevent_def split: pevent_id.split)

text \<open>The records are filed under their own identifiers.\<close>

definition filed :: "processor \<Rightarrow> bool" where
  "filed p \<longleftrightarrow> (\<forall>i c. ui_containers p i = Some c \<longrightarrow> container_id c = i)
     \<and> (\<forall>n q. ui_pools p n = Some q \<longrightarrow> pool_name q = n)"

lemma filed_new: "filed newProcessor"
  by (simp add: filed_def newProcessor_def)

lemma filed_container: "filed p \<Longrightarrow> filed (container_event_step e p)"
  by (auto simp: filed_def container_event_step_def handleContainerUpdate_def handleContainerCreate_def
      new_container_def Let_def split: option.split)

lemma filed_pool: "filed p \<Longrightarrow> filed (pool_event_step e p)"
  by (auto simp: filed_def pool_event_step_def handlePoolUpdate_def handlePoolCreate_def
      new_pool_def Let_def split: option.split)

text \<open>What happens to one container, as an automaton of its own.\<close>

definition track :: "cevent \<Rightarrow> ui_container option \<Rightarrow> ui_container option" where
  "track e c =
     (if ce_id e = CeventExited then None
      else Some (apply_cevent e (case c of None \<Rightarrow> new_container e | Some c' \<Rightarrow> c')))"

lemma container_event_track:
  assumes "filed p"
  shows "ui_containers (container_event_step e p) i =
     (if i = ce_container e then track e (ui_containers p i) else ui_containers p i)"
proof (cases "ui_containers p (ce_container e)")
  case None
  then show ?thesis
    by (simp add: container_event_step_def handleContainerCreate_def handleContainerUpdate_def
        new_container_def track_def Let_def)
next
  case (Some c)
  then have "container_id c = ce_container e" using assms by (simp add: filed_def)
  with Some show ?thesis
    by (simp add: container_event_step_def handleContainerUpdate_def track_def Let_def)
qed

lemma fold_containers:
  "filed p \<Longrightarrow> ui_containers (fold container_event_step es p) i =
     fold track (filter (\<lambda>e. ce_container e = i) es) (ui_containers p i)"
proof (induction es arbitrary: p)
  case (Cons e es)
  have "filed (container_event_step e p)" using Cons.prems by (rule filed_container)
  from Cons.IH [OF this] show ?case by (simp add: container_event_track [OF Cons.prems] eq_commute)
qed simp

lemma track_alive:
  "\<forall>e \<in> set es. ce_id e \<noteq> CeventExited \<Longrightarrow> c \<noteq> None \<Longrightarrow> fold track es c \<noteq> None"
  by (induction es arbitrary: c) (auto simp: track_def)

section \<open>Properties\<close>

text \<open>
  Containers do not disturb one another on the screen: what is shown of one after any
  sequence of events is what its own events alone produce, in their order.
\<close>

theorem containers_independent:
  "ui_containers (fold container_event_step es newProcessor) i =
     fold track (filter (\<lambda>e. ce_container e = i) es) None"
  using fold_containers [OF filed_new, of es i] by (simp add: newProcessor_def)

text \<open>
  A report that arrives after a container has exited, such as the result of an action that
  was still running, brings the container back as a ghost: it stays on the screen for ever, as
  no further report but another exit removes it.
\<close>

theorem ghost_container:
  assumes "ce_id x = CeventExited" "ce_container x = i" "es \<noteq> []"
    and "\<forall>e \<in> set es. ce_container e = i \<and> ce_id e \<noteq> CeventExited"
  shows "ui_containers (fold container_event_step (earlier @ x # es) newProcessor) i \<noteq> None"
proof -
  obtain e es' where es: "es = e # es'" using assms(3) by (cases es) auto
  have "filter (\<lambda>e. ce_container e = i) es = es" using assms(4) by (simp add: filter_id_conv)
  then have "ui_containers (fold container_event_step (earlier @ x # es) newProcessor) i
      = fold track es (track x (fold track (filter (\<lambda>e. ce_container e = i) earlier) None))"
    using fold_containers [OF filed_new, of "earlier @ x # es" i] assms(2) by (simp add: newProcessor_def)
  moreover have "fold track es c \<noteq> None" for c
  proof -
    have "fold track es' (track e c) \<noteq> None"
      by (rule track_alive) (use assms(4) in \<open>auto simp: es track_def\<close>)
    then show ?thesis by (simp add: es)
  qed
  ultimately show ?thesis by simp
qed

theorem ghost_container_witness:
  "ui_containers (fold container_event_step
     ([container_emitter ''redis'' ''0123456789ab'' EmitCreated] @ container_emitter ''redis'' ''0123456789ab'' EmitExited
        # action_emitter ''redis'' ''0123456789ab'' ''healthcheck'' ''tcp.connect'' (RResult 1 4 (Some ErrCanceled)))
     newProcessor) ''0123456789ab'' \<noteq> None"
  by (rule ghost_container) (simp_all add: plain_cevent_def)

end
