(* ===== verification/Ui_Table.thy ===== *)
theory Ui_Table
  imports Ui_Processor "HOL-Library.Char_ord" "HOL-Library.List_Lexorder"
begin

text \<open>
  The terminal interface: the rows shown for pools and containers and the batching writer
  (\<^verbatim>\<open>ui/tuiwriter.go\<close>), and the table that keeps its rows in the order of their identifiers
  (\<^verbatim>\<open>ui/table.go\<close>). The widgets themselves belong to the terminal library; a row is the
  list of texts and styles it is given.
\<close>

section \<open>Cells\<close>

datatype style = StyleDefault | StyleGreen | StyleYellow | StyleRed | StyleWhite

record cell =
  cell_text :: string
  cell_style :: style

definition td :: "string \<Rightarrow> style \<Rightarrow> cell" where
  "td v st = \<lparr>cell_text = v, cell_style = st\<rparr>"

text \<open>The columns of a pool's row.\<close>

definition pool_cols :: "ui_pool \<Rightarrow> cell list" where
  "pool_cols p =
     [td (pool_name p) StyleDefault,
      td (pstate_text (pool_state p))
        (case pool_state p of
           PstateRunning \<Rightarrow> StyleGreen | PstateDraining \<Rightarrow> StyleYellow | PstateErr \<Rightarrow> StyleRed | _ \<Rightarrow> StyleDefault),
      td (itoa (numReady p)) StyleDefault, td (itoa (numItems p)) StyleDefault,
      td (itoa (numPending p)) StyleDefault,
      (case pool_err p of None \<Rightarrow> td [] StyleDefault | Some e \<Rightarrow> td (error_text e) StyleRed)]"

text \<open>Those of a container's row; the short identifier can panic.\<close>

definition container_cols :: "ui_container \<Rightarrow> cell list go" where
  "container_cols c =
     go_map (\<lambda>short.
       [td (pname c) StyleDefault, td short StyleDefault,
        td (cstate_text (container_state c))
          (case container_state c of
             CstateReady \<Rightarrow> StyleGreen | CstateExiting \<Rightarrow> StyleRed | CstateExited \<Rightarrow> StyleRed | _ \<Rightarrow> StyleYellow),
        td (lifecycleName c) StyleDefault, td (actionName c) StyleDefault]
       @ (if actionName c = [] then [td [] StyleDefault, td [] StyleDefault]
          else [td (attempts_text c) StyleDefault,
                (case actionError c of None \<Rightarrow> td [] StyleDefault | Some e \<Rightarrow> td (error_text e) StyleWhite)]))
       (lcid (container_id c))"

definition pool_key :: "ui_pool \<Rightarrow> string" where
  "pool_key p = pool_name p"

definition container_key :: "ui_container \<Rightarrow> string" where
  "container_key c = pname c @ container_id c"

section \<open>The table\<close>

record header =
  header_value :: string
  minwidth :: nat

record row =
  row_id :: string
  row_cells :: "cell list"

record table =
  widths :: "nat list"
  rows :: "row list"

definition setHeaders :: "header list \<Rightarrow> nat list" where
  "setHeaders hs = map (\<lambda>h. max (length (header_value h)) (minwidth h)) hs"

definition newTUITable :: "header list \<Rightarrow> table" where
  "newTUITable hs = \<lparr>widths = setHeaders hs, rows = []\<rparr>"

definition containers_headers :: "header list" where
  "containers_headers =
     [\<lparr>header_value = ''Pool'', minwidth = 15\<rparr>, \<lparr>header_value = ''ID'', minwidth = 12\<rparr>,
      \<lparr>header_value = ''State'', minwidth = length ''resetting''\<rparr>,
      \<lparr>header_value = ''Lifecycle'', minwidth = length ''healthcheck''\<rparr>,
      \<lparr>header_value = ''Action'', minwidth = length ''postgres.truncate''\<rparr>,
      \<lparr>header_value = ''Attempt'', minwidth = 5\<rparr>, \<lparr>header_value = ''Error'', minwidth = 0\<rparr>]"

definition pools_headers :: "header list" where
  "pools_headers =
     [\<lparr>header_value = ''Name'', minwidth = 15\<rparr>, \<lparr>header_value = ''State'', minwidth = length ''initializing''\<rparr>,
      \<lparr>header_value = ''Ready'', minwidth = 3\<rparr>, \<lparr>header_value = ''Total'', minwidth = 3\<rparr>,
      \<lparr>header_value = ''Pending'', minwidth = 3\<rparr>, \<lparr>header_value = ''Error'', minwidth = 0\<rparr>]"

definition renderCol :: "string \<Rightarrow> nat \<Rightarrow> bool \<Rightarrow> string" where
  "renderCol value width preserve =
     (if preserve then value
      else if length value < width then value @ replicate (width - length value + 1) CHR '' ''
      else take width value @ replicate 1 CHR '' '')"

text \<open>The texts of a row: every column is padded or cut to its width but the last.\<close>

definition render_cells :: "nat list \<Rightarrow> cell list \<Rightarrow> cell list" where
  "render_cells ws cs =
     map (\<lambda>i. td (renderCol (cell_text (cs ! i)) (ws ! i) (i = length cs - 1)) (cell_style (cs ! i))) [0..<length cs]"

text \<open>\<open>handleRowInsert\<close>: before the first row with a greater identifier, or at the end.\<close>

fun insert_row :: "row \<Rightarrow> row list \<Rightarrow> row list" where
  "insert_row r [] = [r]"
| "insert_row r (x # xs) = (if row_id r < row_id x then r # x # xs else x # insert_row r xs)"

definition update_row :: "row \<Rightarrow> row list \<Rightarrow> row list" where
  "update_row r xs = map (\<lambda>x. if row_id x = row_id r then x\<lparr>row_cells := row_cells r\<rparr> else x) xs"

definition delete_row :: "string \<Rightarrow> row list \<Rightarrow> row list" where
  "delete_row i xs = filter (\<lambda>x. row_id x \<noteq> i) xs"

definition upsert_row :: "row \<Rightarrow> table \<Rightarrow> table" where
  "upsert_row r t =
     (let r' = r\<lparr>row_cells := render_cells (widths t) (row_cells r)\<rparr> in
      if row_id r \<in> row_id ` set (rows t) then t\<lparr>rows := update_row r' (rows t)\<rparr>
      else t\<lparr>rows := insert_row r' (rows t)\<rparr>)"

text \<open>\<open>handleUpdates\<close>: first the updates, in some order of the map, then the removals.\<close>

definition handleUpdates :: "row list \<Rightarrow> string list \<Rightarrow> table \<Rightarrow> table" where
  "handleUpdates ups dels t =
     fold (\<lambda>i t. t\<lparr>rows := delete_row i (rows t)\<rparr>) dels (fold upsert_row ups t)"

section \<open>The table as a sorted map\<close>

text \<open>The cells shown for an identifier.\<close>

definition shown :: "table \<Rightarrow> string \<rightharpoonup> cell list" where
  "shown t = map_of (map (\<lambda>r. (row_id r, row_cells r)) (rows t))"

definition table_ok :: "table \<Rightarrow> bool" where
  "table_ok t \<longleftrightarrow> sorted_wrt (<) (map row_id (rows t))"

lemma restrict_map_UNIV [simp]: "m |` UNIV = m"
  by (simp add: restrict_map_def)

lemma set_insert_row: "set (insert_row r xs) = insert r (set xs)"
  by (induction xs) auto

lemma insert_row_sorted:
  "sorted_wrt (<) (map row_id xs) \<Longrightarrow> row_id r \<notin> row_id ` set xs \<Longrightarrow> sorted_wrt (<) (map row_id (insert_row r xs))"
proof (induction xs)
  case (Cons x xs)
  show ?case
  proof (cases "row_id r < row_id x")
    case True
    with Cons.prems show ?thesis by (auto intro: less_trans)
  next
    case False
    with Cons.prems have "row_id x < row_id r" by auto
    with Cons False show ?thesis by (auto simp: set_insert_row)
  qed
qed simp

lemma insert_row_map:
  "row_id r \<notin> row_id ` set xs \<Longrightarrow>
     map_of (map (\<lambda>x. (row_id x, row_cells x)) (insert_row r xs)) =
       (map_of (map (\<lambda>x. (row_id x, row_cells x)) xs))(row_id r \<mapsto> row_cells r)"
  by (induction xs) (auto simp: fun_upd_twist)

lemma update_row_map:
  "row_id r \<in> row_id ` set xs \<Longrightarrow>
     map_of (map (\<lambda>x. (row_id x, row_cells x)) (update_row r xs)) =
       (map_of (map (\<lambda>x. (row_id x, row_cells x)) xs))(row_id r \<mapsto> row_cells r)"
proof -
  assume "row_id r \<in> row_id ` set xs"
  then have d: "row_id r \<in> dom (map_of (map (\<lambda>x. (row_id x, row_cells x)) xs))"
    by (simp add: dom_map_of_conv_image_fst image_image)
  have "map_of (map (\<lambda>x. (row_id x, row_cells x)) (update_row r xs)) i =
      (if i = row_id r \<and> i \<in> dom (map_of (map (\<lambda>x. (row_id x, row_cells x)) xs)) then Some (row_cells r)
       else map_of (map (\<lambda>x. (row_id x, row_cells x)) xs) i)" for i
    by (induction xs) (auto simp: update_row_def)
  with d show ?thesis by (auto simp: fun_eq_iff)
qed

lemma delete_row_map:
  "map_of (map (\<lambda>x. (row_id x, row_cells x)) (delete_row i xs)) =
     (map_of (map (\<lambda>x. (row_id x, row_cells x)) xs))(i := None)"
  by (induction xs) (auto simp: delete_row_def fun_upd_twist)

lemma upsert_row_ok: "table_ok t \<Longrightarrow> table_ok (upsert_row r t) \<and> widths (upsert_row r t) = widths t"
proof -
  assume ok: "table_ok t"
  have "map row_id (update_row x xs) = map row_id xs" for x xs by (induction xs) (auto simp: update_row_def)
  with ok show ?thesis by (auto simp: table_ok_def upsert_row_def Let_def intro!: insert_row_sorted)
qed

lemma upsert_row_shown:
  "shown (upsert_row r t) = (shown t)(row_id r \<mapsto> render_cells (widths t) (row_cells r))"
  by (auto simp: shown_def upsert_row_def Let_def insert_row_map update_row_map)

lemma fold_upsert:
  "table_ok t \<Longrightarrow> table_ok (fold upsert_row ups t) \<and> widths (fold upsert_row ups t) = widths t
     \<and> shown (fold upsert_row ups t) =
         shown t ++ map_of (rev (map (\<lambda>r. (row_id r, render_cells (widths t) (row_cells r))) ups))"
proof (induction ups arbitrary: t)
  case (Cons r ups)
  have "table_ok (upsert_row r t)" "widths (upsert_row r t) = widths t"
    using upsert_row_ok [OF Cons.prems] by simp_all
  with Cons.IH [of "upsert_row r t"] show ?case
    by (simp add: upsert_row_shown map_add_def fun_eq_iff split: option.split)
qed simp

lemma fold_delete:
  "table_ok t \<Longrightarrow> table_ok (fold (\<lambda>i t. t\<lparr>rows := delete_row i (rows t)\<rparr>) dels t)
     \<and> shown (fold (\<lambda>i t. t\<lparr>rows := delete_row i (rows t)\<rparr>) dels t) = (shown t) |` (- set dels)"
proof (induction dels arbitrary: t)
  case (Cons i dels)
  let ?t = "t\<lparr>rows := delete_row i (rows t)\<rparr>"
  have "sorted_wrt (<) (map row_id (delete_row i (rows t)))"
    using Cons.prems by (simp add: table_ok_def delete_row_def sorted_wrt_map sorted_wrt_filter)
  then have "table_ok ?t" by (simp add: table_ok_def)
  moreover have "shown ?t = (shown t)(i := None)" by (simp add: shown_def delete_row_map)
  ultimately show ?case using Cons.IH [of ?t] by (auto simp: restrict_map_def fun_eq_iff)
qed simp

section \<open>The batching writer\<close>

text \<open>
  What has changed since the last drawing, and how far the shutdown has come. The updates of a
  key replace one another.
\<close>

record tui_writer =
  cupdate :: "string \<rightharpoonup> cell list"
  cdelete :: "string set"
  pupdate :: "string \<rightharpoonup> cell list"
  shuttingdown :: nat
  tui_returned :: bool

definition newTUIWriter :: tui_writer where
  "newTUIWriter = \<lparr>cupdate = Map.empty, cdelete = {}, pupdate = Map.empty, shuttingdown = 0, tui_returned = False\<rparr>"

datatype tui_event =
    TuiPool string "cell list"
  | TuiContainer string "cell list"
  | TuiDelete string
  | TuiDrain \<comment> \<open>\<open>stop\<close> sends on \<open>drainch\<close>\<close>
  | TuiDraw \<comment> \<open>the throttle fires\<close>

text \<open>What a drawing hands to the application: the updates and removals of the two tables.\<close>

record batch =
  b_cupdate :: "string \<rightharpoonup> cell list"
  b_cdelete :: "string set"
  b_pupdate :: "string \<rightharpoonup> cell list"

definition tui_draw :: "tui_writer \<Rightarrow> batch option \<times> tui_writer" where
  "tui_draw w =
     (Some \<lparr>b_cupdate = cupdate w, b_cdelete = cdelete w, b_pupdate = pupdate w\<rparr>,
      w\<lparr>cupdate := Map.empty, cdelete := {}, pupdate := Map.empty\<rparr>)"

definition tui_step :: "tui_event \<Rightarrow> tui_writer \<Rightarrow> batch option \<times> tui_writer" where
  "tui_step e w =
     (case e of
        TuiDrain \<Rightarrow> (None, w\<lparr>shuttingdown := shuttingdown w + 1\<rparr>)
      | TuiDraw \<Rightarrow>
          if 2 < shuttingdown w then (None, w\<lparr>tui_returned := True\<rparr>)
          else if 0 < shuttingdown w then tui_draw (w\<lparr>shuttingdown := shuttingdown w + 1\<rparr>)
          else tui_draw w
      | TuiPool k cs \<Rightarrow> (None, w\<lparr>pupdate := (pupdate w)(k \<mapsto> cs)\<rparr>)
      | TuiContainer k cs \<Rightarrow> (None, w\<lparr>cupdate := (cupdate w)(k \<mapsto> cs)\<rparr>)
      | TuiDelete k \<Rightarrow> (None, w\<lparr>cdelete := insert k (cdelete w)\<rparr>))"

fun tui_run :: "tui_event list \<Rightarrow> tui_writer \<Rightarrow> batch list \<times> tui_writer" where
  "tui_run [] w = ([], w)"
| "tui_run (e # es) w =
     (if tui_returned w then ([], w)
      else case tui_step e w of
        (b, w') \<Rightarrow> (case tui_run es w' of (bs, w'') \<Rightarrow> ((case b of None \<Rightarrow> bs | Some x \<Rightarrow> x # bs), w'')))"

text \<open>The containers on the screen after a batch, and after the events themselves.\<close>

definition apply_batch :: "batch \<Rightarrow> (string \<rightharpoonup> cell list) \<Rightarrow> (string \<rightharpoonup> cell list)" where
  "apply_batch b m = (m ++ b_cupdate b) |` (- b_cdelete b)"

fun apply_event :: "tui_event \<Rightarrow> (string \<rightharpoonup> cell list) \<Rightarrow> (string \<rightharpoonup> cell list)" where
  "apply_event (TuiContainer k cs) m = m(k \<mapsto> cs)"
| "apply_event (TuiDelete k) m = m(k := None)"
| "apply_event _ m = m"

text \<open>No update of a container follows its removal.\<close>

fun orderly :: "tui_event list \<Rightarrow> string set \<Rightarrow> bool" where
  "orderly [] gone = True"
| "orderly (TuiContainer k cs # es) gone = (k \<notin> gone \<and> orderly es gone)"
| "orderly (TuiDelete k # es) gone = orderly es (insert k gone)"
| "orderly (_ # es) gone = orderly es gone"

definition pending_batch :: "tui_writer \<Rightarrow> batch" where
  "pending_batch w = \<lparr>b_cupdate = cupdate w, b_cdelete = cdelete w, b_pupdate = pupdate w\<rparr>"

lemma apply_batch_cdelete: "k \<in> b_cdelete b \<Longrightarrow> apply_batch b m k = None"
  by (simp add: apply_batch_def)

text \<open>The screen, with what is still to be drawn, is up to date after every event.\<close>

lemma tui_run_screen:
  "\<not> tui_returned w \<Longrightarrow> orderly es gone \<Longrightarrow> cdelete w \<subseteq> gone \<Longrightarrow> tui_run es w = (bs, w') \<Longrightarrow> \<not> tui_returned w' \<Longrightarrow>
     apply_batch (pending_batch w') (fold apply_batch bs m) =
       fold apply_event es (apply_batch (pending_batch w) m)"
proof (induction es arbitrary: w bs m gone)
  case (Cons e es)
  obtain b w1 where s: "tui_step e w = (b, w1)" by fastforce
  obtain bs1 where r: "tui_run es w1 = (bs1, w')" "bs = (case b of None \<Rightarrow> bs1 | Some x \<Rightarrow> x # bs1)"
    using Cons.prems(1,4) s by (auto split: prod.splits)
  have nr: "\<not> tui_returned w1"
    using Cons.prems(5) r(1) by (cases es) (auto split: if_splits)
  have empty: "apply_batch \<lparr>b_cupdate = Map.empty, b_cdelete = {}, b_pupdate = p\<rparr> m = m" for p m
    by (simp add: apply_batch_def)
  show ?case
  proof (cases e)
    case (TuiPool k cs)
    with s have "b = None" "w1 = w\<lparr>pupdate := (pupdate w)(k \<mapsto> cs)\<rparr>" by (auto simp: tui_step_def)
    moreover have "apply_batch (pending_batch (w\<lparr>pupdate := q\<rparr>)) m = apply_batch (pending_batch w) m" for q
      by (simp add: apply_batch_def pending_batch_def)
    ultimately show ?thesis using Cons.IH [OF nr _ _ r(1) Cons.prems(5), of gone m] Cons.prems r(2) TuiPool by simp
  next
    case (TuiContainer k cs)
    with s have w1: "b = None" "w1 = w\<lparr>cupdate := (cupdate w)(k \<mapsto> cs)\<rparr>" by (auto simp: tui_step_def)
    have "k \<notin> cdelete w" using Cons.prems TuiContainer by auto
    then have "apply_batch (pending_batch w1) m = (apply_batch (pending_batch w) m)(k \<mapsto> cs)"
      by (auto simp: apply_batch_def pending_batch_def w1 restrict_map_def fun_eq_iff)
    then show ?thesis using Cons.IH [OF nr _ _ r(1) Cons.prems(5), of gone m] Cons.prems r(2) TuiContainer w1
      by (simp add: fun_upd_def)
  next
    case (TuiDelete k)
    with s have w1: "b = None" "w1 = w\<lparr>cdelete := insert k (cdelete w)\<rparr>" by (auto simp: tui_step_def)
    have "apply_batch (pending_batch w1) m = (apply_batch (pending_batch w) m)(k := None)"
      by (auto simp: apply_batch_def pending_batch_def w1 restrict_map_def fun_eq_iff)
    then show ?thesis
      using Cons.IH [OF nr _ _ r(1) Cons.prems(5), of "insert k gone" m] Cons.prems r(2) TuiDelete w1
      by (simp add: fun_upd_def subset_insertI2)
  next
    case TuiDrain
    with s have "b = None" "w1 = w\<lparr>shuttingdown := shuttingdown w + 1\<rparr>" by (auto simp: tui_step_def)
    moreover have "apply_batch (pending_batch (w\<lparr>shuttingdown := q\<rparr>)) m = apply_batch (pending_batch w) m" for q
      by (simp add: apply_batch_def pending_batch_def)
    ultimately show ?thesis using Cons.IH [OF nr _ _ r(1) Cons.prems(5), of gone m] Cons.prems r(2) TuiDrain by simp
  next
    case TuiDraw
    with s nr have b: "b = Some (pending_batch w)" and w1: "cupdate w1 = Map.empty" "cdelete w1 = {}"
      by (auto simp: tui_step_def tui_draw_def pending_batch_def split: if_splits)
    have "apply_batch (pending_batch w1) m' = m'" for m' using w1 empty by (simp add: pending_batch_def)
    then show ?thesis
      using Cons.IH [OF nr _ _ r(1) Cons.prems(5), of gone "apply_batch (pending_batch w) m"] Cons.prems r(2) TuiDraw w1 b
      by simp
  qed
qed simp

section \<open>Properties\<close>

text \<open>
  The table implements a map from identifiers to rows, shown in the order of the
  identifiers: a batch of updates and removals changes exactly the rows it names, and the rows
  stay sorted and distinct.
\<close>

theorem table_refines_map:
  assumes "table_ok t"
  shows "table_ok (handleUpdates ups dels t)
    \<and> shown (handleUpdates ups dels t) =
        (shown t ++ map_of (rev (map (\<lambda>r. (row_id r, render_cells (widths t) (row_cells r))) ups))) |` (- set dels)"
  using fold_upsert [OF assms, of ups] fold_delete [of "fold upsert_row ups t" dels] by (simp add: handleUpdates_def)

definition one_cell :: "string \<Rightarrow> string \<Rightarrow> row" where
  "one_cell i v = \<lparr>row_id = i, row_cells = [td v StyleDefault]\<rparr>"

theorem table_refines_map_witness:
  "table_ok (handleUpdates [one_cell ''b'' ''2'', one_cell ''a'' ''1''] [''c''] (newTUITable [\<lparr>header_value = ''X'', minwidth = 3\<rparr>]))
   \<and> map row_id (rows (handleUpdates [one_cell ''b'' ''2'', one_cell ''a'' ''1''] [''c''] (newTUITable [\<lparr>header_value = ''X'', minwidth = 3\<rparr>])))
       = [''a'', ''b'']"
proof
  have "table_ok (newTUITable [\<lparr>header_value = ''X'', minwidth = 3\<rparr>])" by (simp add: table_ok_def newTUITable_def)
  from table_refines_map [OF this] show
    "table_ok (handleUpdates [one_cell ''b'' ''2'', one_cell ''a'' ''1''] [''c''] (newTUITable [\<lparr>header_value = ''X'', minwidth = 3\<rparr>]))"
    by blast
  show "map row_id (rows (handleUpdates [one_cell ''b'' ''2'', one_cell ''a'' ''1''] [''c''] (newTUITable [\<lparr>header_value = ''X'', minwidth = 3\<rparr>])))
       = [''a'', ''b'']"
    by code_simp
qed

text \<open>
  Batching loses nothing: after any sequence of reports and drawings the drawn batches,
  together with what is waiting for the next one, show exactly what applying every report at
  once would, as long as no container is updated after its removal.
\<close>

theorem batches_show_everything:
  assumes "orderly es {}" and "tui_run es newTUIWriter = (bs, w)" and "\<not> tui_returned w"
  shows "apply_batch (pending_batch w) (fold apply_batch bs m) = fold apply_event es m"
  using tui_run_screen [of newTUIWriter es "{}" bs w m] assms
  by (simp add: newTUIWriter_def pending_batch_def apply_batch_def)

theorem batches_show_everything_witness:
  "(case tui_run [TuiContainer ''a'' [], TuiDraw, TuiContainer ''b'' [], TuiDelete ''a'', TuiDraw] newTUIWriter of
      (bs, w) \<Rightarrow> apply_batch (pending_batch w) (fold apply_batch bs Map.empty) = [''b'' \<mapsto> []])"
proof -
  let ?es = "[TuiContainer ''a'' [], TuiDraw, TuiContainer ''b'' [], TuiDelete ''a'', TuiDraw]"
  obtain bs w where r: "tui_run ?es newTUIWriter = (bs, w)" by fastforce
  then have "\<not> tui_returned w" by (auto simp: tui_step_def tui_draw_def newTUIWriter_def)
  from batches_show_everything [OF _ r this, of Map.empty] have
    "apply_batch (pending_batch w) (fold apply_batch bs Map.empty) = [''b'' \<mapsto> []]"
    by (simp add: fun_eq_iff)
  with r show ?thesis by simp
qed

text \<open>
  After \<open>stop\<close> the writer draws twice more and returns at the third tick, whatever reports
  arrive in between.
\<close>

theorem tui_stops:
  assumes "shuttingdown w = 1" "\<not> tui_returned w"
  shows "case tui_run [TuiDraw, TuiDraw, TuiDraw] w of (bs, w') \<Rightarrow> length bs = 2 \<and> tui_returned w'"
  using assms by (simp add: tui_step_def tui_draw_def)

theorem tui_stops_witness:
  "case tui_run [TuiDraw, TuiDraw, TuiDraw] (snd (tui_step TuiDrain newTUIWriter)) of (bs, w') \<Rightarrow> length bs = 2 \<and> tui_returned w'"
  by (rule tui_stops) (simp_all add: tui_step_def newTUIWriter_def)

text \<open>Every column but the last occupies exactly its width and one space.\<close>

theorem render_width: "length (renderCol value width False) = width + 1"
  by (simp add: renderCol_def)

end
