(* ===== verification/Daemon_Main.thy ===== *)
theory Daemon_Main
  imports Config_Parse Net_Server
begin

text \<open>
  The program itself, \<^verbatim>\<open>ephemerald/main.go\<close>, with the server's \<open>Run\<close> and \<open>Close\<close>: the order in
  which the interface, the pools and the server are started and stopped. What the libraries
  and the components answer at each stage is an argument.
\<close>

section \<open>Starting\<close>

datatype ui_type = UiTui | UiStream | UiNone

text \<open>The steps of the program that others can see, in their order.\<close>

datatype daemon_act =
    StartUI ui_type
  | ReadConfig string
  | CreatePools nat
  | Listen string
  | WatchSignals
  | Serve
  | StopPools
  | CloseServer
  | StopUI
  | Fatal go_error

text \<open>The command line, and the answers of the stages that can fail.\<close>

record 't daemon_env =
  listen_port :: int
  config_file :: string
  ui_kind :: ui_type
  level_error :: "go_error option"
  ui_error :: "go_error option"
  configs :: "'t config list \<times> go_error option"
  pools_error :: "go_error option"
  listen_error :: "go_error option"

text \<open>The noop interface cannot fail.\<close>

definition start_error :: "'t daemon_env \<Rightarrow> go_error option" where
  "start_error env = (case ui_kind env of UiNone \<Rightarrow> None | _ \<Rightarrow> ui_error env)"

text \<open>
  \<open>Run\<close> serves until the listener is closed, stops the pools and closes \<open>closech\<close>, for which
  \<open>main\<close> waits before it stops the interface.
\<close>

definition server_Run :: "daemon_act list" where
  "server_Run = [Serve, StopPools]"

definition daemon_main :: "'t daemon_env \<Rightarrow> daemon_act list" where
  "daemon_main env =
     (case level_error env of
        Some err \<Rightarrow> [Fatal err]
      | None \<Rightarrow>
          StartUI (ui_kind env) #
          (case start_error env of
             Some err \<Rightarrow> [Fatal err]
           | None \<Rightarrow>
               ReadConfig (config_file env) #
               (case configs env of
                  (_, Some err) \<Rightarrow> [Fatal err]
                | (cs, None) \<Rightarrow>
                    CreatePools (length cs) #
                    (case pools_error env of
                       Some err \<Rightarrow> [Fatal err]
                     | None \<Rightarrow>
                         Listen (WithPort (listen_port env) DefaultListenAddress) #
                         (case listen_error env of
                            Some err \<Rightarrow> [StopPools, Fatal err]
                          | None \<Rightarrow> WatchSignals # server_Run @ [StopUI])))))"

section \<open>Stopping\<close>

text \<open>The goroutine of \<open>handleSignals\<close>: what it waits for and what it does then.\<close>

datatype stop_cause = UiShutdown | Signal | ServerClosed

fun handleSignals :: "stop_cause \<Rightarrow> daemon_act list" where
  "handleSignals UiShutdown = [CloseServer]"
| "handleSignals Signal = [CloseServer]"
| "handleSignals ServerClosed = []"

section \<open>Properties\<close>

text \<open>
  No run leaves containers behind: when the pools have been created, the program stops them
  before it ends, whether the server could listen or not, and exactly once; a run that fails
  earlier has no pools to stop. But only a run that served stops its interface: every fatal
  error after the interface was started leaves the terminal to it.
\<close>

theorem daemon_stops_pools:
  "count_list (daemon_main env) StopPools =
      (if level_error env = None \<and> start_error env = None \<and> snd (configs env) = None \<and> pools_error env = None
       then 1 else 0)
    \<and> (StopUI \<in> set (daemon_main env) \<longleftrightarrow> Serve \<in> set (daemon_main env))
    \<and> ((\<exists>err. Fatal err \<in> set (daemon_main env)) \<longleftrightarrow> Serve \<notin> set (daemon_main env))"
  by (cases "configs env") (auto simp: daemon_main_def server_Run_def split: option.splits)

text \<open>
  The server listens on the port of the command line, on every interface: the address it is
  given has an empty host and exactly that port.
\<close>

theorem daemon_listens:
  assumes "Listen a \<in> set (daemon_main env)"
  shows "SplitHostPort a = Inr ([], itoa (listen_port env))"
proof -
  have "a = WithPort (listen_port env) DefaultListenAddress"
    using assms by (cases "configs env") (auto simp: daemon_main_def server_Run_def split: option.splits)
  moreover have "SplitHostPort DefaultListenAddress = Inr ([], ''6000'')"
    by (simp add: DefaultListenAddress_def SplitHostPort_def last_colon.simps)
  ultimately have "a = JoinHostPort [] (itoa (listen_port env))" by (simp add: WithPort_def)
  then show ?thesis using split_join [of "[]" "itoa (listen_port env)"] itoa_chars by auto
qed

definition sample_env :: "tnode list daemon_env" where
  "sample_env =
     \<lparr>listen_port = 7000, config_file = ''pools.json'', ui_kind = UiNone, level_error = None, ui_error = None,
      configs = ([], None), pools_error = None, listen_error = Some (ErrExtern ''address in use'')\<rparr>"

theorem daemon_listens_witness:
  "\<exists>a. daemon_main sample_env
         = [StartUI UiNone, ReadConfig ''pools.json'', CreatePools 0, Listen a, StopPools, Fatal (ErrExtern ''address in use'')]
       \<and> SplitHostPort a = Inr ([], itoa 7000)"
proof -
  let ?a = "WithPort 7000 DefaultListenAddress"
  have m: "daemon_main sample_env
      = [StartUI UiNone, ReadConfig ''pools.json'', CreatePools 0, Listen ?a, StopPools, Fatal (ErrExtern ''address in use'')]"
    by (simp add: daemon_main_def sample_env_def start_error_def)
  then have "SplitHostPort ?a = Inr ([], itoa (listen_port sample_env))"
    by (intro daemon_listens) simp
  with m show ?thesis by (simp add: sample_env_def)
qed

end
