(* ===== verification/Docker_Calls.thy ===== *)
theory Docker_Calls
  imports Docker_Adapter
begin

text \<open>
  The goroutines of a container down to their calls of docker: the adapter's calls that only
  pass on what they are given (\<^verbatim>\<open>adapter.go\<close>), and \<^verbatim>\<open>container.go\<close> on top of them: the start with
  its inspection, the kill, the filter of the event stream, and the copy of the log that every
  new container starts.
\<close>

section \<open>The calls\<close>

text \<open>
  Docker's client for one container, on a state \<open>'d\<close> of the daemon. A filter is a list of keys
  and values. The answer to a request for events is the stream that follows, that to one for
  the log the chunks that can be read and the error that ends them, if it is not the end.
\<close>

record log_options =
  ShowStdout :: bool
  ShowStderr :: bool
  Details :: bool
  log_tail :: string

type_synonym event_filter = "(string \<times> string) list"
type_synonym log_body = "string list \<times> go_error option"

record 'd container_api =
  api_start :: "cid \<Rightarrow> 'd \<Rightarrow> go_error option \<times> 'd"
  api_inspect :: "cid \<Rightarrow> 'd \<Rightarrow> go_error + container_json"
  api_kill :: "cid \<Rightarrow> string \<Rightarrow> 'd \<Rightarrow> go_error option \<times> 'd"
  api_events :: "event_filter \<Rightarrow> 'd \<Rightarrow> docker_msg list"
  api_logs :: "cid \<Rightarrow> log_options \<Rightarrow> 'd \<Rightarrow> go_error + log_body"

text \<open>The adapter's methods.\<close>

definition containerStart :: "'d container_api \<Rightarrow> cid \<Rightarrow> 'd \<Rightarrow> go_error option \<times> 'd" where
  "containerStart dk i d = api_start dk i d"

definition containerInspect :: "'d container_api \<Rightarrow> cid \<Rightarrow> 'd \<Rightarrow> go_error + container_json" where
  "containerInspect dk i d = api_inspect dk i d"

definition containerKill :: "'d container_api \<Rightarrow> cid \<Rightarrow> string \<Rightarrow> 'd \<Rightarrow> go_error option \<times> 'd" where
  "containerKill dk i sig d = api_kill dk i sig d"

definition containerEvents :: "'d container_api \<Rightarrow> event_filter \<Rightarrow> 'd \<Rightarrow> docker_msg list" where
  "containerEvents dk f d = api_events dk f d"

definition containerLogs :: "'d container_api \<Rightarrow> cid \<Rightarrow> log_options \<Rightarrow> 'd \<Rightarrow> go_error + log_body" where
  "containerLogs dk i opts d = api_logs dk i opts d"

section \<open>Starting and stopping\<close>

definition startContainer :: "'d container_api \<Rightarrow> cid \<Rightarrow> 'd \<Rightarrow> go_error option \<times> 'd" where
  "startContainer dk i d = containerStart dk i d"

definition getStatus :: "'d container_api \<Rightarrow> cid \<Rightarrow> 'd \<Rightarrow> go_error + container_json" where
  "getStatus dk i d = containerInspect dk i d"

text \<open>The whole of \<open>doStart\<close>: the status is only set when both calls have succeeded.\<close>

definition doStart_calls ::
  "'d container_api \<Rightarrow> cid \<Rightarrow> pcontainer \<Rightarrow> 'd \<Rightarrow> pcontainer \<times> 'd" where
  "doStart_calls dk i c d =
     (case startContainer dk i d of
        (Some err, d') \<Rightarrow> (c\<lparr>starting := False, start_send := Some CStartFailed\<rparr>, d')
      | (None, d') \<Rightarrow>
          (case getStatus dk i d' of
             Inl err \<Rightarrow> (c\<lparr>starting := False, start_send := Some CStartFailed\<rparr>, d')
           | Inr st \<Rightarrow> (c\<lparr>starting := False, status := st, start_send := Some CStarted\<rparr>, d')))"

definition doStop_calls :: "'d container_api \<Rightarrow> cid \<Rightarrow> pcontainer \<Rightarrow> 'd \<Rightarrow> pcontainer \<times> 'd" where
  "doStop_calls dk i c d =
     (case containerKill dk i ''KILL'' d of (err, d') \<Rightarrow> (c\<lparr>stopping := False\<rparr>, d'))"

section \<open>Events\<close>

definition events_filter :: "cid \<Rightarrow> event_filter" where
  "events_filter i = [(''type'', ''container''), (''container'', i)]"

text \<open>
  One call of \<open>doMonitor\<close> on the stream of its subscription: what it sends, and how it ends. It
  returns at the first error of the stream, of which it reads nothing more; \<open>StillOpen\<close> is a stream
  that has no message at the moment.
\<close>

datatype monitor_end = StillOpen | EndOfEvents | BrokenStream go_error

fun monitor_stream :: "docker_msg list \<Rightarrow> 32 word \<Rightarrow> container_event list \<times> monitor_end" where
  "monitor_stream [] st = ([], StillOpen)"
| "monitor_stream (StreamEOF # ms) st = ([], EndOfEvents)"
| "monitor_stream (StreamError err # ms) st = ([], BrokenStream err)"
| "monitor_stream (DockerEvent s attr # ms) st =
     (if s = ''die'' then monitor_stream ms (exit_status attr st)
      else if s = ''detach'' \<or> s = ''destroy'' then
        (case monitor_stream ms st of (es, e) \<Rightarrow> (exit_event st # es, e))
      else monitor_stream ms st)"

definition doMonitor :: "'d container_api \<Rightarrow> cid \<Rightarrow> 'd \<Rightarrow> container_event list \<times> monitor_end" where
  "doMonitor dk i d = monitor_stream (containerEvents dk (events_filter i) d) 0"

text \<open>
  \<open>monitor\<close>: a broken stream is followed by a new subscription, made at a later state of the daemon.
  What docker has reported in between is not sent again, and the exit status is forgotten.
\<close>

fun monitor :: "'d container_api \<Rightarrow> cid \<Rightarrow> 'd list \<Rightarrow> container_event list \<times> monitor_end" where
  "monitor dk i [] = ([], StillOpen)"
| "monitor dk i (d # ds) =
     (case doMonitor dk i d of
        (es, BrokenStream err) \<Rightarrow> (case monitor dk i ds of (es', e) \<Rightarrow> (es @ es', e))
      | r \<Rightarrow> r)"

section \<open>Logs\<close>

definition dump_options :: log_options where
  "dump_options = \<lparr>ShowStdout = True, ShowStderr = True, Details = True, log_tail = ''1''\<rparr>"

text \<open>
  \<open>dumpLogs\<close>: the text it copies to the terminal. When the call has failed it is logged, and then
  the \<open>Close\<close> of a nil body is deferred.
\<close>

definition dump_body :: "go_error + log_body \<Rightarrow> string go" where
  "dump_body answer = (case answer of Inl err \<Rightarrow> Panic | Inr (chunks, err) \<Rightarrow> Done (concat chunks))"

definition dumpLogs :: "'d container_api \<Rightarrow> cid \<Rightarrow> 'd \<Rightarrow> string go" where
  "dumpLogs dk i d = dump_body (containerLogs dk i dump_options d)"

section \<open>Creation\<close>

text \<open>
  \<open>createPoolContainer\<close>: the container and its identifier, or docker's error. Its two goroutines,
  \<open>dumpLogs\<close> and \<open>monitor\<close>, run from then on; the pair says that the first one still has to.
\<close>

definition createPoolContainer_calls ::
  "'d docker \<Rightarrow> 't dadapter \<Rightarrow> 'd \<Rightarrow> ((go_error + cid \<times> pcontainer) \<times> 'd) go" where
  "createPoolContainer_calls dk a d =
     (case createContainer dk a d of
        Done (Inl err, d') \<Rightarrow> Done (Inl err, d')
      | Done (Inr i, d') \<Rightarrow> go_map (\<lambda>_. (Inr (i, createPoolContainer), d')) (lcid i)
      | Blocked \<Rightarrow> Blocked
      | Panic \<Rightarrow> Panic)"

section \<open>Facts\<close>

text \<open>The abstract steps of \<open>Pool_Container\<close> are these, with docker's answers as arguments.\<close>

lemma doStart_implements:
  "starting c \<Longrightarrow> startContainer dk i d = (err, d') \<Longrightarrow>
     doStart err (getStatus dk i d') c = Done (fst (doStart_calls dk i c d))"
  by (cases err; cases "getStatus dk i d'") (simp_all add: doStart_def doStart_calls_def)

lemma doStop_implements: "stopping c \<Longrightarrow> doStop c = Done (fst (doStop_calls dk i c d))"
  by (simp add: doStop_def doStop_calls_def case_prod_beta)

text \<open>
  What docker documents of its event stream: a message is passed on when it matches every key of
  the filter. A message of the daemon's log carries its type and the container it is about.
\<close>

type_synonym docker_log = "(string \<times> cid \<times> docker_msg) list"

definition matches :: "event_filter \<Rightarrow> string \<times> cid \<times> docker_msg \<Rightarrow> bool" where
  "matches f m \<longleftrightarrow>
     list_all (\<lambda>(k, v). (k = ''type'' \<longrightarrow> v = fst m) \<and> (k = ''container'' \<longrightarrow> v = fst (snd m))) f"

definition docker_events :: "'d container_api \<Rightarrow> ('d \<Rightarrow> docker_log) \<Rightarrow> bool" where
  "docker_events dk log \<longleftrightarrow>
     (\<forall>f d. api_events dk f d = map (snd \<circ> snd) (filter (matches f) (log d)))"

lemma docker_events_own:
  assumes "docker_events dk log"
  shows "containerEvents dk (events_filter i) d =
     map (snd \<circ> snd) (filter (\<lambda>m. fst m = ''container'' \<and> fst (snd m) = i) (log d))"
proof -
  have "matches (events_filter i) = (\<lambda>m. fst m = ''container'' \<and> fst (snd m) = i)"
    by (auto simp: fun_eq_iff matches_def events_filter_def)
  with assms show ?thesis by (simp add: containerEvents_def docker_events_def)
qed

text \<open>Messages that are not about an end of the container are passed over.\<close>

fun quiet :: "docker_msg \<Rightarrow> bool" where
  "quiet (DockerEvent s attr) = (s \<noteq> ''die'' \<and> s \<noteq> ''detach'' \<and> s \<noteq> ''destroy'')"
| "quiet _ = False"

lemma monitor_stream_quiet: "list_all quiet ms \<Longrightarrow> monitor_stream (ms @ ns) st = monitor_stream ns st"
  by (induction ms) (auto elim: quiet.elims)

text \<open>The steps of \<open>Pool_Container\<close> send the same on one stream; after an error they start from zero.\<close>

lemma monitor_stream_events:
  "(\<forall>err. snd (monitor_stream ms st) \<noteq> BrokenStream err) \<Longrightarrow> monitor_events ms st = fst (monitor_stream ms st)"
  "snd (monitor_stream ms st) = StillOpen \<Longrightarrow>
     monitor_events (ms @ StreamError err # ns) st = fst (monitor_stream ms st) @ monitor_events ns 0"
  by (induction ms st rule: monitor_stream.induct) (auto simp: case_prod_beta)

section \<open>Properties\<close>

text \<open>
  C28: The end of a container is reported to its own item, once and with its own exit code, however
  many other containers live and die at the same time. With docker's documented filters, and when
  one subscription delivers the end of the container unbroken (one death with a numeric code, later
  its removal, no other end of it), its monitor passes over the messages about every other
  container and over its own other events, and sends one exit event, whose kind is decided by the
  code of its death.
\<close>

theorem monitor_reports_own_exit:
  assumes "docker_events dk log"
    and "map (snd \<circ> snd) (filter (\<lambda>m. fst m = ''container'' \<and> fst (snd m) = i) (log d))
      = earlier @ [DockerEvent ''die'' (Some (itoa n))] @ later @ [DockerEvent ''destroy'' attr]"
    and "list_all quiet earlier" "list_all quiet later"
    and "- (2 ^ 63) \<le> n" "n < 2 ^ 63"
  shows "monitor dk i (d # ds) = ([if (word_of_int n :: 32 word) = 0 then CExitSuccess else CExitError], StillOpen)"
proof -
  have "doMonitor dk i d = ([if (word_of_int n :: 32 word) = 0 then CExitSuccess else CExitError], StillOpen)"
    using assms(3,4) atoi_itoa [OF assms(5,6)]
    by (simp add: doMonitor_def docker_events_own [OF assms(1)] assms(2) monitor_stream_quiet exit_status_def exit_event_def)
  then show ?thesis by simp
qed

definition logged_docker :: "docker_log container_api" where
  "logged_docker =
     \<lparr>api_start = (\<lambda>i d. (None, d)), api_inspect = (\<lambda>i d. Inr no_status), api_kill = (\<lambda>i s d. (None, d)),
      api_events = (\<lambda>f d. map (snd \<circ> snd) (filter (matches f) d)),
      api_logs = (\<lambda>i opts d. if d = [] then Inl (ErrExtern ''no such container'') else Inr ([''log''], None))\<rparr>"

lemma logged_docker_events: "docker_events logged_docker (\<lambda>d. d)"
  by (simp add: docker_events_def logged_docker_def)

theorem monitor_reports_own_exit_witness:
  "monitor logged_docker ''a''
     [[(''container'', ''a'', DockerEvent ''start'' None), (''container'', ''b'', DockerEvent ''die'' (Some ''0'')),
      (''network'', ''a'', DockerEvent ''destroy'' None), (''container'', ''a'', DockerEvent ''die'' (Some (itoa 1))),
      (''container'', ''b'', DockerEvent ''destroy'' None), (''container'', ''a'', DockerEvent ''destroy'' None)]]
   = ([CExitError], StillOpen)"
proof -
  let ?d = "[(''container'', ''a'', DockerEvent ''start'' None), (''container'', ''b'', DockerEvent ''die'' (Some ''0'')),
      (''network'', ''a'', DockerEvent ''destroy'' None), (''container'', ''a'', DockerEvent ''die'' (Some (itoa 1))),
      (''container'', ''b'', DockerEvent ''destroy'' None), (''container'', ''a'', DockerEvent ''destroy'' None)]"
  have "monitor logged_docker ''a'' (?d # []) = ([if (word_of_int 1 :: 32 word) = 0 then CExitSuccess else CExitError], StillOpen)"
    by (rule monitor_reports_own_exit [OF logged_docker_events,
          where earlier = "[DockerEvent ''start'' None]" and later = "[]" and attr = None]) simp_all
  then show ?thesis by simp
qed

text \<open>
  A stream that breaks between the death and the removal: the new subscription tells of the removal
  only, and a container that failed is reported as a success.
\<close>

lemma broken_stream_hides_failure:
  assumes "containerEvents dk (events_filter i) d = [DockerEvent ''die'' (Some ''1''), StreamError err]"
    and "containerEvents dk (events_filter i) d' = [DockerEvent ''destroy'' None]"
  shows "monitor dk i [d, d'] = ([CExitSuccess], StillOpen)"
  using assms by (simp add: doMonitor_def exit_event_def)

text \<open>
  A container whose log cannot be read ends the daemon: the goroutine that copies the log, which
  every creation starts, panics exactly when docker answers its call with an error.
\<close>

theorem unreadable_log_crashes:
  "dumpLogs dk i d = Panic \<longleftrightarrow> (\<exists>err. api_logs dk i dump_options d = Inl err)"
  by (auto simp: dumpLogs_def dump_body_def containerLogs_def split: sum.splits)

end
