(* ===== verification/Lifecycle_Exec.thy ===== *)
theory Lifecycle_Exec
  imports Builtin_Access Lifecycle_Manager "HOL-Library.Multiset"
begin

text \<open>
  What the actions of \<^verbatim>\<open>lifecycle/\<close> do outside the daemon: the child process of \<open>exec\<close> with the
  copying of its output (\<^verbatim>\<open>action_exec.go\<close>), the exchange of \<open>http.get\<close> (\<^verbatim>\<open>action_http.go\<close>) and
  the dial of \<open>tcp.connect\<close> (\<^verbatim>\<open>action_tcp.go\<close>); and the registry that the plugins enter
  themselves into (\<^verbatim>\<open>action.go\<close> and the \<open>init\<close> functions). The operating system and the network
  are arguments. \<open>Lifecycle_Actions\<close> has the same actions with their outcome as one argument.
\<close>

section \<open>The environment of an action\<close>

text \<open>\<^verbatim>\<open>env.go\<close>: the context of the attempt, here its deadline if it has one, and a log.\<close>

record 'l lifecycle_env =
  env_ctx :: "int option"
  env_log :: 'l

definition NewEnv :: "int option \<Rightarrow> 'l \<Rightarrow> 'l lifecycle_env" where
  "NewEnv ctx log = \<lparr>env_ctx = ctx, env_log = log\<rparr>"

definition env_Context :: "'l lifecycle_env \<Rightarrow> int option" where
  "env_Context e = env_ctx e"

definition env_Log :: "'l lifecycle_env \<Rightarrow> 'l" where
  "env_Log e = env_log e"

section \<open>Copying the output\<close>

text \<open>
  What one \<open>Read\<close> of a pipe returns: some bytes, and an error or the end of the file. Both can
  come together.
\<close>

record read_result =
  read_bytes :: string
  read_err :: "go_error option"

text \<open>
  \<open>copyLogs\<close> on the results of the reads it makes, with what it has logged so far. When the list
  is at its end the next read does not return: something still holds the other end of the pipe.
\<close>

fun copyLogs :: "read_result list \<Rightarrow> string list \<Rightarrow> string list go" where
  "copyLogs [] logged = Blocked"
| "copyLogs (r # rs) logged =
     (let logged' = (if 0 < length (read_bytes r) then logged @ [read_bytes r] else logged) in
      if read_err r \<noteq> None then Done logged' else copyLogs rs logged')"

section \<open>\<open>exec\<close>\<close>

record exec_command =
  cmd_path :: string
  cmd_args :: "string list"
  cmd_dir :: string
  cmd_env :: "string list"
  cmd_deadline :: "int option"

text \<open>What the operating system answers for a command, in the order it is asked.\<close>

record process =
  stdout_pipe :: "go_error option"
  stderr_pipe :: "go_error option"
  start_error :: "go_error option"
  stdout_reads :: "read_result list"
  stderr_reads :: "read_result list"
  wait_error :: "go_error option"

text \<open>The result of the action, and what was logged at the levels debug and error.\<close>

record exec_result =
  exec_error :: "go_error option"
  exec_debug :: "string list"
  exec_errors :: "string list"

definition failed :: "go_error \<Rightarrow> exec_result" where
  "failed err = \<lparr>exec_error = Some err, exec_debug = [], exec_errors = []\<rparr>"

text \<open>
  From the pipes on: both outputs are copied to their end by two goroutines, the action waits for
  both, and only then for the process.
\<close>

definition run_process :: "process \<Rightarrow> exec_result go" where
  "run_process pr =
     (case stdout_pipe pr of
        Some err \<Rightarrow> Done (failed err)
      | None \<Rightarrow>
          (case stderr_pipe pr of
             Some err \<Rightarrow> Done (failed err)
           | None \<Rightarrow>
               (case start_error pr of
                  Some err \<Rightarrow> Done (failed err)
                | None \<Rightarrow>
                    (case (copyLogs (stdout_reads pr) [], copyLogs (stderr_reads pr) []) of
                       (Done out, Done errs) \<Rightarrow>
                         Done \<lparr>exec_error = wait_error pr, exec_debug = out, exec_errors = errs\<rparr>
                     | _ \<Rightarrow> Blocked))))"

definition exec_command_of ::
  "'l lifecycle_env \<Rightarrow> string \<Rightarrow> string list \<Rightarrow> string \<Rightarrow> string list \<Rightarrow> exec_command" where
  "exec_command_of e path args dir env =
     \<lparr>cmd_path = path, cmd_args = args, cmd_dir = dir, cmd_env = env, cmd_deadline = env_Context e\<rparr>"

definition actionExec_run ::
  "'t engine \<Rightarrow> (exec_command \<Rightarrow> process) \<Rightarrow> 'l lifecycle_env \<Rightarrow> string \<Rightarrow> string list \<Rightarrow> string list \<Rightarrow> string
     \<Rightarrow> 't params \<Rightarrow> exec_result go" where
  "actionExec_run eng os e path args env dir p =
     (case interpolate_all eng p env (exec_base_env p) of
        Done (Inl err) \<Rightarrow> Done (failed err)
      | Done (Inr full) \<Rightarrow> run_process (os (exec_command_of e path args dir full))
      | Blocked \<Rightarrow> Blocked
      | Panic \<Rightarrow> Panic)"

section \<open>\<open>http.get\<close> and \<open>tcp.connect\<close>\<close>

text \<open>
  The exchange: the request may not be built or not be answered; an answer has a status and a
  body, which is read to its end. Nothing looks at the status.
\<close>

record http_answer =
  http_status :: int
  body_error :: "go_error option" \<comment> \<open>what ends the reading of the body, if not its end\<close>

definition http_fetch ::
  "(string \<Rightarrow> go_error option) \<Rightarrow> (string \<Rightarrow> go_error + http_answer) \<Rightarrow> string \<Rightarrow> go_error option" where
  "http_fetch new_request send u =
     (case new_request u of
        Some err \<Rightarrow> Some err
      | None \<Rightarrow> (case send u of Inl err \<Rightarrow> Some err | Inr resp \<Rightarrow> body_error resp))"

text \<open>The whole of \<open>Do\<close>.\<close>

definition actionHttpGet_run ::
  "'t engine \<Rightarrow> (string \<Rightarrow> go_error option) \<Rightarrow> (string \<Rightarrow> go_error + http_answer) \<Rightarrow> 't option \<Rightarrow> 't params
     \<Rightarrow> go_error option" where
  "actionHttpGet_run eng new_request send tmpl p = actionHttpGet_Do eng (http_fetch new_request send) tmpl p"

definition actionTCPConnect_run ::
  "(string \<Rightarrow> int \<Rightarrow> go_error option) \<Rightarrow> action_config \<Rightarrow> 't params \<Rightarrow> go_error option go" where
  "actionTCPConnect_run dial ac p = actionTCPConnect_Do (dial (JoinHostPort (hostname p) (port p)) (Timeout ac))"

section \<open>The runner of an action\<close>

text \<open>
  \<^verbatim>\<open>runner.go\<close>: the runner of an action that has been configured under a name of the manager. The
  context and the parameters are part of what the attempts answer.
\<close>

record action_runner =
  ar_config :: action_config
  ar_type :: string
  ar_name :: string

definition newActionRunner :: "'t action \<Rightarrow> string \<Rightarrow> action_runner" where
  "newActionRunner a name = \<lparr>ar_config = Config a, ar_type = ac_type (Config a), ar_name = name\<rparr>"

definition ar_Run :: "action_runner \<Rightarrow> (int \<Rightarrow> attempt_env) \<Rightarrow> runner_event list \<times> go_error option" where
  "ar_Run ar env = runner_loop (ar_config ar) env 1"

lemma runAction_runner: "runAction (Some a) env = ar_Run (newActionRunner a name) env"
  by (simp add: runAction_def ar_Run_def newActionRunner_def runner_Run_def)

section \<open>The registry of plugins\<close>

type_synonym 't parser = "json \<Rightarrow> go_error + 't action"
type_synonym 't registry = "string \<rightharpoonup> 't parser"

definition RegisterActionPlugin :: "string \<times> 't parser \<Rightarrow> 't registry \<Rightarrow> 't registry" where
  "RegisterActionPlugin ap plugins = plugins(fst ap \<mapsto> snd ap)"

definition MakeActionPlugin :: "string \<Rightarrow> 't parser \<Rightarrow> 't registry \<Rightarrow> 't registry" where
  "MakeActionPlugin name fn = RegisterActionPlugin (name, fn)"

text \<open>The \<open>init\<close> functions, one for each file.\<close>

definition init_noop :: "durations \<Rightarrow> 't registry \<Rightarrow> 't registry" where
  "init_noop pd = MakeActionPlugin ''noop'' (actionNoopParse pd)"

definition init_tcp :: "durations \<Rightarrow> 't registry \<Rightarrow> 't registry" where
  "init_tcp pd = MakeActionPlugin ''tcp.connect'' (actionTCPConnectParse pd)"

definition init_http :: "'t engine \<Rightarrow> durations \<Rightarrow> 't registry \<Rightarrow> 't registry" where
  "init_http eng pd = MakeActionPlugin ''http.get'' (actionHttpGetParse eng pd)"

definition init_exec :: "durations \<Rightarrow> 't registry \<Rightarrow> 't registry" where
  "init_exec pd = MakeActionPlugin ''exec'' (actionExecParse pd)"

definition init_pg_exec :: "durations \<Rightarrow> 't registry \<Rightarrow> 't registry" where
  "init_pg_exec pd = MakeActionPlugin ''postgres.exec'' (actionPGExecParse pd)"

definition init_pg_ping :: "durations \<Rightarrow> 't registry \<Rightarrow> 't registry" where
  "init_pg_ping pd = MakeActionPlugin ''postgres.ping'' (actionPGPingParse pd)"

definition init_pg_truncate :: "durations \<Rightarrow> 't registry \<Rightarrow> 't registry" where
  "init_pg_truncate pd = MakeActionPlugin ''postgres.truncate'' (actionPGTruncateParse pd)"

definition init_redis_exec :: "durations \<Rightarrow> 't registry \<Rightarrow> 't registry" where
  "init_redis_exec pd =
     MakeActionPlugin ''redis.ping'' (actionRedisExecParse pd) \<circ> MakeActionPlugin ''redis.exec'' (actionRedisExecParse pd)"

definition init_redis_truncate :: "durations \<Rightarrow> 't registry \<Rightarrow> 't registry" where
  "init_redis_truncate pd = MakeActionPlugin ''redis.truncate'' (actionRedisTruncateParse pd)"

definition plugin_inits :: "'t engine \<Rightarrow> durations \<Rightarrow> ('t registry \<Rightarrow> 't registry) list" where
  "plugin_inits eng pd =
     [init_noop pd, init_tcp pd, init_http eng pd, init_exec pd, init_pg_exec pd, init_pg_ping pd,
      init_pg_truncate pd, init_redis_exec pd, init_redis_truncate pd]"

lemmas plugin_init_defs =
  init_noop_def init_tcp_def init_http_def init_exec_def init_pg_exec_def init_pg_ping_def
  init_pg_truncate_def init_redis_exec_def init_redis_truncate_def MakeActionPlugin_def RegisterActionPlugin_def

section \<open>Facts\<close>

text \<open>The reads up to the one that ends the copying, and what is logged of them.\<close>

definition ends :: "read_result list \<Rightarrow> bool" where
  "ends rs \<longleftrightarrow> list_ex (\<lambda>r. read_err r \<noteq> None) rs"

fun reads_made :: "read_result list \<Rightarrow> read_result list" where
  "reads_made [] = []"
| "reads_made (r # rs) = r # (if read_err r \<noteq> None then [] else reads_made rs)"

definition chunks :: "read_result list \<Rightarrow> string list" where
  "chunks rs = filter (\<lambda>b. b \<noteq> []) (map read_bytes (reads_made rs))"

lemma copyLogs_result: "copyLogs rs logged = (if ends rs then Done (logged @ chunks rs) else Blocked)"
  by (induction rs arbitrary: logged) (auto simp: ends_def chunks_def Let_def)

lemma run_process_result:
  "stdout_pipe pr = None \<Longrightarrow> stderr_pipe pr = None \<Longrightarrow> start_error pr = None \<Longrightarrow>
     run_process pr =
       (if ends (stdout_reads pr) \<and> ends (stderr_reads pr)
        then Done \<lparr>exec_error = wait_error pr, exec_debug = chunks (stdout_reads pr), exec_errors = chunks (stderr_reads pr)\<rparr>
        else Blocked)"
  by (simp add: run_process_def copyLogs_result)

text \<open>With outputs that end, the action is that of \<open>Lifecycle_Actions\<close> with this outcome.\<close>

definition process_outcome :: "process \<Rightarrow> go_error option" where
  "process_outcome pr =
     (case stdout_pipe pr of Some err \<Rightarrow> Some err | None \<Rightarrow>
       (case stderr_pipe pr of Some err \<Rightarrow> Some err | None \<Rightarrow>
         (case start_error pr of Some err \<Rightarrow> Some err | None \<Rightarrow> wait_error pr)))"

lemma run_process_outcome:
  "ends (stdout_reads pr) \<Longrightarrow> ends (stderr_reads pr) \<Longrightarrow> go_map exec_error (run_process pr) = Done (process_outcome pr)"
  by (simp add: run_process_def copyLogs_result process_outcome_def failed_def split: option.split)

lemma actionExec_run_outcome:
  assumes "\<And>c. ends (stdout_reads (os c)) \<and> ends (stderr_reads (os c))"
  shows "go_map exec_error (actionExec_run eng os e path args env dir p) =
     actionExec_Do eng (process_outcome \<circ> os \<circ> exec_command_of e path args dir) env p"
  using run_process_outcome assms
  by (cases "interpolate_all eng p env (exec_base_env p)")
    (auto simp: actionExec_run_def actionExec_Do_def failed_def split: sum.split)

section \<open>Properties\<close>

text \<open>
  C27: An \<open>exec\<close> action that could be started returns exactly when both of its outputs have
  ended, with the answer of the process, and everything that was written has been logged: the
  bytes of every read, in order, those that come with the end of the file included. The deadline
  of the attempt plays no part in it: it kills the process, but as long as anything else keeps
  an output open the action does not return.
\<close>

theorem exec_settles:
  assumes "interpolate_all eng p env (exec_base_env p) = Done (Inr full)"
    and "pr = os (exec_command_of e path args dir full)"
    and "stdout_pipe pr = None" "stderr_pipe pr = None" "start_error pr = None"
  shows "actionExec_run eng os e path args env dir p =
     (if list_ex (\<lambda>r. read_err r \<noteq> None) (stdout_reads pr) \<and> list_ex (\<lambda>r. read_err r \<noteq> None) (stderr_reads pr)
      then Done \<lparr>exec_error = wait_error pr, exec_debug = chunks (stdout_reads pr), exec_errors = chunks (stderr_reads pr)\<rparr>
      else Blocked)"
  using run_process_result [OF assms(3-5)] assms(1,2) by (simp add: actionExec_run_def ends_def)

text \<open>A command that prints its environment's first variable, with the last bytes at the end of the file.\<close>

definition printing_os :: "exec_command \<Rightarrow> process" where
  "printing_os c =
     \<lparr>stdout_pipe = None, stderr_pipe = None, start_error = None,
      stdout_reads = [\<lparr>read_bytes = hd (cmd_env c), read_err = None\<rparr>, \<lparr>read_bytes = ''!'', read_err = Some (ErrText ''EOF'')\<rparr>],
      stderr_reads = [\<lparr>read_bytes = [], read_err = Some (ErrText ''EOF'')\<rparr>], wait_error = None\<rparr>"

theorem exec_settles_witness:
  "actionExec_run field_engine printing_os (NewEnv (Some 5) ()) ''env'' [] [''A=b''] [] (sample_params ''0123'')
     = Done \<lparr>exec_error = None, exec_debug = [''EPHEMERALD_ID=0123'', ''!''], exec_errors = []\<rparr>"
proof -
  let ?p = "sample_params ''0123''"
  have i: "interpolate_all field_engine ?p [''A=b''] (exec_base_env ?p) = Done (Inr (exec_base_env ?p @ [''A=b'']))"
    by code_simp
  have h: "hd (exec_base_env ?p @ [''A=b'']) = ''EPHEMERALD_ID=0123''"
    by (simp add: exec_base_env_def sample_params_def)
  let ?pr = "printing_os (exec_command_of (NewEnv (Some 5) ()) ''env'' [] [] (exec_base_env ?p @ [''A=b'']))"
  have pr: "stdout_pipe ?pr = None" "stderr_pipe ?pr = None" "start_error ?pr = None"
    "stdout_reads ?pr = [\<lparr>read_bytes = ''EPHEMERALD_ID=0123'', read_err = None\<rparr>, \<lparr>read_bytes = ''!'', read_err = Some (ErrText ''EOF'')\<rparr>]"
    "stderr_reads ?pr = [\<lparr>read_bytes = [], read_err = Some (ErrText ''EOF'')\<rparr>]" "wait_error ?pr = None"
    using h by (simp_all add: printing_os_def exec_command_of_def)
  show ?thesis
    unfolding exec_settles [of field_engine ?p, where os = printing_os, OF i refl pr(1-3)] pr
    by (simp add: chunks_def)
qed

text \<open>
  The plugins can be looked up under their names whatever the order in which the \<open>init\<close>
  functions of the files run: the registry holds exactly the ten parsers, none of which
  overwrites another.
\<close>

theorem registry_any_order:
  assumes "mset inits = mset (plugin_inits eng pd)"
  shows "fold (\<lambda>init plugins. init plugins) inits Map.empty name =
     (case lookupPlugin eng pd name of Inr p \<Rightarrow> Some p | Inl err \<Rightarrow> None)"
proof -
  have "fold (\<lambda>init plugins. init plugins) inits = fold (\<lambda>init plugins. init plugins) (plugin_inits eng pd)"
  proof (rule fold_multiset_equiv [OF _ assms])
    fix f g
    assume "f \<in> set inits" "g \<in> set inits"
    then have "f \<in> set (plugin_inits eng pd)" "g \<in> set (plugin_inits eng pd)"
      using assms by (metis set_mset_mset)+
    then show "(\<lambda>plugins. f plugins) \<circ> (\<lambda>plugins. g plugins) = (\<lambda>plugins. g plugins) \<circ> (\<lambda>plugins. f plugins)"
      by (auto simp: plugin_inits_def plugin_init_defs fun_eq_iff)
  qed
  then show ?thesis by (simp add: plugin_inits_def plugin_init_defs lookupPlugin_def)
qed

theorem registry_any_order_witness:
  "fold (\<lambda>init plugins. init plugins) (rev (plugin_inits field_engine (\<lambda>_. Inr 0))) Map.empty ''redis.ping''
     = Some (actionRedisExecParse (\<lambda>_. Inr 0))"
  using registry_any_order [of "rev (plugin_inits field_engine (\<lambda>_. Inr 0))" field_engine "\<lambda>_. Inr 0" "''redis.ping''"]
  by (simp add: lookupPlugin_def)

text \<open>
  \<open>http.get\<close> succeeds with every status: an answer whose body can be read makes the action
  succeed, that of a failing server too.
\<close>

theorem any_status_succeeds:
  assumes "new_request u = None" "send u = Inr resp" "body_error resp = None" "u \<noteq> []"
  shows "actionHttpGet_run eng new_request send None (p\<lparr>url := u\<rparr>) = None"
  using assms by (simp add: actionHttpGet_run_def actionHttpGet_Do_def http_fetch_def)

theorem any_status_succeeds_witness:
  "actionHttpGet_run field_engine (\<lambda>_. None) (\<lambda>_. Inr \<lparr>http_status = 503, body_error = None\<rparr>) None
     ((sample_params ''id'')\<lparr>url := ''http://localhost/''\<rparr>) = None"
  by (rule any_status_succeeds [where resp = "\<lparr>http_status = 503, body_error = None\<rparr>"]) simp_all

end
