(* ===== verification/Net_Builder.thy ===== *)
theory Net_Builder
  imports Net_Client
begin

text \<open>
  How servers and clients of the REST interface are put together: the builders of \<^verbatim>\<open>net/server.go\<close>
  and \<^verbatim>\<open>net/client.go\<close>, the creation of the listener and the server's accessors.
\<close>

section \<open>The server's builder\<close>

record 'q server_builder =
  sb_address :: string
  sb_pools :: "'q pool_map option" \<comment> \<open>nil until a pool set is given\<close>

text \<open>\<open>rs_closed\<close>: the channel of \<open>ServerCloseNotify\<close> has been closed.\<close>

record 'q rest_server =
  rs_listener :: "string option" \<comment> \<open>the address of the open listener\<close>
  rs_pools :: "'q pool_map option"
  rs_route :: "string \<Rightarrow> string \<Rightarrow> string \<Rightarrow> route option"
  rs_closed :: bool

definition NewServerBuilder :: "'q server_builder" where
  "NewServerBuilder = \<lparr>sb_address = DefaultListenAddress, sb_pools = None\<rparr>"

definition WithPoolSet :: "'q pool_map \<Rightarrow> 'q server_builder \<Rightarrow> 'q server_builder" where
  "WithPoolSet ps sb = sb\<lparr>sb_pools := Some ps\<rparr>"

definition WithAddress :: "string \<Rightarrow> 'q server_builder \<Rightarrow> 'q server_builder" where
  "WithAddress a sb = sb\<lparr>sb_address := a\<rparr>"

definition builder_WithPort :: "int \<Rightarrow> 'q server_builder \<Rightarrow> 'q server_builder" where
  "builder_WithPort n sb = sb\<lparr>sb_address := WithPort n (sb_address sb)\<rparr>"

text \<open>\<open>listen\<close>: \<^verbatim>\<open>net.Listen\<close>, the address the listener is bound to.\<close>

definition server_Create :: "(string \<Rightarrow> go_error + string) \<Rightarrow> 'q server_builder \<Rightarrow> go_error + 'q rest_server" where
  "server_Create listen sb =
     (case listen (sb_address sb) of
        Inl err \<Rightarrow> Inl err
      | Inr bound \<Rightarrow> Inr \<lparr>rs_listener = Some bound, rs_pools = sb_pools sb, rs_route = routes, rs_closed = False\<rparr>)"

section \<open>The server\<close>

definition server_Address :: "'q rest_server \<Rightarrow> string" where
  "server_Address srv = (case rs_listener srv of None \<Rightarrow> [] | Some a \<Rightarrow> a)"

definition bound_Port :: "'q rest_server \<Rightarrow> int" where
  "bound_Port srv = server_Port (server_Address srv)"

definition ServerCloseNotify :: "'q rest_server \<Rightarrow> bool" where
  "ServerCloseNotify srv = rs_closed srv"

section \<open>The client's builder\<close>

definition client_WithAddress :: "string \<Rightarrow> client \<Rightarrow> client" where
  "client_WithAddress a b = b\<lparr>address := a\<rparr>"

definition client_Create :: "client \<Rightarrow> go_error + client" where
  "client_Create b = Inr \<lparr>address = address b\<rparr>"

section \<open>Properties\<close>

text \<open>
  C31: A server and a client meet on the port that the server reports, IPv6 literals included. The
  listener may pick a port, as \<^verbatim>\<open>net.Listen\<close> does for port 0, and keeps any other: the server keeps
  its pools and routes and reports the port its listener is bound to, the one asked for unless that
  was 0; a client built with the same address and the reported port sends to that port of the
  host. An address that cannot be listened on is an error.
\<close>

theorem builders_meet:
  assumes "SplitHostPort a = Inr (h, p)" "0 \<le> n" "n < 2 ^ 16"
    and listening: "\<And>b. listen (WithPort n a) = Inr b \<Longrightarrow>
      \<exists>g m. SplitHostPort b = Inr (g, itoa m) \<and> 0 \<le> m \<and> m < 2 ^ 16 \<and> (n \<noteq> 0 \<longrightarrow> m = n)"
  shows "(case server_Create listen (builder_WithPort n (WithPoolSet ps (WithAddress a NewServerBuilder))) of
        Inl err \<Rightarrow> listen (WithPort n a) = Inl err
      | Inr srv \<Rightarrow> rs_pools srv = Some ps \<and> rs_route srv = routes \<and> (n \<noteq> 0 \<longrightarrow> bound_Port srv = n)
          \<and> (\<exists>g. SplitHostPort (server_Address srv) = Inr (g, itoa (bound_Port srv)))
          \<and> (\<exists>c. client_Create (client_WithPort (bound_Port srv) (client_WithAddress a NewClientBuilder)) = Inr c
                \<and> SplitHostPort (address c) = Inr (h, itoa (bound_Port srv))))"
proof (cases "listen (WithPort n a)")
  case (Inl err)
  then show ?thesis by (simp add: server_Create_def builder_WithPort_def WithPoolSet_def WithAddress_def)
next
  case (Inr b)
  then obtain g m where m: "SplitHostPort b = Inr (g, itoa m)" "0 \<le> m" "m < 2 ^ 16" "n \<noteq> 0 \<longrightarrow> m = n"
    using listening by blast
  then have port: "server_Port b = m" using atoi_itoa [of m] by (simp add: server_Port_def)
  have "SplitHostPort (WithPort m a) = Inr (h, itoa m)"
    using with_port_keeps_host [OF assms(1) m(2,3)] by blast
  with Inr m port show ?thesis
    by (auto simp: server_Create_def builder_WithPort_def WithPoolSet_def WithAddress_def bound_Port_def
        server_Address_def client_Create_def client_WithPort_def client_WithAddress_def)
qed

text \<open>A listener that answers a request for port 0 with port 49152, and keeps the others.\<close>

definition sample_listen :: "string \<Rightarrow> go_error + string" where
  "sample_listen a = (if a = ''[::1]:0'' then Inr ''[::1]:49152'' else Inr a)"

theorem builders_meet_witness:
  "\<exists>srv c. server_Create sample_listen (builder_WithPort 0 (WithPoolSet [''redis'' \<mapsto> ()] (WithAddress ''[::1]:6000'' NewServerBuilder))) = Inr srv
     \<and> client_Create (client_WithPort (bound_Port srv) (client_WithAddress ''[::1]:6000'' NewClientBuilder)) = Inr c
     \<and> SplitHostPort (address c) = Inr (''::1'', itoa (bound_Port srv))"
proof -
  have a: "SplitHostPort ''[::1]:6000'' = Inr (''::1'', ''6000'')" by code_simp
  have w: "WithPort 0 ''[::1]:6000'' = ''[::1]:0''" by code_simp
  have s: "SplitHostPort ''[::1]:49152'' = Inr (''::1'', itoa 49152)"
  proof -
    have "itoa 49152 = ''49152''" by (simp add: itoa_def show_nat.simps digit_char_def char_of_def bit_Suc_0_iff)
    moreover have "SplitHostPort ''[::1]:49152'' = Inr (''::1'', ''49152'')" by code_simp
    ultimately show ?thesis by simp
  qed
  have l: "\<exists>g m. SplitHostPort b = Inr (g, itoa m) \<and> 0 \<le> m \<and> m < 2 ^ 16 \<and> ((0::int) \<noteq> 0 \<longrightarrow> m = 0)"
    if "sample_listen (WithPort 0 ''[::1]:6000'') = Inr b" for b
    using that s by (auto simp: w sample_listen_def intro!: exI [of _ 49152])
  note meet = builders_meet [where listen = sample_listen and n = 0 and ps = "[''redis'' \<mapsto> ()]", OF a _ _ l]
  have srv: "server_Create sample_listen (builder_WithPort 0 (WithPoolSet [''redis'' \<mapsto> ()]
      (WithAddress ''[::1]:6000'' NewServerBuilder))) = Inr \<lparr>rs_listener = Some ''[::1]:49152'',
      rs_pools = Some [''redis'' \<mapsto> ()], rs_route = routes, rs_closed = False\<rparr>"
    by (simp add: server_Create_def builder_WithPort_def WithPoolSet_def WithAddress_def w sample_listen_def)
  show ?thesis using meet unfolding srv sum.case by (simp (no_asm_use)) blast
qed

end
