(* ===== verification/Net_Service.thy ===== *)
theory Net_Service
  imports Pool_Properties Docker_Adapter Net_Client
begin

text \<open>
  The service as a whole: the pools of a configuration, each the system of \<open>Pool_System\<close> with its
  own goroutines, and the REST requests in flight, from the routing of a request (\<^verbatim>\<open>net/server.go\<close>)
  through the pool set (\<^verbatim>\<open>poolset.go\<close>) to the checkout of each pool (\<^verbatim>\<open>pool.go\<close>, \<^verbatim>\<open>adapter.go\<close>) and
  back to the reply. A label says which pool or which request moves.
\<close>

section \<open>State\<close>

text \<open>
  A checkout request: the \<open>Host\<close> it was sent to, the pool it names, if it is not a batch, the pools
  whose goroutine of \<open>CheckoutWith\<close> has not answered, and the answers in order of arrival.
\<close>

record 't svc_request =
  rq_host :: string
  rq_single :: "string option"
  rq_waiting :: "string list"
  rq_answers :: "(string \<times> (go_error + 't params)) list"

text \<open>
  \<open>svc_names\<close> lists the names of the pool set. \<open>svc_clients\<close>: the containers that successful
  replies have handed to clients and that have not been returned, with their pools. \<open>svc_lost\<close>: those
  of replies that no client has received.
\<close>

record 't service =
  svc_names :: "string list"
  svc_pools :: "sys pool_map"
  svc_requests :: "'t svc_request list"
  svc_clients :: "(string \<times> cid) list"
  svc_lost :: "(string \<times> cid) list"

text \<open>What the parts around the pools are given: lifecycles, adapters, templates, the JSON encoder.\<close>

record 't svc_env =
  se_lifecycle :: "string \<Rightarrow> lifecycle_flags"
  se_adapter :: "string \<Rightarrow> 't dadapter"
  se_engine :: "'t engine"
  se_marshal_set :: "'t params param_set \<Rightarrow> go_error + string"
  se_marshal :: "'t params \<Rightarrow> go_error + string"

text \<open>The service of a configuration with these names and sizes, once its pools have been created.\<close>

definition newService :: "(string \<times> int) list \<Rightarrow> 't service" where
  "newService configs =
     \<lparr>svc_names = remdups (map fst configs),
      svc_pools = fst (create_pools (\<lambda>n. Inr (newSys n)) configs Map.empty),
      svc_requests = [], svc_clients = [], svc_lost = []\<rparr>"

section \<open>Steps of the pools\<close>

text \<open>The steps a pool takes by itself; the others are those of requests.\<close>

fun pool_op :: "sys_op \<Rightarrow> bool" where
  "pool_op (SysCheckout e) = False"
| "pool_op (SysReturn i) = False"
| "pool_op (SysReturnAny i) = False"
| "pool_op _ = True"

definition svc_pool_step :: "'t svc_env \<Rightarrow> string \<Rightarrow> sys_op \<Rightarrow> 't service \<Rightarrow> 't service option" where
  "svc_pool_step env n op v =
     (case svc_pools v n of
        None \<Rightarrow> None
      | Some s \<Rightarrow> map_option (\<lambda>t. v\<lparr>svc_pools := (svc_pools v)(n \<mapsto> t)\<rparr>) (sys_exec (se_lifecycle env n) op s))"

text \<open>\<open>Return\<close> of a pool: the identifier is sent, whoever held it.\<close>

definition pool_Return :: "cid \<Rightarrow> sys \<Rightarrow> sys" where
  "pool_Return i s = s\<lparr>held := remove1 i (held s), returning := returning s @ [i]\<rparr>"

section \<open>Checkout requests\<close>

text \<open>
  The beginning of both handlers: without a port in \<open>Host\<close>, or with an empty name, the request is
  refused before anything is checked out. Otherwise one goroutine starts for each selected pool.
\<close>

definition svc_begin :: "string \<Rightarrow> string option \<Rightarrow> 't service \<Rightarrow> 't service" where
  "svc_begin host single v =
     (case SplitHostPort host of
        Inl err \<Rightarrow> v
      | Inr _ \<Rightarrow>
          if single = Some [] then v else
          v\<lparr>svc_requests := svc_requests v @
             [\<lparr>rq_host = host, rq_single = single,
               rq_waiting = filter (\<lambda>n. case single of None \<Rightarrow> True | Some m \<Rightarrow> n = m) (svc_names v),
               rq_answers = []\<rparr>]\<rparr>)"

text \<open>The answer \<open>r\<close> of pool \<open>n\<close> arrives at request \<open>k\<close>.\<close>

definition svc_answer :: "nat \<Rightarrow> string \<Rightarrow> go_error + 't params \<Rightarrow> 't service \<Rightarrow> 't service option" where
  "svc_answer k n r v =
     (if k < length (svc_requests v) \<and> n \<in> set (rq_waiting (svc_requests v ! k))
      then let q = svc_requests v ! k in
        Some (v\<lparr>svc_requests := (svc_requests v)
                [k := q\<lparr>rq_waiting := remove1 n (rq_waiting q), rq_answers := rq_answers q @ [(n, r)]\<rparr>]\<rparr>)
      else None)"

text \<open>
  The goroutine of request \<open>k\<close> for pool \<open>n\<close>: the \<^theory_text>\<open>select\<close> of the pool's \<open>CheckoutWith\<close> takes an
  item from the ready buffer, whose parameters are made with the status \<open>st\<close>.
\<close>

definition svc_item :: "'t svc_env \<Rightarrow> nat \<Rightarrow> string \<Rightarrow> container_json \<Rightarrow> 't service \<Rightarrow> 't service option" where
  "svc_item env k n st v =
     (case svc_pools v n of
        None \<Rightarrow> None
      | Some s \<Rightarrow>
          (case buffer_get (buffer s) of
             Done (Some i, _) \<Rightarrow>
               (case pool_CheckoutWith (se_engine env) (se_adapter env n) (CheckoutItem (Some (i, st))) of
                  Done (r, back) \<Rightarrow>
                    Option.bind (svc_pool_step env n (SysCheckout (case r of Inl err \<Rightarrow> Some err | Inr p \<Rightarrow> None)) v)
                      (svc_answer k n r)
                | _ \<Rightarrow> None)
           | _ \<Rightarrow> None))"

text \<open>It finds the request's context done, or the ready buffer closed.\<close>

definition svc_refused :: "nat \<Rightarrow> string \<Rightarrow> go_error \<Rightarrow> 't service \<Rightarrow> 't service option" where
  "svc_refused k n err v = svc_answer k n (Inl err) v"

definition svc_closed :: "nat \<Rightarrow> string \<Rightarrow> 't service \<Rightarrow> 't service option" where
  "svc_closed k n v =
     (case svc_pools v n of
        None \<Rightarrow> None
      | Some s \<Rightarrow> if outch_closed (buffer s) then svc_answer k n (Inl ErrNotRunning) v else None)"

text \<open>The items of a set of parameters, in some order of its names.\<close>

definition items_of :: "string list \<Rightarrow> 't params param_set \<Rightarrow> (string \<times> cid) list" where
  "items_of order ps = concat (map (\<lambda>n. case ps n of None \<Rightarrow> [] | Some p \<Rightarrow> [(n, param_id p)]) order)"

text \<open>The rest of the handlers, once the pool set has collected every answer.\<close>

definition svc_response :: "'t svc_env \<Rightarrow> string list \<Rightarrow> 't svc_request \<Rightarrow> 't params response go" where
  "svc_response env order q =
     (let answer = fst (set_CheckoutWith (rq_answers q)) in
      case rq_single q of
        None \<Rightarrow> handleCheckoutBatch (se_engine env) (se_marshal_set env) (rq_host q) order answer
      | Some n \<Rightarrow> handleCheckoutPool (se_engine env) (se_marshal env) (rq_host q) n (\<lambda>_. answer))"

text \<open>What goes back to the pools: by the pool set when a pool failed, by the handler otherwise.\<close>

definition svc_backs :: "string list \<Rightarrow> 't svc_request \<Rightarrow> 't params response \<Rightarrow> (string \<times> cid) list" where
  "svc_backs order q r =
     items_of order (snd (set_CheckoutWith (rq_answers q))) @ items_of order (handed_back r)"

text \<open>What a successful reply hands to the client: the set, or the pool's entry of it.\<close>

definition svc_taken :: "string list \<Rightarrow> 't svc_request \<Rightarrow> (string \<times> cid) list" where
  "svc_taken order q =
     (case fst (set_CheckoutWith (rq_answers q)) of
        Inl err \<Rightarrow> []
      | Inr ps \<Rightarrow> items_of (case rq_single q of None \<Rightarrow> order | Some n \<Rightarrow> [n]) ps)"

definition svc_given :: "string list \<Rightarrow> 't svc_request \<Rightarrow> 't params response \<Rightarrow> (string \<times> cid) list" where
  "svc_given order q r = (if code r \<noteq> StatusOK then [] else svc_taken order q)"

text \<open>
  The reply to request \<open>k\<close>. The handlers do not look at the error of \<open>w.Write\<close>: when the reply is not
  \<open>sent\<close>, its containers are in nobody's hands. Nor are those of a handler that panics, whose
  goroutine \<^verbatim>\<open>net/http\<close> ends with the request.
\<close>

definition svc_reply :: "'t svc_env \<Rightarrow> nat \<Rightarrow> string list \<Rightarrow> bool \<Rightarrow> 't service \<Rightarrow> 't service option" where
  "svc_reply env k order sent v =
     (if k < length (svc_requests v) \<and> rq_waiting (svc_requests v ! k) = []
        \<and> distinct order \<and> set order = set (svc_names v)
      then
        (let q = svc_requests v ! k; rest = take k (svc_requests v) @ drop (Suc k) (svc_requests v) in
         case svc_response env order q of
           Done r \<Rightarrow>
             Some (v\<lparr>svc_requests := rest,
                     svc_pools := set_ReturnAll pool_Return (svc_backs order q r) (svc_pools v),
                     svc_clients := svc_clients v @ (if sent then svc_given order q r else []),
                     svc_lost := svc_lost v @ (if sent then [] else svc_given order q r)\<rparr>)
         | Panic \<Rightarrow>
             Some (v\<lparr>svc_requests := rest,
                     svc_pools := set_ReturnAll pool_Return (items_of order (snd (set_CheckoutWith (rq_answers q)))) (svc_pools v),
                     svc_clients := svc_clients v, svc_lost := svc_lost v @ svc_taken order q\<rparr>)
         | Blocked \<Rightarrow> None)
      else None)"

section \<open>Return requests\<close>

text \<open>
  The handlers pass on whatever pools and identifiers a client names. Nobody but the client knows
  whether it was given them: what it held of them, it holds no more.
\<close>

definition svc_return :: "string \<Rightarrow> cid \<Rightarrow> 't service \<Rightarrow> 't service" where
  "svc_return n i v =
     (case handed_back (handleReturn n i) n of
        None \<Rightarrow> v
      | Some j \<Rightarrow>
          v\<lparr>svc_pools := set_Return pool_Return n j (svc_pools v), svc_clients := remove1 (n, j) (svc_clients v)\<rparr>)"

text \<open>The body of a batch is a map from names, here the list of its entries in the order they are visited.\<close>

definition svc_return_batch :: "(string \<times> cid) list \<Rightarrow> 't service \<Rightarrow> 't service option" where
  "svc_return_batch items v =
     (if distinct (map fst items)
      then Some (v\<lparr>svc_pools := set_ReturnAll pool_Return items (svc_pools v),
                   svc_clients := fold remove1 items (svc_clients v)\<rparr>)
      else None)"

section \<open>The machine\<close>

datatype svc_op =
    SvcPool string sys_op
  | SvcRequest string route \<comment> \<open>a checkout request with its \<open>Host\<close>\<close>
  | SvcItem nat string container_json
  | SvcRefused nat string go_error
  | SvcClosed nat string
  | SvcReply nat "string list" bool \<comment> \<open>whether the reply reaches its client\<close>
  | SvcReturn string cid
  | SvcReturnBatch "(string \<times> cid) list"

fun svc_step :: "'t svc_env \<Rightarrow> svc_op \<Rightarrow> 't service \<Rightarrow> 't service option" where
  "svc_step env (SvcPool n op) v = (if pool_op op then svc_pool_step env n op v else None)"
| "svc_step env (SvcRequest host rt) v =
     (case rt of
        CheckoutBatch \<Rightarrow> Some (svc_begin host None v)
      | CheckoutPool n \<Rightarrow> Some (svc_begin host (Some n) v)
      | _ \<Rightarrow> None)"
| "svc_step env (SvcItem k n st) v = svc_item env k n st v"
| "svc_step env (SvcRefused k n err) v = svc_refused k n err v"
| "svc_step env (SvcClosed k n) v = svc_closed k n v"
| "svc_step env (SvcReply k order sent) v = svc_reply env k order sent v"
| "svc_step env (SvcReturn n i) v = Some (svc_return n i v)"
| "svc_step env (SvcReturnBatch items) v = svc_return_batch items v"

text \<open>A goroutine of a pool that has panicked has ended the process, with all its pools and requests.\<close>

definition svc_exec :: "'t svc_env \<Rightarrow> svc_op \<Rightarrow> 't service \<Rightarrow> 't service option" where
  "svc_exec env op v =
     (if list_ex (\<lambda>n. case svc_pools v n of None \<Rightarrow> False | Some s \<Rightarrow> crashed s) (svc_names v) then None
      else svc_step env op v)"

text \<open>The service whose clients return only what a reply has handed to them, once.\<close>

fun svc_disciplined :: "svc_op \<Rightarrow> 't service \<Rightarrow> bool" where
  "svc_disciplined (SvcReturn n i) v = ((n, i) \<in> set (svc_clients v))"
| "svc_disciplined (SvcReturnBatch items) v = (set items \<subseteq> set (svc_clients v))"
| "svc_disciplined _ v = True"

definition svc_fair :: "'t svc_env \<Rightarrow> svc_op \<Rightarrow> 't service \<Rightarrow> 't service option" where
  "svc_fair env op v = (if svc_disciplined op v then svc_exec env op v else None)"

section \<open>Pools: what a step does to the held items\<close>

lemma exec_call_held: "exec_call c s = Done t \<Longrightarrow> held t = held s"
  by (cases c) (auto simp: go_simps on_item_def split: option.splits)

lemma outcome_held: "Pool_System.outcome s r f = Some t \<Longrightarrow> (\<And>x. r = Done x \<Longrightarrow> held (f x) = held s) \<Longrightarrow> held t = held s"
  by (cases r) (auto simp: Pool_System.outcome_def)

lemma handled_held [simp]: "held (handled s r) = held s"
  by (simp add: handled_def)

lemma sys_next_held: "sys_next s = Some t \<Longrightarrow> held t = held s"
  by (auto simp: sys_next_def split: pool_pc.splits go.splits elim!: outcome_held)

lemma sys_item_event_held: "sys_item_event i s = Some t \<Longrightarrow> held t = held s"
  by (auto simp: sys_item_event_def split: option.splits go.splits elim!: outcome_held)

lemma pool_op_held: "sys_step lc op s = Some t \<Longrightarrow> pool_op op \<Longrightarrow> held t = held s"
  by (cases op)
    (auto simp: sys_next_held sys_item_event_held split: list.splits if_splits option.splits
      dest: exec_call_held elim!: outcome_held)

lemma pool_Return_step:
  assumes "excl_inv s" "i \<in> set (held s)"
  shows "excl_inv (pool_Return i s)"
proof -
  have "\<not> crashed s" using assms(1) by (simp add: excl_inv_def sys_inv_def parts_ok_def)
  then have "fair_exec lc (SysReturn i) s = Some (pool_Return i s)" for lc
    using assms(2) by (simp add: fair_exec_def sys_exec_def pool_Return_def)
  then show ?thesis using fair.step_inv assms(1) by blast
qed

lemma checkout_step:
  assumes "excl_inv s" "buffer_get (buffer s) = Done (Some i, b)" "sys_exec lc (SysCheckout e) s = Some t"
  shows "excl_inv t \<and> held t = held s @ (if e = None then [i] else [])"
proof -
  have "fair_exec lc (SysCheckout e) s = Some t" using assms(3) by (simp add: fair_exec_def)
  with assms(1) have "excl_inv t" using fair.step_inv by blast
  moreover have "held t = held s @ (if e = None then [i] else [])"
    using assms(2,3) by (auto simp: sys_exec_def Pool_System.outcome_def split: if_splits option.splits)
  ultimately show ?thesis by simp
qed

section \<open>Requests: what they account for\<close>

text \<open>The container of pool \<open>n\<close> that the request has obtained, if it has.\<close>

definition rq_items :: "string \<Rightarrow> 't svc_request \<Rightarrow> cid list" where
  "rq_items n q = (case map_of (rq_answers q) n of Some (Inr p) \<Rightarrow> [param_id p] | _ \<Rightarrow> [])"

definition rq_names :: "'t svc_request \<Rightarrow> string list" where
  "rq_names q = map fst (rq_answers q) @ rq_waiting q"

definition rq_ok :: "string list \<Rightarrow> 't svc_request \<Rightarrow> bool" where
  "rq_ok names q \<longleftrightarrow> distinct (rq_names q) \<and> set (rq_names q) \<subseteq> set names
     \<and> (\<forall>n. rq_single q = Some n \<longrightarrow> n \<noteq> [] \<and> set (rq_names q) \<subseteq> {n}) \<and> \<not> isl (SplitHostPort (rq_host q))"

definition in_flight_items :: "string \<Rightarrow> 't service \<Rightarrow> cid \<Rightarrow> nat" where
  "in_flight_items n v i = sum_list (map (\<lambda>q. count_list (rq_items n q) i) (svc_requests v))"

lemma count_items_of:
  "distinct order \<Longrightarrow> count_list (items_of order ps) (n, i) =
     (if n \<in> set order \<and> (\<exists>p. ps n = Some p \<and> param_id p = i) then 1 else 0)"
  unfolding items_of_def by (induction order) (auto split: option.split)

lemma items_of_names: "distinct order \<Longrightarrow> distinct (map fst (items_of order ps)) \<and> set (map fst (items_of order ps)) \<subseteq> set order"
  unfolding items_of_def by (induction order) (auto split: option.split)

lemma items_of_empty [simp]: "items_of order Map.empty = []"
  unfolding items_of_def by (induction order) auto

lemma map_of_snoc: "n \<notin> fst ` set xs \<Longrightarrow> map_of (xs @ [(n, r)]) m = (if m = n then Some r else map_of xs m)"
  by (induction xs) auto

lemma sum_list_remove:
  "k < length xs \<Longrightarrow> sum_list (map f xs) = f (xs ! k) + (sum_list (map f (take k xs @ drop (Suc k) xs)) :: nat)"
  by (subst id_take_nth_drop [of k xs]) simp_all

lemma sum_list_replace:
  "k < length xs \<Longrightarrow> sum_list (map f (xs[k := y])) + f (xs ! k) = sum_list (map f xs) + (f y :: nat)"
  by (induction xs arbitrary: k) (auto simp: nth_Cons split: nat.split)

text \<open>What the answers amount to: the parameters by name.\<close>

definition obtained :: "'t svc_request \<Rightarrow> 't params param_set" where
  "obtained q = (\<lambda>n. case map_of (rq_answers q) n of Some (Inr p) \<Rightarrow> Some p | _ \<Rightarrow> None)"

lemma set_CheckoutWith_obtained:
  assumes "rq_ok names q"
  shows "set_CheckoutWith (rq_answers q) = (Inr (obtained q), Map.empty)
    \<or> (\<exists>err. set_CheckoutWith (rq_answers q) = (Inl err, obtained q))"
proof -
  define errs where "errs = [] @ map projl (filter isl (map snd (rq_answers q)))"
  have d: "distinct (map fst (rq_answers q))" using assms by (simp add: rq_ok_def rq_names_def)
  have "collect_answers (rq_answers q) Map.empty [] = (obtained q, errs)"
    unfolding obtained_def errs_def by (rule collect_answers_spec [OF d]) simp
  then show ?thesis by (cases errs) (simp_all add: set_CheckoutWith_def)
qed

lemma count_obtained:
  assumes "rq_ok names q" "distinct order" "set order = set names" and "\<forall>n. map_option param_id (ps n) = map_option param_id (obtained q n)"
  shows "count_list (items_of order ps) (n, i) = count_list (rq_items n q) i"
proof -
  have "n \<in> set order" if "obtained q n \<noteq> None"
  proof -
    have "map_of (rq_answers q) n \<noteq> None" using that by (cases "map_of (rq_answers q) n") (simp_all add: obtained_def)
    then have "n \<in> set (rq_names q)" by (auto simp: rq_names_def map_of_eq_None_iff)
    then show ?thesis using assms(1,3) by (auto simp: rq_ok_def)
  qed
  moreover have "(\<exists>p. ps n = Some p \<and> param_id p = i) \<longleftrightarrow> (\<exists>p. obtained q n = Some p \<and> param_id p = i)"
    using spec [OF assms(4), of n] by (cases "ps n"; cases "obtained q n") auto
  ultimately show ?thesis
    using assms(2) by (cases "obtained q n")
      (auto simp: count_items_of rq_items_def obtained_def split: option.splits sum.splits)
qed

lemma count_obtained_single:
  assumes "rq_ok names q" "rq_single q = Some m"
  shows "count_list (items_of [m] (obtained q)) (n, i) = count_list (rq_items n q) i"
proof -
  have "map_of (rq_answers q) n = None" if "n \<noteq> m"
    using assms that by (auto simp: rq_ok_def rq_names_def map_of_eq_None_iff)
  then show ?thesis
    by (cases "n = m") (auto simp: count_items_of rq_items_def obtained_def split: option.splits sum.splits)
qed

text \<open>
  A handler's answer: what it hands back, if anything, has the identifiers of what was obtained,
  and it hands something back or succeeds, not both.
\<close>

lemma response_settles:
  assumes ok: "rq_ok names q" and s: "set_CheckoutWith (rq_answers q) = (Inr (obtained q), Map.empty)"
    and r: "svc_response env order q = Done r"
  shows "if code r = StatusOK then handed_back r = Map.empty
    else \<forall>n. map_option param_id (handed_back r n) = map_option param_id (obtained q n)"
proof -
  obtain host prt where h: "SplitHostPort (rq_host q) = Inr (host, prt)"
    using ok by (cases "SplitHostPort (rq_host q)") (auto simp: rq_ok_def)
  show ?thesis
  proof (cases "rq_single q")
    case None
    with r s have "handleCheckoutBatch (se_engine env) (se_marshal_set env) (rq_host q) order (Inr (obtained q)) = Done r"
      by (simp add: svc_response_def)
    from batch_checkout_no_leak [OF h this] show ?thesis by (auto split: if_splits)
  next
    case (Some n)
    with r s have p: "handleCheckoutPool (se_engine env) (se_marshal env) (rq_host q) n (\<lambda>_. Inr (obtained q)) = Done r"
      by (simp add: svc_response_def)
    have "n \<noteq> []" using ok Some by (simp add: rq_ok_def)
    from pool_checkout_no_leak [OF h this refl p] show ?thesis by (auto split: if_splits)
  qed
qed

lemma reply_settles:
  assumes ok: "rq_ok names q" and o: "distinct order" "set order = set names" and r: "svc_response env order q = Done r"
  shows "count_list (svc_given order q r) (n, i) + count_list (svc_backs order q r) (n, i) = count_list (rq_items n q) i"
    and "distinct (map fst (svc_backs order q r))" and "set (map fst (svc_given order q r)) \<subseteq> set names"
proof -
  note all = count_obtained [OF ok o, of "obtained q" n i]
  have known: "n \<in> set names" if "obtained q n \<noteq> None" for n
  proof -
    have "map_of (rq_answers q) n \<noteq> None"
      using that by (cases "map_of (rq_answers q) n") (simp_all add: obtained_def)
    then show ?thesis using ok by (auto simp: rq_ok_def rq_names_def map_of_eq_None_iff)
  qed
  have "count_list (svc_given order q r) (n, i) + count_list (svc_backs order q r) (n, i) = count_list (rq_items n q) i
      \<and> distinct (map fst (svc_backs order q r)) \<and> set (map fst (svc_given order q r)) \<subseteq> set names"
    using set_CheckoutWith_obtained [OF ok]
  proof (elim disjE exE)
    assume s: "set_CheckoutWith (rq_answers q) = (Inr (obtained q), Map.empty)"
    note settle = response_settles [OF ok s r]
    show ?thesis
    proof (cases "code r = StatusOK")
      case True
      with settle s have b: "svc_backs order q r = []" by (simp add: svc_backs_def)
      show ?thesis
      proof (cases "rq_single q")
        case None
        with True s all items_of_names [OF o(1), of "obtained q"] o(2) b show ?thesis by (simp add: svc_given_def svc_taken_def)
      next
        case (Some m)
        have "set (map fst (items_of [m] (obtained q))) \<subseteq> set names"
          using known [of m] by (cases "obtained q m") (simp_all add: items_of_def)
        with True s Some b count_obtained_single [OF ok Some, of n i] show ?thesis by (simp add: svc_given_def svc_taken_def)
      qed
    next
      case False
      with settle count_obtained [OF ok o, of "handed_back r" n i] items_of_names [OF o(1), of "handed_back r"] s
      show ?thesis by (simp add: svc_given_def svc_backs_def)
    qed
  next
    fix err
    assume s: "set_CheckoutWith (rq_answers q) = (Inl err, obtained q)"
    obtain host prt where h: "SplitHostPort (rq_host q) = Inr (host, prt)"
      using ok by (cases "SplitHostPort (rq_host q)") (auto simp: rq_ok_def)
    have "handed_back r = Map.empty"
      using r s h by (auto simp: svc_response_def Let_def handleCheckoutBatch_def handleCheckoutPool_def split: option.splits if_splits)
    with s all items_of_names [OF o(1), of "obtained q"] show ?thesis
      by (simp add: svc_given_def svc_taken_def svc_backs_def)
  qed
  then show "count_list (svc_given order q r) (n, i) + count_list (svc_backs order q r) (n, i) = count_list (rq_items n q) i"
    and "distinct (map fst (svc_backs order q r))" and "set (map fst (svc_given order q r)) \<subseteq> set names" by simp_all
qed

lemma panic_settles:
  assumes ok: "rq_ok names q" and o: "distinct order" "set order = set names"
  shows "count_list (svc_taken order q) (n, i) + count_list (items_of order (snd (set_CheckoutWith (rq_answers q)))) (n, i)
      = count_list (rq_items n q) i"
    and "distinct (map fst (items_of order (snd (set_CheckoutWith (rq_answers q)))))"
    and "set (map fst (svc_taken order q)) \<subseteq> set names"
proof -
  show "distinct (map fst (items_of order (snd (set_CheckoutWith (rq_answers q)))))"
    using items_of_names [OF o(1)] by blast
  have one: "set (map fst (items_of [m] (obtained q))) \<subseteq> set names" for m
    using ok by (auto simp: items_of_def obtained_def rq_ok_def rq_names_def dest!: map_of_SomeD split: option.splits sum.splits)
  show "set (map fst (svc_taken order q)) \<subseteq> set names"
    using set_CheckoutWith_obtained [OF ok] one items_of_names [OF o(1), of "obtained q"] o(2)
    by (elim disjE exE) (simp_all add: svc_taken_def split: option.split)
  show "count_list (svc_taken order q) (n, i) + count_list (items_of order (snd (set_CheckoutWith (rq_answers q)))) (n, i)
      = count_list (rq_items n q) i"
    using set_CheckoutWith_obtained [OF ok] count_obtained [OF ok o, of "obtained q" n i] count_obtained_single [OF ok, of _ n i]
    by (auto simp: svc_taken_def split: option.split)
qed

section \<open>The account of the containers\<close>

text \<open>
  Every pool is in order, and every container it has handed out is in the hands of a client, lost
  with a reply, or with a request in flight, once.
\<close>

definition svc_out :: "'t service \<Rightarrow> (string \<times> cid) list" where
  "svc_out v = svc_clients v @ svc_lost v"

definition svc_inv :: "'t service \<Rightarrow> bool" where
  "svc_inv v \<longleftrightarrow>
     distinct (svc_names v) \<and> dom (svc_pools v) = set (svc_names v)
     \<and> (\<forall>n s. svc_pools v n = Some s \<longrightarrow> excl_inv s
          \<and> (\<forall>i. count_list (held s) i = count_list (svc_out v) (n, i) + in_flight_items n v i))
     \<and> (\<forall>q \<in> set (svc_requests v). rq_ok (svc_names v) q)
     \<and> fst ` set (svc_out v) \<subseteq> set (svc_names v)"

lemma svc_inv_pool: "svc_inv v \<Longrightarrow> svc_pools v n = Some s \<Longrightarrow> excl_inv s
    \<and> count_list (held s) i = count_list (svc_out v) (n, i) + in_flight_items n v i"
  by (simp add: svc_inv_def)

lemma dom_newService: "svc_pools (newService configs) = map_of (rev (map (\<lambda>(n, c). (n, newSys c)) configs))"
proof -
  let ?c = "\<lambda>n. Inr (newSys n) :: go_error + sys"
  have "create_pools ?c configs Map.empty = (Map.empty ++ map_of (rev (map (\<lambda>(n, c). (n, projr (?c c))) configs)), None)"
    unfolding create_pools_ok by auto
  then show ?thesis by (simp add: newService_def)
qed

lemma svc_inv_new: "svc_inv (newService configs)"
proof -
  have "excl_inv s \<and> held s = []" if "svc_pools (newService configs) n = Some s" for n s
    using that map_of_SomeD [of _ n s] excl_inv_new by (fastforce simp: dom_newService newSys_def)
  moreover have "dom (svc_pools (newService configs)) = set (svc_names (newService configs))"
    unfolding dom_newService by (simp add: dom_map_of_conv_image_fst newService_def image_image case_prod_beta)
  ultimately show ?thesis
    by (auto simp: svc_inv_def svc_out_def in_flight_items_def) (simp_all add: newService_def)
qed

text \<open>A step of one pool that neither hands out nor takes back anything.\<close>

lemma svc_inv_pool_step:
  assumes inv: "svc_inv v" and op: "pool_op op" and t: "svc_pool_step env n op v = Some w"
  shows "svc_inv w"
proof -
  obtain s s' where s: "svc_pools v n = Some s" "sys_exec (se_lifecycle env n) op s = Some s'"
    and w: "w = v\<lparr>svc_pools := (svc_pools v)(n \<mapsto> s')\<rparr>"
    using t by (auto simp: svc_pool_step_def split: option.splits)
  have "disciplined op" using op by (cases op) simp_all
  with s(2) have "fair_exec (se_lifecycle env n) op s = Some s'" by (simp add: fair_exec_def)
  then have "excl_inv s'" using fair.step_inv svc_inv_pool [OF inv s(1)] by blast
  moreover have "held s' = held s"
    using pool_op_held [OF _ op] s(2) by (auto simp: sys_exec_def split: if_splits)
  ultimately show ?thesis using inv s(1)
    by (auto simp: svc_inv_def svc_out_def w in_flight_items_def)
qed

fun got :: "go_error + 't params \<Rightarrow> cid \<Rightarrow> bool" where
  "got (Inl err) i = False"
| "got (Inr p) i = (param_id p = i)"

text \<open>An answer that arrives: only what the request has obtained from this pool changes.\<close>

lemma svc_answer_effect:
  assumes "svc_answer k n r v = Some w" "\<forall>q \<in> set (svc_requests v). rq_ok (svc_names v) q"
  shows "svc_names w = svc_names v \<and> svc_pools w = svc_pools v \<and> svc_out w = svc_out v
    \<and> (\<forall>q \<in> set (svc_requests w). rq_ok (svc_names v) q)
    \<and> (\<forall>m i. in_flight_items m w i = in_flight_items m v i + (if m = n \<and> got r i then 1 else 0))"
proof -
  define q where "q = svc_requests v ! k"
  define q' where "q' = q\<lparr>rq_waiting := remove1 n (rq_waiting q), rq_answers := rq_answers q @ [(n, r)]\<rparr>"
  have k: "k < length (svc_requests v)" and n: "n \<in> set (rq_waiting q)" and w: "w = v\<lparr>svc_requests := (svc_requests v)[k := q']\<rparr>"
    using assms(1) by (simp_all add: svc_answer_def Let_def q_def q'_def split: if_splits)
  have ok: "rq_ok (svc_names v) q" using assms(2) k by (simp add: q_def)
  have nn: "n \<notin> fst ` set (rq_answers q)" "map_of (rq_answers q) n = None"
    using ok n by (auto simp: rq_ok_def rq_names_def map_of_eq_None_iff)
  have "set (rq_names q') \<subseteq> set (rq_names q)" "distinct (rq_names q')"
    using ok n nn(1) by (auto simp: q'_def rq_ok_def rq_names_def dest: notin_set_remove1)
  moreover have "rq_single q' = rq_single q" "rq_host q' = rq_host q" by (simp_all add: q'_def)
  ultimately have ok': "rq_ok (svc_names v) q'" using ok by (simp add: rq_ok_def) blast
  have "map_of (rq_answers q') m = (if m = n then Some r else map_of (rq_answers q) m)" for m
    unfolding q'_def using map_of_snoc [OF nn(1), of r m] by simp
  then have c: "count_list (rq_items m q') i = count_list (rq_items m q) i + (if m = n \<and> got r i then 1 else 0)" for m i
    using nn(2) by (cases r) (auto simp: rq_items_def)
  have "in_flight_items m w i = in_flight_items m v i + (if m = n \<and> got r i then 1 else 0)" for m i
    using sum_list_replace [OF k, of "\<lambda>q. count_list (rq_items m q) i" q'] c [of m i]
    by (simp add: in_flight_items_def w q_def)
  then show ?thesis using w ok' assms(2) by (auto simp: svc_out_def dest: set_update_subset_insert [THEN subsetD])
qed

lemma checkout_item_id:
  "pool_CheckoutWith eng a (CheckoutItem (Some (i, st))) = Done (r, back) \<Longrightarrow> r = Inr p \<Longrightarrow> param_id p = i"
  by (auto simp: pool_CheckoutWith_def makeParams_def go_simps dest: ParamsFor_fields split: go.splits option.splits)

lemma svc_inv_item:
  assumes inv: "svc_inv v" and t: "svc_item env k n st v = Some w"
  shows "svc_inv w"
proof -
  obtain s i b r bk u where s: "svc_pools v n = Some s" and b: "buffer_get (buffer s) = Done (Some i, b)"
    and c: "pool_CheckoutWith (se_engine env) (se_adapter env n) (CheckoutItem (Some (i, st))) = Done (r, bk)"
    and u: "svc_pool_step env n (SysCheckout (case r of Inl err \<Rightarrow> Some err | Inr p \<Rightarrow> None)) v = Some u"
    and w: "svc_answer k n r u = Some w"
    using t by (auto simp: svc_item_def bind_eq_Some_conv split: option.splits go.splits)
  obtain s' where s': "sys_exec (se_lifecycle env n) (SysCheckout (case r of Inl err \<Rightarrow> Some err | Inr p \<Rightarrow> None)) s = Some s'"
    and u': "u = v\<lparr>svc_pools := (svc_pools v)(n \<mapsto> s')\<rparr>"
    using u s by (auto simp: svc_pool_step_def)
  note step = checkout_step [OF svc_inv_pool [OF inv s, THEN conjunct1] b s']
  have "\<forall>q \<in> set (svc_requests u). rq_ok (svc_names u) q" using inv by (simp add: u' svc_inv_def)
  note eff = svc_answer_effect [OF w this]
  have id: "got r j \<longleftrightarrow> (\<not> isl r \<and> j = i)" for j
    using checkout_item_id [OF c] by (cases r) auto
  have h: "held s' = held s @ (if isl r then [] else [i])" using step by (cases r) simp_all
  have f: "in_flight_items m u j = in_flight_items m v j" for m j by (simp add: in_flight_items_def u')
  have "count_list (held s') j = count_list (svc_out v) (n, j) + in_flight_items n w j" for j
    using svc_inv_pool [OF inv s, of j] eff id f by (simp add: h)
  moreover have "in_flight_items m w j = in_flight_items m v j" if "m \<noteq> n" for m j
    using eff f that by simp
  moreover have "svc_out u = svc_out v" by (simp add: svc_out_def u')
  ultimately show ?thesis using inv eff step s
    by (auto simp: svc_inv_def u')
qed

lemma svc_inv_no_item:
  assumes inv: "svc_inv v" and w: "svc_answer k n (Inl err) v = Some w"
  shows "svc_inv w"
proof -
  have "\<forall>q \<in> set (svc_requests v). rq_ok (svc_names v) q" using inv by (simp add: svc_inv_def)
  from svc_answer_effect [OF w this] inv show ?thesis by (simp add: svc_inv_def)
qed

text \<open>Items that are handed back, at most one to each pool.\<close>

lemma count_pairs:
  "distinct (map fst items) \<Longrightarrow> count_list items (n, i) = (if map_of items n = Some i then 1 else 0)"
  by (induction items) (auto simp: map_of_eq_None_iff count_list_0_iff rev_image_eqI split: prod.split)

lemma returned_pools:
  assumes d: "distinct (map fst backs)" and s: "ps n = Some s" and x: "excl_inv s"
    and le: "\<And>i. count_list backs (n, i) \<le> count_list (held s) i"
  obtains s' where "set_ReturnAll pool_Return backs ps n = Some s'" "excl_inv s'"
    "\<And>i. count_list (held s') i = count_list (held s) i - count_list backs (n, i)"
proof (cases "map_of backs n")
  case None
  then show ?thesis
    using that [of s] return_all_by_name [OF d, of pool_Return ps n] s x count_pairs [OF d, of n] by simp
next
  case (Some j)
  then have "1 \<le> count_list (held s) j" using le [of j] count_pairs [OF d, of n j] by simp
  then have "j \<in> set (held s)" using count_list_0_iff [of "held s" j] by auto
  with x have "excl_inv (pool_Return j s)" by (rule pool_Return_step)
  moreover have "count_list (held (pool_Return j s)) i = count_list (held s) i - count_list backs (n, i)" for i
    using Some count_pairs [OF d, of n i] by (auto simp: pool_Return_def)
  ultimately show ?thesis
    using that [of "pool_Return j s"] return_all_by_name [OF d, of pool_Return ps n] s Some by simp
qed

lemma svc_inv_begin:
  fixes v :: "'t service"
  assumes inv: "svc_inv v"
  shows "svc_inv (svc_begin host single v)"
proof (cases "isl (SplitHostPort host) \<or> single = Some []")
  case True
  then show ?thesis using inv by (auto simp: svc_begin_def split: sum.split)
next
  case False
  define q :: "'t svc_request" where "q = \<lparr>rq_host = host, rq_single = single,
    rq_waiting = filter (\<lambda>n. case single of None \<Rightarrow> True | Some m \<Rightarrow> n = m) (svc_names v), rq_answers = []\<rparr>"
  have b: "svc_begin host single v = v\<lparr>svc_requests := svc_requests v @ [q]\<rparr>"
    using False by (auto simp: svc_begin_def q_def split: sum.split)
  have "rq_ok (svc_names v) q"
    using inv False by (auto simp: q_def rq_ok_def rq_names_def svc_inv_def split: option.splits)
  moreover have "rq_items n q = []" for n by (simp add: rq_items_def q_def)
  ultimately show ?thesis using inv by (simp add: b svc_inv_def svc_out_def in_flight_items_def)
qed

text \<open>Whoever gives items back: the account stays balanced when the clients' side loses as many.\<close>

lemma svc_inv_returned:
  assumes inv: "svc_inv v" and d: "distinct (map fst backs)"
    and balance: "\<And>n i. n \<in> set (svc_names v) \<Longrightarrow>
        count_list backs (n, i) + (count_list (cl @ ls) (n, i) + in_flight_items n (v\<lparr>svc_requests := rs\<rparr>) i)
          = count_list (svc_out v) (n, i) + in_flight_items n v i"
    and rs: "set rs \<subseteq> set (svc_requests v)" and cl: "fst ` set (cl @ ls) \<subseteq> set (svc_names v)"
  shows "svc_inv (v\<lparr>svc_requests := rs, svc_pools := set_ReturnAll pool_Return backs (svc_pools v), svc_clients := cl, svc_lost := ls\<rparr>)"
proof -
  let ?ps = "set_ReturnAll pool_Return backs (svc_pools v)"
  have pool: "excl_inv t \<and> count_list (held t) i = count_list (cl @ ls) (n, i) + in_flight_items n (v\<lparr>svc_requests := rs\<rparr>) i"
    if t: "?ps n = Some t" for n t i
  proof -
    obtain s where s: "svc_pools v n = Some s"
      using t return_all_by_name [OF d, of pool_Return "svc_pools v" n] by auto
    then have n: "n \<in> set (svc_names v)" using inv by (auto simp: svc_inv_def)
    note p = svc_inv_pool [OF inv s]
    have le: "count_list backs (n, i) \<le> count_list (held s) i" for i
      using balance [OF n, of i] p [of i] by linarith
    have x: "excl_inv s" using p by simp
    obtain s' where "?ps n = Some s'" "excl_inv s'"
      "\<And>i. count_list (held s') i = count_list (held s) i - count_list backs (n, i)"
      using returned_pools [where ps = "svc_pools v" and n = n, OF d s x] le by blast
    with t balance [OF n, of i] p [of i] show ?thesis by simp
  qed
  have "dom ?ps = dom (svc_pools v)"
    using return_all_by_name [OF d, of pool_Return "svc_pools v"] by (auto simp: dom_def)
  then show ?thesis using inv pool rs cl by (auto simp: svc_inv_def svc_out_def in_flight_items_def)
qed

text \<open>The two ends of a request: its reply, sent or not, and the panic of its handler.\<close>

lemma svc_inv_end:
  assumes inv: "svc_inv v" and k: "k < length (svc_requests v)" and d: "distinct (map fst backs)"
    and new: "set (map fst (cl @ ls)) \<subseteq> set (svc_names v)"
    and settle: "\<And>n i. count_list (cl @ ls) (n, i) + count_list backs (n, i) = count_list (rq_items n (svc_requests v ! k)) i"
  shows "svc_inv (v\<lparr>svc_requests := take k (svc_requests v) @ drop (Suc k) (svc_requests v),
      svc_pools := set_ReturnAll pool_Return backs (svc_pools v), svc_clients := svc_clients v @ cl, svc_lost := svc_lost v @ ls\<rparr>)"
proof -
  define rs where "rs = take k (svc_requests v) @ drop (Suc k) (svc_requests v)"
  have f: "in_flight_items n v i = count_list (rq_items n (svc_requests v ! k)) i + in_flight_items n (v\<lparr>svc_requests := rs\<rparr>) i" for n i
    using sum_list_remove [OF k, of "\<lambda>q. count_list (rq_items n q) i"] by (simp add: in_flight_items_def rs_def)
  show ?thesis unfolding rs_def [symmetric]
  proof (rule svc_inv_returned [OF inv d])
    show "count_list backs (n, i) + (count_list ((svc_clients v @ cl) @ (svc_lost v @ ls)) (n, i)
        + in_flight_items n (v\<lparr>svc_requests := rs\<rparr>) i) = count_list (svc_out v) (n, i) + in_flight_items n v i" for n i
      using settle [of n i] f [of n i] by (simp add: svc_out_def)
    show "set rs \<subseteq> set (svc_requests v)" by (auto simp: rs_def dest: in_set_takeD in_set_dropD)
    show "fst ` set ((svc_clients v @ cl) @ (svc_lost v @ ls)) \<subseteq> set (svc_names v)"
      using inv new by (auto simp: svc_inv_def svc_out_def)
  qed
qed

lemma svc_inv_reply:
  assumes inv: "svc_inv v" and t: "svc_reply env k order sent v = Some w"
  shows "svc_inv w"
proof -
  define q where "q = svc_requests v ! k"
  have k: "k < length (svc_requests v)" and o: "distinct order" "set order = set (svc_names v)"
    using t by (auto simp: svc_reply_def split: if_splits)
  have ok: "rq_ok (svc_names v) q" using inv k by (simp add: svc_inv_def q_def)
  show ?thesis
  proof (cases "svc_response env order q")
    case (Done r)
    note settle = reply_settles [OF ok o Done]
    have "svc_inv (v\<lparr>svc_requests := take k (svc_requests v) @ drop (Suc k) (svc_requests v),
        svc_pools := set_ReturnAll pool_Return (svc_backs order q r) (svc_pools v),
        svc_clients := svc_clients v @ (if sent then svc_given order q r else []),
        svc_lost := svc_lost v @ (if sent then [] else svc_given order q r)\<rparr>)"
      using settle by (intro svc_inv_end [OF inv k]) (cases sent; simp add: q_def)+
    with t Done k o show ?thesis by (auto simp: svc_reply_def Let_def q_def split: if_splits)
  next
    case Panic
    note settle = panic_settles [OF ok o]
    have "svc_inv (v\<lparr>svc_requests := take k (svc_requests v) @ drop (Suc k) (svc_requests v),
        svc_pools := set_ReturnAll pool_Return (items_of order (snd (set_CheckoutWith (rq_answers q)))) (svc_pools v),
        svc_clients := svc_clients v @ [], svc_lost := svc_lost v @ svc_taken order q\<rparr>)"
      using settle by (intro svc_inv_end [OF inv k]) (simp_all add: q_def)
    with t Panic k o show ?thesis by (auto simp: svc_reply_def Let_def q_def split: if_splits)
  qed (use t in \<open>simp add: svc_reply_def Let_def q_def split: if_splits\<close>)
qed

lemma count_fold_remove1: "count_list (fold remove1 items xs) x = count_list xs x - count_list items x"
  by (induction items arbitrary: xs) simp_all

lemma set_fold_remove1: "set (fold remove1 items xs) \<subseteq> set xs"
  by (induction items arbitrary: xs) (auto dest: set_remove1_subset [THEN subsetD])

lemma svc_inv_return_batch:
  assumes inv: "svc_inv v" and sub: "set items \<subseteq> set (svc_clients v)" and t: "svc_return_batch items v = Some w"
  shows "svc_inv w"
proof -
  have d: "distinct (map fst items)"
    and w: "w = v\<lparr>svc_pools := set_ReturnAll pool_Return items (svc_pools v), svc_clients := fold remove1 items (svc_clients v)\<rparr>"
    using t by (simp_all add: svc_return_batch_def split: if_splits)
  have le: "count_list items x \<le> count_list (svc_clients v) x" for x
  proof (cases "x \<in> set items")
    case True
    then have "0 < count_list (svc_clients v) x" using sub by (auto intro: count_list_pos)
    moreover have "count_list items x \<le> 1" using count_pairs [OF d, of "fst x" "snd x"] by simp
    ultimately show ?thesis by linarith
  qed (simp add: count_list_0_iff [THEN iffD2])
  have "svc_inv (v\<lparr>svc_requests := svc_requests v, svc_pools := set_ReturnAll pool_Return items (svc_pools v),
      svc_clients := fold remove1 items (svc_clients v), svc_lost := svc_lost v\<rparr>)"
  proof (rule svc_inv_returned [OF inv d])
    show "count_list items (n, i) + (count_list (fold remove1 items (svc_clients v) @ svc_lost v) (n, i)
        + in_flight_items n (v\<lparr>svc_requests := svc_requests v\<rparr>) i) = count_list (svc_out v) (n, i) + in_flight_items n v i" for n i
      using le [of "(n, i)"] by (simp add: count_fold_remove1 in_flight_items_def svc_out_def)
    show "fst ` set (fold remove1 items (svc_clients v) @ svc_lost v) \<subseteq> set (svc_names v)"
    proof -
      have "fst ` set (fold remove1 items (svc_clients v) @ svc_lost v) \<subseteq> fst ` set (svc_out v)"
        using set_fold_remove1 [of items "svc_clients v"] by (intro image_mono) (auto simp: svc_out_def)
      also have "\<dots> \<subseteq> set (svc_names v)" using inv by (simp add: svc_inv_def)
      finally show ?thesis .
    qed
  qed simp
  then show ?thesis by (simp add: w)
qed

lemma svc_inv_return:
  assumes inv: "svc_inv v" and c: "(n, i) \<in> set (svc_clients v)"
  shows "svc_inv (svc_return n i v)"
proof (cases "n = [] \<or> i = []")
  case True
  then have "svc_return n i v = v" by (auto simp: svc_return_def handleReturn_def)
  then show ?thesis using inv by simp
next
  case False
  then have "svc_return_batch [(n, i)] v = Some (svc_return n i v)"
    by (auto simp: svc_return_def svc_return_batch_def handleReturn_def set_ReturnAll_def)
  then show ?thesis using c by (intro svc_inv_return_batch [OF inv]) simp_all
qed

lemma svc_inv_step: "svc_inv v \<Longrightarrow> svc_disciplined op v \<Longrightarrow> svc_step env op v = Some w \<Longrightarrow> svc_inv w"
  by (cases op)
    (auto simp: svc_refused_def svc_closed_def split: if_splits option.splits route.splits
      intro: svc_inv_pool_step svc_inv_begin svc_inv_item svc_inv_no_item svc_inv_reply svc_inv_return svc_inv_return_batch)

lemma svc_inv_fair: "svc_inv v \<Longrightarrow> svc_fair env op v = Some w \<Longrightarrow> svc_inv w"
  by (auto simp: svc_fair_def svc_exec_def intro: svc_inv_step split: if_splits)

interpretation service: invariant "svc_fair env" "newService configs" svc_inv for env configs
  by unfold_locales (auto intro: svc_inv_new svc_inv_fair)

section \<open>A small service\<close>

definition small_env :: "tnode list svc_env" where
  "small_env =
     \<lparr>se_lifecycle = (\<lambda>_. all_actions),
      se_adapter = (\<lambda>_. (redis_adapter ''redis'')\<lparr>adapter_config := (adapter_config (redis_adapter ''redis''))\<lparr>Port := 1\<rparr>\<rparr>),
      se_engine = field_engine, se_marshal_set = (\<lambda>_. Inr ''{}''), se_marshal = (\<lambda>_. Inr ''{}'')\<rparr>"

text \<open>Two pools get one item each; a batch request takes both.\<close>

definition batch_steps :: "svc_op list" where
  "batch_steps =
     map (SvcPool ''a'') (boot @ join_steps (cid_of CHR ''a'') @ ready_steps (cid_of CHR ''a''))
     @ map (SvcPool ''b'') (boot @ join_steps (cid_of CHR ''b'') @ ready_steps (cid_of CHR ''b''))
     @ [SvcRequest ''h:1'' CheckoutBatch, SvcItem 0 ''b'' no_status, SvcItem 0 ''a'' no_status, SvcReply 0 [''a'', ''b''] True]"

lemma batch_run:
  "map_option (\<lambda>v. svc_clients v = [(''a'', cid_of CHR ''a''), (''b'', cid_of CHR ''b'')] \<and> svc_lost v = [] \<and> svc_requests v = []
       \<and> map_option held (svc_pools v ''a'') = Some [cid_of CHR ''a''])
     (run (svc_fair small_env) batch_steps (newService [(''a'', 1), (''b'', 1)])) = Some True"
  by code_simp

lemma batch_state:
  obtains v s where "run (svc_fair small_env) batch_steps (newService [(''a'', 1), (''b'', 1)]) = Some v"
    "svc_clients v = [(''a'', cid_of CHR ''a''), (''b'', cid_of CHR ''b'')]" "svc_lost v = []" "svc_requests v = []"
    "svc_pools v ''a'' = Some s" "held s = [cid_of CHR ''a'']"
  using batch_run by (auto simp: map_option_eq_Some)

section \<open>Properties\<close>

text \<open>
  C6: The service loses no container without trace, as long as clients return only what a reply has
  handed to them, once. Whatever the interleaving of requests, pools, docker and contexts that end,
  and whatever fails in a request (a pool, the rewriting for a host, the encoder, the handler, the
  writing of the reply), every container that a pool has handed out and not got back is accounted
  for once: by the client that received it, by the request in flight that has obtained it, or
  by a reply that did not reach its client, or a handler that panicked, which nobody returns.
\<close>

theorem service_accounts:
  assumes "run (svc_fair env) ops (newService configs) = Some v" and "svc_pools v n = Some s"
  shows "count_list (held s) i =
    count_list (svc_clients v) (n, i) + count_list (svc_lost v) (n, i)
    + sum_list (map (\<lambda>q. count_list (rq_items n q) i) (svc_requests v))"
proof -
  have "svc_inv v" using assms(1) by (rule service.run_inv)
  from svc_inv_pool [OF this assms(2)] show ?thesis by (simp add: in_flight_items_def svc_out_def)
qed

theorem service_accounts_witness:
  "\<exists>v s. run (svc_fair small_env) batch_steps (newService [(''a'', 1), (''b'', 1)]) = Some v
     \<and> svc_pools v ''a'' = Some s \<and> count_list (held s) (cid_of CHR ''a'') = 1
     \<and> count_list (svc_clients v) (''a'', cid_of CHR ''a'') = 1"
proof -
  obtain v s where v: "run (svc_fair small_env) batch_steps (newService [(''a'', 1), (''b'', 1)]) = Some v"
    "svc_clients v = [(''a'', cid_of CHR ''a''), (''b'', cid_of CHR ''b'')]" "svc_lost v = []" "svc_requests v = []"
    "svc_pools v ''a'' = Some s" "held s = [cid_of CHR ''a'']"
    by (rule batch_state)
  from service_accounts [OF v(1,5), of "cid_of CHR ''a''"] v(2,3,4)
  have "count_list (held s) (cid_of CHR ''a'') = 1" by simp
  with v(1,2,5) show ?thesis by auto
qed

text \<open>
  C5: No container is in two hands at the same time, as long as clients return only what a reply has
  handed to them, once: the containers that replies have carried to clients and that have not been
  returned, with those of replies that got lost, are all different, in every pool and across all
  concurrent requests, and none of them waits in its pool to be checked out or is on its way back.
\<close>

theorem service_exclusive:
  assumes "run (svc_fair env) ops (newService configs) = Some v"
  shows "distinct (svc_out v)
    \<and> list_all (\<lambda>(n, i). case svc_pools v n of
          None \<Rightarrow> False | Some s \<Rightarrow> i \<in> set (held s) \<and> i \<notin> set (buf (buffer s)) \<and> i \<notin> set (returning s)) (svc_out v)"
proof -
  have inv: "svc_inv v" using assms by (rule service.run_inv)
  have pool: "\<exists>s. svc_pools v n = Some s \<and> tickets s i \<le> 1
      \<and> count_list (svc_out v) (n, i) \<le> count_list (held s) i" if "(n, i) \<in> set (svc_out v)" for n i
  proof -
    have "n \<in> dom (svc_pools v)" using that inv by (force simp: svc_inv_def)
    then obtain s where s: "svc_pools v n = Some s" by blast
    note p = svc_inv_pool [OF inv s, of i]
    then have "tickets s i \<le> 1" "count_list (svc_out v) (n, i) \<le> count_list (held s) i"
      by (simp_all add: excl_inv_def)
    with s show ?thesis by blast
  qed
  have "count_list (svc_out v) x \<le> 1" for x
  proof (cases "x \<in> set (svc_out v)")
    case True
    then show ?thesis using pool [of "fst x" "snd x"] by (auto simp: tickets_def)
  qed (simp add: count_list_0_iff [THEN iffD2])
  moreover have "i \<in> set (held s) \<and> i \<notin> set (buf (buffer s)) \<and> i \<notin> set (returning s)"
    if c: "(n, i) \<in> set (svc_out v)" and s: "svc_pools v n = Some s" for n i s
  proof -
    have "0 < count_list (svc_out v) (n, i)" using c by (rule count_list_pos)
    then have "0 < count_list (held s) i" "count_list (buf (buffer s)) i = 0" "count_list (returning s) i = 0"
      using pool [OF c] s by (auto simp: tickets_def)
    moreover from this(1) have "i \<in> set (held s)"
      by (cases "i \<in> set (held s)") (auto simp: count_list_0_iff [THEN iffD2])
    ultimately show ?thesis by (simp add: count_list_0_iff)
  qed
  ultimately show ?thesis
    using pool by (fastforce simp: list_all_iff intro: count_list_le1_distinct split: option.splits)
qed

theorem service_exclusive_witness:
  "\<exists>v. run (svc_fair small_env) batch_steps (newService [(''a'', 1), (''b'', 1)]) = Some v
     \<and> length (svc_clients v) = 2 \<and> distinct (svc_clients v)"
proof -
  obtain v where v: "run (svc_fair small_env) batch_steps (newService [(''a'', 1), (''b'', 1)]) = Some v"
    "length (svc_clients v) = 2"
    by (rule batch_state) simp
  with service_exclusive [OF v(1)] show ?thesis by (auto simp: svc_out_def)
qed

text \<open>
  C39: One request ends the daemon: a \<open>DELETE\<close> for an existing pool with an identifier of fewer than
  twelve bytes is routed to its handler, answered with success, and passed to the pool, whose
  goroutine panics when it receives it.
\<close>

theorem one_request_crashes:
  assumes "plain_part n" "plain_part i" "length i < 12" and "ps n = Some s"
    and "ppc (pl s) \<in> {PRunning, PDrainSpawner, PDrainItems}" "selecting s" "\<not> crashed s"
  shows "routes ''DELETE'' (client_path rpcReturnPath [n, i]) ct = Some (ReturnItem n i)
    \<and> code (handleReturn n i) = StatusOK
    \<and> handed_back (handleReturn n i) = [n \<mapsto> i]
    \<and> map_option crashed (Option.bind (set_Return pool_Return n i ps n) (sys_exec lc (SysReturned i))) = Some True"
proof -
  have r: "routes ''DELETE'' (client_path rpcReturnPath [n, i]) ct = Some (ReturnItem n i)"
    using client_reaches_handler [OF assms(1,2)] by blast
  have ne: "n \<noteq> []" "i \<noteq> []" using assms(1,2) by (auto simp: plain_part_def clean_segment_def)
  have "pool_event ItemReturned i (pl s) = Panic" using assms(3,5) by (intro pool_event_panic)
  with assms(4-7) have "map_option crashed (Option.bind (set_Return pool_Return n i ps n) (sys_exec lc (SysReturned i))) = Some True"
    by (simp add: set_Return_def pool_Return_def sys_exec_def selecting_def Pool_System.outcome_def)
  with r ne show ?thesis by (simp add: handleReturn_def)
qed

theorem one_request_crashes_witness:
  "\<exists>s. run (sys_exec all_actions) boot (newSys 1) = Some s
     \<and> code (handleReturn ''pg'' ''x'') = StatusOK
     \<and> map_option crashed (Option.bind (set_Return pool_Return ''pg'' ''x'' [''pg'' \<mapsto> s] ''pg'') (sys_exec all_actions (SysReturned ''x''))) = Some True"
proof -
  define s where "s = the (run (sys_exec all_actions) boot (newSys 1))"
  have r: "run (sys_exec all_actions) boot (newSys 1) = Some s
     \<and> ppc (pl s) \<in> {PRunning, PDrainSpawner, PDrainItems} \<and> selecting s \<and> \<not> crashed s"
    unfolding s_def by (rule is_run) code_simp
  have p: "plain_part ''pg''" "plain_part ''x''" by code_simp+
  from one_request_crashes [OF p, of "[''pg'' \<mapsto> s]" s] r show ?thesis by simp
qed

end
