(* ===== verification/Ui_Window.thy ===== *)
theory Ui_Window
  imports Ui_Table
begin

text \<open>
  The terminal window, \<^verbatim>\<open>ui/tui.go\<close>: its two tables, the bar with the keys and the version
  (\<^verbatim>\<open>version/version.go\<close>), what a key does, and how a batch of the writer reaches the tables; and
  the choice of an interface, \<^verbatim>\<open>ui/ui.go\<close> and \<^verbatim>\<open>ui/noop.go\<close>. Colours of the frame are left out.
\<close>

section \<open>Version\<close>

text \<open>The three strings are set by the linker.\<close>

record build_info =
  build_version :: string
  build_commit :: string
  build_date :: string

definition Version :: "build_info \<Rightarrow> string" where
  "Version b = build_version b"

definition Commit :: "build_info \<Rightarrow> string" where
  "Commit b = build_commit b"

definition Date :: "build_info \<Rightarrow> string" where
  "Date b = build_date b"

section \<open>Tables\<close>

text \<open>The row of headers of a table: every column is padded to its width, the last one too.\<close>

definition insertHeaders :: "header list \<Rightarrow> nat list \<Rightarrow> string list" where
  "insertHeaders hs ws = map2 (\<lambda>h w. renderCol (header_value h) w False) hs ws"

text \<open>A panel: its title, the headers of its table, and the table.\<close>

record table_panel =
  panel_title :: string
  panel_headers :: "string list"
  panel_table :: table

definition newTableWidget :: "string \<Rightarrow> header list \<Rightarrow> table_panel" where
  "newTableWidget name hs =
     \<lparr>panel_title = name, panel_headers = insertHeaders hs (setHeaders hs), panel_table = newTUITable hs\<rparr>"

definition containersWidget :: table_panel where
  "containersWidget = newTableWidget ''Containers'' containers_headers"

definition poolsWidget :: table_panel where
  "poolsWidget = newTableWidget ''Pools'' pools_headers"

text \<open>
  \<open>handleUpdates\<close> with its result: \<open>resize\<close> is true from the start, so every batch resizes.
\<close>

definition handleUpdates_resize :: "row list \<Rightarrow> string list \<Rightarrow> table \<Rightarrow> bool \<times> table" where
  "handleUpdates_resize ups dels t = (True, handleUpdates ups dels t)"

section \<open>The window\<close>

datatype widget = WContainers | WPools | WSpacer

text \<open>
  The layout lists the widgets with the share of the free space that each is given. \<open>resizes\<close>
  counts the calls of \<open>Resize\<close> of the two panels.
\<close>

record tui_window =
  containers :: table_panel
  pools :: table_panel
  keybar_left :: string
  keybar_right :: string
  layout :: "(widget \<times> nat) list"
  resizes :: nat

definition createTuiApp :: "build_info \<Rightarrow> tui_window" where
  "createTuiApp b =
     \<lparr>containers = containersWidget, pools = poolsWidget, keybar_left = ''%N[%AQ%N] Quit'',
      keybar_right = ''%NEphemerald '' @ Version b,
      layout = [(WContainers, 0), (WPools, 0), (WSpacer, 1)], resizes = 0\<rparr>"

definition updateContainers :: "row list \<Rightarrow> string list \<Rightarrow> tui_window \<Rightarrow> bool \<times> tui_window" where
  "updateContainers ups dels w =
     (case handleUpdates_resize ups dels (panel_table (containers w)) of
        (resize, t) \<Rightarrow>
          (resize, w\<lparr>containers := (containers w)\<lparr>panel_table := t\<rparr>,
                     resizes := (if resize then resizes w + 1 else resizes w)\<rparr>))"

definition updatePools :: "row list \<Rightarrow> string list \<Rightarrow> tui_window \<Rightarrow> bool \<times> tui_window" where
  "updatePools ups dels w =
     (case handleUpdates_resize ups dels (panel_table (pools w)) of
        (resize, t) \<Rightarrow>
          (resize, w\<lparr>pools := (pools w)\<lparr>panel_table := t\<rparr>,
                     resizes := (if resize then resizes w + 1 else resizes w)\<rparr>))"

text \<open>
  The function that a drawing posts to the application: both tables, in this order. The maps are
  visited in some order, given by the lists; nothing ever removes a pool.
\<close>

definition draw_window ::
  "row list \<Rightarrow> string list \<Rightarrow> row list \<Rightarrow> tui_window \<Rightarrow> tui_window" where
  "draw_window cups cdels pups w = snd (updatePools pups [] (snd (updateContainers cups cdels w)))"

section \<open>Keys\<close>

datatype tui_input = KeyRune char | KeyOther | OtherEvent

text \<open>
  A \<open>Q\<close> is sent on \<open>shutdownch\<close>, which has no buffer; everything else goes to the panel.
\<close>

datatype input_action = SendShutdown | PanelEvent tui_input

definition HandleEvent :: "tui_input \<Rightarrow> input_action" where
  "HandleEvent ev =
     (case ev of
        KeyRune c \<Rightarrow> if c = CHR ''Q'' \<or> c = CHR ''q'' then SendShutdown else PanelEvent ev
      | _ \<Rightarrow> PanelEvent ev)"

section \<open>Interfaces\<close>

text \<open>
  What the processor writes to. Neither constructor fails: \<open>newTUIWriter\<close> always returns without
  an error, although \<open>NewTUI\<close> and \<open>main\<close> look at it.
\<close>

datatype ui_writer = IoWriter | TuiWriter tui_window tui_writer

datatype ui = ProcessedUI ui_writer processor | NoopUI

definition newTUIWriter_app :: "build_info \<Rightarrow> go_error + ui_writer" where
  "newTUIWriter_app b = Inr (TuiWriter (createTuiApp b) newTUIWriter)"

definition NewTUI :: "build_info \<Rightarrow> go_error + ui" where
  "NewTUI b =
     (case newTUIWriter_app b of Inl err \<Rightarrow> Inl err | Inr w \<Rightarrow> Inr (ProcessedUI w newProcessor))"

definition NewIOUI :: "go_error + ui" where
  "NewIOUI = Inr (ProcessedUI IoWriter newProcessor)"

definition NewNoopUI :: ui where
  "NewNoopUI = NoopUI"

text \<open>
  The emitters of the noop interface do nothing with what they are told; those of the others make
  an event of it.
\<close>

definition noop_pool_emitter :: "string \<Rightarrow> pool_emit \<Rightarrow> pevent list" where
  "noop_pool_emitter n e = []"

definition noop_container_emitter :: "string \<Rightarrow> string \<Rightarrow> item_emit \<Rightarrow> cevent list" where
  "noop_container_emitter n i e = []"

definition ui_pool_emit :: "ui \<Rightarrow> string \<Rightarrow> pool_emit \<Rightarrow> pevent list" where
  "ui_pool_emit u n e = (case u of ProcessedUI w p \<Rightarrow> [pool_emitter n e] | NoopUI \<Rightarrow> noop_pool_emitter n e)"

definition ui_container_emit :: "ui \<Rightarrow> string \<Rightarrow> string \<Rightarrow> item_emit \<Rightarrow> cevent list" where
  "ui_container_emit u n i e =
     (case u of ProcessedUI w p \<Rightarrow> [container_emitter n i e] | NoopUI \<Rightarrow> noop_container_emitter n i e)"

section \<open>Facts\<close>

lemma setHeaders_length [simp]: "length (setHeaders hs) = length hs"
  by (simp add: setHeaders_def)

lemma renderCol_length: "length (renderCol v w False) = w + 1"
  by (simp add: renderCol_def)

text \<open>
  A table shows a map of rows when its rows are those of the map, rendered for its columns. A
  list enumerates a map when it has one row for each of its keys.
\<close>

definition table_shows :: "table \<Rightarrow> (string \<rightharpoonup> cell list) \<Rightarrow> bool" where
  "table_shows t m \<longleftrightarrow> table_ok t \<and> shown t = (\<lambda>k. map_option (render_cells (widths t)) (m k))"

definition enumerates :: "row list \<Rightarrow> (string \<rightharpoonup> cell list) \<Rightarrow> bool" where
  "enumerates ups m \<longleftrightarrow>
     distinct (map row_id ups) \<and> map_of (map (\<lambda>r. (row_id r, row_cells r)) ups) = m"

lemma map_of_rev_distinct:
  assumes "distinct (map fst xs)"
  shows "map_of (rev xs) = map_of xs"
proof
  fix k
  have d: "distinct (map fst (rev xs))" using assms by (simp add: rev_map [symmetric])
  show "map_of (rev xs) k = map_of xs k"
    using map_of_eq_Some_iff [OF assms, of k] map_of_eq_Some_iff [OF d, of k]
    by (cases "map_of xs k"; cases "map_of (rev xs) k") (simp_all, metis+)
qed

lemma map_of_rendered:
  "map_of (map (\<lambda>r. (row_id r, f (row_cells r))) ups) k = map_option f (map_of (map (\<lambda>r. (row_id r, row_cells r)) ups) k)"
  by (induction ups) auto

lemma fold_delete_widths: "widths (fold (\<lambda>i t. t\<lparr>rows := delete_row i (rows t)\<rparr>) dels t) = widths t"
  by (induction dels arbitrary: t) auto

lemma handleUpdates_shows:
  assumes "table_shows t m" "enumerates ups u"
  shows "table_shows (handleUpdates ups dels t) ((m ++ u) |` (- set dels)) \<and> widths (handleUpdates ups dels t) = widths t"
proof -
  let ?t1 = "fold upsert_row ups t"
  have ok: "table_ok t" and sh: "shown t = (\<lambda>k. map_option (render_cells (widths t)) (m k))"
    using assms(1) by (simp_all add: table_shows_def)
  have u: "map_of (rev (map (\<lambda>r. (row_id r, render_cells (widths t) (row_cells r))) ups)) k
      = map_option (render_cells (widths t)) (u k)" for k
  proof -
    have "distinct (map fst (map (\<lambda>r. (row_id r, render_cells (widths t) (row_cells r))) ups))"
      using assms(2) by (simp add: enumerates_def comp_def)
    then show ?thesis using assms(2) by (simp add: map_of_rev_distinct map_of_rendered enumerates_def)
  qed
  have t1: "table_ok ?t1" "widths ?t1 = widths t"
    "shown ?t1 = shown t ++ map_of (rev (map (\<lambda>r. (row_id r, render_cells (widths t) (row_cells r))) ups))"
    using fold_upsert [OF ok, of ups] by simp_all
  have w: "widths (handleUpdates ups dels t) = widths t"
    by (simp add: handleUpdates_def fold_delete_widths t1(2))
  moreover have "shown (handleUpdates ups dels t) = (\<lambda>k. map_option (render_cells (widths t)) (((m ++ u) |` (- set dels)) k))"
    using fold_delete [OF t1(1), of dels] t1(3)
    by (auto simp: handleUpdates_def fun_eq_iff restrict_map_def map_add_def u sh split: option.split)
  moreover have "table_ok (handleUpdates ups dels t)"
    using fold_delete [OF t1(1), of dels] by (simp add: handleUpdates_def)
  ultimately show ?thesis by (simp add: table_shows_def)
qed

text \<open>The window shows two maps, one in each of its tables.\<close>

definition window_shows :: "tui_window \<Rightarrow> (string \<rightharpoonup> cell list) \<Rightarrow> (string \<rightharpoonup> cell list) \<Rightarrow> bool" where
  "window_shows w cm pm \<longleftrightarrow> table_shows (panel_table (containers w)) cm \<and> table_shows (panel_table (pools w)) pm"

lemma window_shows_empty: "window_shows (createTuiApp b) Map.empty Map.empty"
  by (simp add: window_shows_def createTuiApp_def containersWidget_def poolsWidget_def newTableWidget_def
      table_shows_def table_ok_def shown_def newTUITable_def)

section \<open>Properties\<close>

text \<open>
  C29: Drawing a batch on the window does to its two sorted tables what the batch means for the
  maps of rows they stand for: the containers of the batch are replaced or added, the removed
  ones are gone, the pools are replaced or added, and every other row is as it was, whatever
  the order in which the maps are visited.
\<close>

theorem window_refines_batch:
  assumes "window_shows w cm pm"
    and "enumerates cups (b_cupdate b)" "set cdels = b_cdelete b" "enumerates pups (b_pupdate b)"
  shows "window_shows (draw_window cups cdels pups w) (apply_batch b cm) (pm ++ b_pupdate b)"
  using handleUpdates_shows [OF _ assms(2), of _ cm cdels] handleUpdates_shows [OF _ assms(4), of _ pm "[]"] assms(1,3)
  by (simp add: window_shows_def draw_window_def updateContainers_def updatePools_def handleUpdates_resize_def apply_batch_def)

theorem window_refines_batch_witness:
  "window_shows (draw_window [one_cell ''b'' ''2'', one_cell ''a'' ''1''] [''b''] [one_cell ''p'' ''x''] (createTuiApp \<lparr>build_version = ''1'', build_commit = [], build_date = []\<rparr>))
     [''a'' \<mapsto> [td ''1'' StyleDefault]] [''p'' \<mapsto> [td ''x'' StyleDefault]]"
proof -
  let ?b = "\<lparr>b_cupdate = [''a'' \<mapsto> [td ''1'' StyleDefault], ''b'' \<mapsto> [td ''2'' StyleDefault]], b_cdelete = {''b''},
             b_pupdate = [''p'' \<mapsto> [td ''x'' StyleDefault]]\<rparr>"
  let ?w = "createTuiApp \<lparr>build_version = ''1'', build_commit = [], build_date = []\<rparr>"
  have "window_shows (draw_window [one_cell ''b'' ''2'', one_cell ''a'' ''1''] [''b''] [one_cell ''p'' ''x''] ?w)
      (apply_batch ?b Map.empty) (Map.empty ++ b_pupdate ?b)"
    by (rule window_refines_batch [OF window_shows_empty]) (auto simp: enumerates_def one_cell_def)
  moreover have "apply_batch ?b Map.empty = [''a'' \<mapsto> [td ''1'' StyleDefault]]"
    by (auto simp: apply_batch_def restrict_map_def fun_eq_iff)
  ultimately show ?thesis by simp
qed

text \<open>
  The columns are aligned: in every column but the last a rendered cell is as long as the header
  above it.
\<close>

theorem columns_align:
  assumes "length cs = length hs" "i + 1 < length hs"
  shows "length (cell_text (render_cells (setHeaders hs) cs ! i)) = length (insertHeaders hs (setHeaders hs) ! i)"
proof -
  have "i \<noteq> length hs - 1" using assms(2) by linarith
  then show ?thesis using assms by (simp add: render_cells_def insertHeaders_def renderCol_length td_def)
qed

theorem columns_align_witness:
  "length (cell_text (render_cells (setHeaders pools_headers) (map (\<lambda>v. td v StyleDefault) [''redis'', ''running'', ''1'', ''2'', ''0'', []]) ! 1)) = 13"
proof -
  have "length (cell_text (render_cells (setHeaders pools_headers) (map (\<lambda>v. td v StyleDefault) [''redis'', ''running'', ''1'', ''2'', ''0'', []]) ! 1))
      = length (insertHeaders pools_headers (setHeaders pools_headers) ! 1)"
    by (rule columns_align) (simp_all add: pools_headers_def)
  also have "\<dots> = 13" by (simp add: insertHeaders_def pools_headers_def setHeaders_def renderCol_def)
  finally show ?thesis .
qed

end
