(* ===== verification/Ui_Screen.thy ===== *)
theory Ui_Screen
  imports Ui_Window
begin

text \<open>
  The way of an event to the terminal: the two channels of the processor and its two handlers
  (\<^verbatim>\<open>ui/processor.go\<close>), the three channels of the batching writer and its loop
  (\<^verbatim>\<open>ui/tuiwriter.go\<close>), and the functions posted to the application, as one machine. A label
  says which goroutine moves. The machine is that of the processor at work: once \<open>stop\<close> has closed
  its \<open>donech\<close>, every send of an emitter returns at once and nothing else happens.
\<close>

section \<open>State\<close>

text \<open>Both packages of channels have the same room, \<open>pBufSiz\<close> and \<open>tuiCHBufsiz\<close>.\<close>

definition pBufSiz :: nat where
  "pBufSiz = 15"

definition tuiCHBufsiz :: nat where
  "tuiCHBufsiz = 15"

text \<open>
  \<open>psend\<close> and \<open>csend\<close>: what \<open>handlePoolEvents\<close> and \<open>handleContainerEvents\<close> have still to send to the
  writer. \<open>app_started\<close>: the application has made its screen. \<open>posted\<close>: the batches whose functions it
  has not run yet; \<^verbatim>\<open>PostFunc\<close> hands each to a goroutine of its own, so they come in any order, and
  drops what is posted before there is a screen. \<open>cscreen\<close>, \<open>pscreen\<close>: the rows of the two tables.
\<close>

record screen =
  poolch :: "pevent list"
  containerch :: "cevent list"
  ui_proc :: processor
  psend :: "ui_write option"
  csend :: "ui_write option"
  pch :: "ui_pool list"
  cch :: "ui_container list"
  dch :: "ui_container list"
  ui_wr :: tui_writer
  app_started :: bool
  posted :: "batch list"
  cscreen :: "string \<rightharpoonup> cell list"
  pscreen :: "string \<rightharpoonup> cell list"

definition newScreen :: screen where
  "newScreen =
     \<lparr>poolch = [], containerch = [], ui_proc = newProcessor, psend = None, csend = None, pch = [], cch = [],
      dch = [], ui_wr = newTUIWriter, app_started = False, posted = [], cscreen = Map.empty, pscreen = Map.empty\<rparr>"

text \<open>The cells of a container's row; identifiers too short for them are kept out below.\<close>

definition container_cells :: "ui_container \<Rightarrow> cell list" where
  "container_cells c = (case container_cols c of Done cs \<Rightarrow> cs | _ \<Rightarrow> [])"

section \<open>Steps\<close>

text \<open>An emitter waits for room in its channel.\<close>

definition sendPoolEvent :: "pevent \<Rightarrow> screen \<Rightarrow> screen option" where
  "sendPoolEvent e s = (if length (poolch s) < pBufSiz then Some (s\<lparr>poolch := poolch s @ [e]\<rparr>) else None)"

definition sendContainerEvent :: "cevent \<Rightarrow> screen \<Rightarrow> screen option" where
  "sendContainerEvent e s =
     (if length (containerch s) < pBufSiz then Some (s\<lparr>containerch := containerch s @ [e]\<rparr>) else None)"

text \<open>A turn of a handler: it changes its map and has a call of the writer to make.\<close>

definition handlePoolEvents :: "screen \<Rightarrow> screen option" where
  "handlePoolEvents s =
     (case (poolch s, psend s) of
        (e # es, None) \<Rightarrow>
          (let p = pool_event_step e (ui_proc s) in
           Some (s\<lparr>poolch := es, ui_proc := p, psend := Some (last (writes p))\<rparr>))
      | _ \<Rightarrow> None)"

definition handleContainerEvents :: "screen \<Rightarrow> screen option" where
  "handleContainerEvents s =
     (case (containerch s, csend s) of
        (e # es, None) \<Rightarrow>
          (let p = container_event_step e (ui_proc s) in
           Some (s\<lparr>containerch := es, ui_proc := p, csend := Some (last (writes p))\<rparr>))
      | _ \<Rightarrow> None)"

text \<open>The writer's methods: a send that gives up when the writer's loop has returned.\<close>

definition updatePool :: "ui_pool \<Rightarrow> screen \<Rightarrow> screen option" where
  "updatePool p s =
     (if tui_returned (ui_wr s) then Some s
      else if length (pch s) < tuiCHBufsiz then Some (s\<lparr>pch := pch s @ [p]\<rparr>) else None)"

definition updateContainer :: "ui_container \<Rightarrow> screen \<Rightarrow> screen option" where
  "updateContainer c s =
     (if tui_returned (ui_wr s) then Some s
      else if length (cch s) < tuiCHBufsiz then Some (s\<lparr>cch := cch s @ [c]\<rparr>) else None)"

definition deleteContainer :: "ui_container \<Rightarrow> screen \<Rightarrow> screen option" where
  "deleteContainer c s =
     (if tui_returned (ui_wr s) then Some s
      else if length (dch s) < tuiCHBufsiz then Some (s\<lparr>dch := dch s @ [c]\<rparr>) else None)"

definition writer_call :: "ui_write \<Rightarrow> screen \<Rightarrow> screen option" where
  "writer_call w s =
     (case w of
        UpdatePool p \<Rightarrow> updatePool p s
      | UpdateContainer c \<Rightarrow> updateContainer c s
      | DeleteContainer c \<Rightarrow> deleteContainer c s)"

text \<open>A turn of the writer's loop, once it has received \<open>e\<close>.\<close>

definition writer_turn :: "tui_event \<Rightarrow> screen \<Rightarrow> screen option" where
  "writer_turn e s =
     (if tui_returned (ui_wr s) then None
      else case tui_step e (ui_wr s) of
        (b, w) \<Rightarrow> Some (s\<lparr>ui_wr := w, posted := posted s @ (case b of None \<Rightarrow> [] | Some x \<Rightarrow> if app_started s then [x] else [])\<rparr>))"

datatype screen_op =
    EmitPool pevent
  | EmitContainer cevent
  | HandlePool
  | HandleContainer
  | SendPool
  | SendContainer
  | RecvPool \<comment> \<open>the writer's loop receives on \<open>pch\<close>\<close>
  | RecvContainer
  | RecvDelete
  | RecvDrain
  | RecvDraw
  | AppStarts \<comment> \<open>\<open>Run\<close> of the application makes the screen\<close>
  | RunPosted nat \<comment> \<open>the application runs one of the posted functions\<close>

fun screen_step :: "screen_op \<Rightarrow> screen \<Rightarrow> screen option" where
  "screen_step (EmitPool e) s = sendPoolEvent e s"
| "screen_step (EmitContainer e) s = sendContainerEvent e s"
| "screen_step HandlePool s = handlePoolEvents s"
| "screen_step HandleContainer s = handleContainerEvents s"
| "screen_step SendPool s =
     (case psend s of
        Some (UpdatePool p) \<Rightarrow> map_option (\<lambda>s. s\<lparr>psend := None\<rparr>) (updatePool p s)
      | _ \<Rightarrow> None)"
| "screen_step SendContainer s =
     (case csend s of None \<Rightarrow> None | Some w \<Rightarrow> map_option (\<lambda>s. s\<lparr>csend := None\<rparr>) (writer_call w s))"
| "screen_step RecvPool s =
     (case pch s of [] \<Rightarrow> None | p # ps \<Rightarrow> writer_turn (TuiPool (pool_key p) (pool_cols p)) (s\<lparr>pch := ps\<rparr>))"
| "screen_step RecvContainer s =
     (case cch s of
        [] \<Rightarrow> None
      | c # cs \<Rightarrow> writer_turn (TuiContainer (container_key c) (container_cells c)) (s\<lparr>cch := cs\<rparr>))"
| "screen_step RecvDelete s =
     (case dch s of [] \<Rightarrow> None | c # cs \<Rightarrow> writer_turn (TuiDelete (container_key c)) (s\<lparr>dch := cs\<rparr>))"
| "screen_step RecvDrain s = writer_turn TuiDrain s"
| "screen_step RecvDraw s = writer_turn TuiDraw s"
| "screen_step AppStarts s = Some (s\<lparr>app_started := True\<rparr>)"
| "screen_step (RunPosted k) s =
     (if k < length (posted s)
      then let b = posted s ! k in
        Some (s\<lparr>posted := take k (posted s) @ drop (Suc k) (posted s), cscreen := apply_batch b (cscreen s),
                pscreen := pscreen s ++ b_pupdate b\<rparr>)
      else None)"

text \<open>
  The emitters of the program: docker's identifiers are 64 hexadecimal digits, and an item's
  emitter is made by its pool's, so an identifier always comes with the name of its owner.
\<close>

definition well_emitted :: "(string \<Rightarrow> string) \<Rightarrow> cevent \<Rightarrow> bool" where
  "well_emitted owner e \<longleftrightarrow> ce_pool e = owner (ce_container e) \<and> length (ce_container e) = 64"

fun well_reported :: "(string \<Rightarrow> string) \<Rightarrow> screen_op \<Rightarrow> bool" where
  "well_reported owner (EmitContainer e) = well_emitted owner e"
| "well_reported owner _ = True"

text \<open>
  The writer relies on two things that nothing in the program ensures: that the application has
  started (\<open>started\<close>) before the first drawing, and that posted functions run in the order of
  posting. \<open>screen_exec\<close> is the machine of such schedules.
\<close>

fun in_order :: "bool \<Rightarrow> screen_op list \<Rightarrow> bool" where
  "in_order started [] = True"
| "in_order started (AppStarts # ops) = in_order True ops"
| "in_order started (RecvDraw # ops) = (started \<and> in_order started ops)"
| "in_order started (RunPosted k # ops) = (k = 0 \<and> in_order started ops)"
| "in_order started (_ # ops) = in_order started ops"

definition screen_exec :: "(string \<Rightarrow> string) \<Rightarrow> screen_op \<Rightarrow> screen \<Rightarrow> screen option" where
  "screen_exec owner op s =
     (case op of
        EmitContainer e \<Rightarrow> if well_emitted owner e then screen_step op s else None
      | RecvDraw \<Rightarrow> if app_started s then screen_step op s else None
      | RunPosted k \<Rightarrow> if k = 0 then screen_step op s else None
      | _ \<Rightarrow> screen_step op s)"

lemmas screen_calls [calls] =
  sendPoolEvent_def sendContainerEvent_def handlePoolEvents_def handleContainerEvents_def updatePool_def
  updateContainer_def deleteContainer_def writer_call_def writer_turn_def

lemma screen_step_started: "screen_step op s = Some t \<Longrightarrow> app_started t = (app_started s \<or> op = AppStarts)"
  by (cases op)
    (auto simp: calls Let_def split: if_splits list.splits option.splits ui_write.splits prod.splits)

lemma in_order_exec:
  assumes "in_order (app_started s) (op # ops)" "well_reported owner op" "screen_step op s = Some t"
  shows "screen_exec owner op s = Some t \<and> in_order (app_started t) ops"
  using assms screen_step_started [OF assms(3)] by (cases op) (auto simp: screen_exec_def simp del: screen_step.simps)

lemma in_order_run:
  "run screen_step ops s = Some t \<Longrightarrow> in_order (app_started s) ops \<Longrightarrow> list_all (well_reported owner) ops \<Longrightarrow>
     run (screen_exec owner) ops s = Some t"
proof (induction ops arbitrary: s)
  case (Cons op ops)
  then obtain u where u: "screen_step op s = Some u" "run screen_step ops u = Some t" by (auto split: option.splits)
  have "screen_exec owner op s = Some u \<and> in_order (app_started u) ops"
    using in_order_exec [where owner = owner, OF Cons.prems(2) _ u(1)] Cons.prems(3) by simp
  with Cons.IH [OF u(2)] Cons.prems(3) show ?case by simp
qed simp

text \<open>Nothing is on its way to the tables, except for removals.\<close>

definition settled :: "screen \<Rightarrow> bool" where
  "settled s \<longleftrightarrow> containerch s = [] \<and> csend s = None \<and> cch s = [] \<and> cupdate (ui_wr s) = Map.empty
     \<and> posted s = [] \<and> \<not> tui_returned (ui_wr s)"

text \<open>The events of one container among those emitted.\<close>

fun emitted :: "string \<Rightarrow> screen_op list \<Rightarrow> cevent list" where
  "emitted i [] = []"
| "emitted i (EmitContainer e # ops) = (if ce_container e = i then e # emitted i ops else emitted i ops)"
| "emitted i (_ # ops) = emitted i ops"

section \<open>Facts\<close>

lemma emitted_append [simp]: "emitted i (xs @ ys) = emitted i xs @ emitted i ys"
  by (induction i xs rule: emitted.induct) simp_all

text \<open>What a turn of the container handler does to the map and asks of the writer.\<close>

definition changed :: "cevent \<Rightarrow> processor \<Rightarrow> ui_container" where
  "changed e p = apply_cevent e (case ui_containers p (ce_container e) of None \<Rightarrow> new_container e | Some c \<Rightarrow> c)"

lemma container_event_write:
  "last (writes (container_event_step e p)) =
     (if ce_id e = CeventExited then DeleteContainer (changed e p) else UpdateContainer (changed e p))"
  by (simp add: container_event_step_def handleContainerUpdate_def handleContainerCreate_def changed_def Let_def
      split: option.split)

lemma track_changed: "ce_id e \<noteq> CeventExited \<Longrightarrow> track e (ui_containers p (ce_container e)) = Some (changed e p)"
  by (simp add: track_def changed_def)

lemma pool_event_containers [simp]: "ui_containers (pool_event_step e p) = ui_containers p"
  by (simp add: pool_event_step_def handlePoolUpdate_def handlePoolCreate_def Let_def split: option.split)

lemma apply_cevent_pname [simp]: "pname (apply_cevent e c) = pname c"
  by (simp add: apply_cevent_def clear_action_def set_action_def split: cevent_id.split)

text \<open>Every container the processor knows belongs to the owner of its identifier.\<close>

definition owned :: "(string \<Rightarrow> string) \<Rightarrow> processor \<Rightarrow> bool" where
  "owned owner p \<longleftrightarrow> filed p \<and>
     (\<forall>i c. ui_containers p i = Some c \<longrightarrow> pname c = owner i \<and> length i = 64)"

lemma owned_container:
  assumes "owned owner p" "well_emitted owner e"
  shows "owned owner (container_event_step e p)"
    and "container_key (changed e p) = owner (ce_container e) @ ce_container e"
proof -
  have c: "pname (changed e p) = owner (ce_container e) \<and> container_id (changed e p) = ce_container e"
    using assms by (auto simp: changed_def owned_def filed_def well_emitted_def new_container_def split: option.split)
  then show "container_key (changed e p) = owner (ce_container e) @ ce_container e"
    by (simp add: container_key_def)
  have f: "filed p" using assms(1) by (simp add: owned_def)
  have "track e (ui_containers p (ce_container e)) = Some c' \<Longrightarrow> c' = changed e p" for c'
    by (simp add: track_def changed_def split: if_splits)
  with c assms container_event_track [OF f] filed_container [OF f] show "owned owner (container_event_step e p)"
    by (auto simp: owned_def well_emitted_def split: if_splits)
qed

lemma key_inject: "length i = length j \<Longrightarrow> n @ i = m @ j \<longleftrightarrow> n = m \<and> i = j"
  by (rule append_eq_append_conv) simp

section \<open>The row of a live container\<close>

text \<open>
  The row of one key as it will be when all updates under way have arrived: the screen, changed
  by the posted batches, by what waits for the next drawing, and by the queued updates.
\<close>

definition upd :: "string \<Rightarrow> ui_container \<Rightarrow> cell list option \<Rightarrow> cell list option" where
  "upd k c v = (if container_key c = k then Some (container_cells c) else v)"

fun updates :: "ui_write option \<Rightarrow> ui_container list" where
  "updates (Some (UpdateContainer c)) = [c]"
| "updates _ = []"

definition drawn :: "screen \<Rightarrow> string \<rightharpoonup> cell list" where
  "drawn s = apply_batch (pending_batch (ui_wr s)) (fold apply_batch (posted s) (cscreen s))"

definition row_to_be :: "string \<Rightarrow> screen \<Rightarrow> cell list option" where
  "row_to_be k s = fold (upd k) (cch s @ updates (csend s)) (drawn s k)"

text \<open>No removal of the key is under way.\<close>

definition no_removal :: "string \<Rightarrow> screen \<Rightarrow> bool" where
  "no_removal k s \<longleftrightarrow> k \<notin> cdelete (ui_wr s) \<and> k \<notin> container_key ` set (dch s)
     \<and> (case csend s of Some (DeleteContainer c) \<Rightarrow> container_key c \<noteq> k | _ \<Rightarrow> True)"

definition live_inv :: "(string \<Rightarrow> string) \<Rightarrow> string \<Rightarrow> cevent list \<Rightarrow> screen \<Rightarrow> bool" where
  "live_inv owner i hist s \<longleftrightarrow>
     owned owner (ui_proc s) \<and> (\<forall>e \<in> set (containerch s). well_emitted owner e \<and> (ce_container e = i \<longrightarrow> ce_id e \<noteq> CeventExited))
     \<and> fold track (filter (\<lambda>e. ce_container e = i) (containerch s)) (ui_containers (ui_proc s) i) = fold track hist None
     \<and> (\<not> tui_returned (ui_wr s) \<longrightarrow> no_removal (owner i @ i) s
          \<and> row_to_be (owner i @ i) s = map_option container_cells (ui_containers (ui_proc s) i))"

lemma live_inv_start: "live_inv owner i [] newScreen"
  using filed_new
  by (simp add: live_inv_def newScreen_def owned_def row_to_be_def drawn_def no_removal_def newTUIWriter_def
      apply_batch_def pending_batch_def newProcessor_def)

lemma apply_batch_at: "k \<notin> b_cdelete b \<Longrightarrow> apply_batch b m k = (case b_cupdate b k of None \<Rightarrow> m k | Some cs \<Rightarrow> Some cs)"
  by (simp add: apply_batch_def map_add_def)

text \<open>A turn of the writer's loop: what it does to the key's row, unless it returns.\<close>

lemma writer_turn_fields:
  "writer_turn e s = Some t \<Longrightarrow> \<not> tui_returned (ui_wr s) \<and> cch t = cch s \<and> dch t = dch s \<and> csend t = csend s
     \<and> containerch t = containerch s \<and> ui_proc t = ui_proc s"
  by (auto simp: writer_turn_def split: if_splits prod.splits)

lemma writer_turn_drawn:
  assumes "writer_turn e s = Some t" "\<not> tui_returned (ui_wr t)" "k \<notin> cdelete (ui_wr s)" "e \<noteq> TuiDelete k"
    and "e = TuiDraw \<Longrightarrow> app_started s"
  shows "k \<notin> cdelete (ui_wr t) \<and> drawn t k = (case e of TuiContainer k' cs \<Rightarrow> if k' = k then Some cs else drawn s k | _ \<Rightarrow> drawn s k)"
  using assms
  by (cases e)
    (auto simp: writer_turn_def tui_step_def tui_draw_def drawn_def pending_batch_def apply_batch_at split: if_splits)

lemma fold_upd_last: "fold (upd k) (cs @ [c]) v = upd k c (fold (upd k) cs v)"
  by simp

text \<open>A step that changes neither the channels nor the processor of the containers.\<close>

lemma live_inv_same:
  assumes "live_inv owner i hist s" "ui_containers (ui_proc t) = ui_containers (ui_proc s)" "filed (ui_proc t)"
    and "containerch t = containerch s" "cch t = cch s" "dch t = dch s" "csend t = csend s"
    and "\<not> tui_returned (ui_wr t) \<Longrightarrow> \<not> tui_returned (ui_wr s)
          \<and> (owner i @ i \<notin> cdelete (ui_wr s) \<longrightarrow>
              owner i @ i \<notin> cdelete (ui_wr t) \<and> drawn t (owner i @ i) = drawn s (owner i @ i))"
  shows "live_inv owner i hist t"
  using assms by (auto simp: live_inv_def owned_def row_to_be_def no_removal_def)

lemma live_handle:
  assumes inv: "live_inv owner i hist s" and i: "length i = 64" and h: "handleContainerEvents s = Some t"
  shows "live_inv owner i hist t"
proof -
  let ?p = "ui_proc s" and ?k = "owner i @ i"
  obtain e es where q: "containerch s = e # es" "csend s = None"
    and t: "t = s\<lparr>containerch := es, ui_proc := container_event_step e ?p, csend := Some (last (writes (container_event_step e ?p)))\<rparr>"
    using h by (auto simp: handleContainerEvents_def Let_def split: list.splits option.splits)
  have e: "well_emitted owner e" "ce_container e = i \<longrightarrow> ce_id e \<noteq> CeventExited" and own: "owned owner ?p"
    using inv q by (auto simp: live_inv_def)
  note own' = owned_container [OF own e(1)]
  have f: "filed ?p" using own by (simp add: owned_def)
  have key: "container_key (changed e ?p) = ?k \<longleftrightarrow> ce_container e = i"
    using own'(2) e(1) i key_inject [of "ce_container e" i] by (auto simp: well_emitted_def)
  have c: "ui_containers (container_event_step e ?p) i = (if ce_container e = i then track e (ui_containers ?p i) else ui_containers ?p i)"
    using container_event_track [OF f] by auto
  have hist: "fold track (filter (\<lambda>e. ce_container e = i) es) (ui_containers (container_event_step e ?p) i) = fold track hist None"
    using inv q c by (cases "ce_container e = i") (simp_all add: live_inv_def)
  have rows: "no_removal ?k t \<and> row_to_be ?k t = map_option container_cells (ui_containers (container_event_step e ?p) i)"
    if "\<not> tui_returned (ui_wr s)"
  proof -
    have old: "no_removal ?k s" "row_to_be ?k s = map_option container_cells (ui_containers ?p i)"
      using inv that by (simp_all add: live_inv_def)
    have d: "drawn t = drawn s" by (simp add: t drawn_def)
    show ?thesis
    proof (cases "ce_container e = i")
      case True
      then have "ce_id e \<noteq> CeventExited" using e(2) by simp
      moreover have "ui_containers (container_event_step e ?p) i = Some (changed e ?p)"
        using c True track_changed [OF \<open>ce_id e \<noteq> CeventExited\<close>, of ?p] by simp
      ultimately show ?thesis
        using old key True q d by (simp add: t no_removal_def row_to_be_def container_event_write upd_def)
    next
      case False
      with old key q d c show ?thesis
        by (simp add: t no_removal_def row_to_be_def container_event_write upd_def)
    qed
  qed
  show ?thesis using own'(1) hist rows inv q by (simp add: live_inv_def t)
qed

lemma live_emit:
  assumes "live_inv owner i hist s" "well_emitted owner e" "ce_container e = i \<Longrightarrow> ce_id e \<noteq> CeventExited"
    and "sendContainerEvent e s = Some t"
  shows "live_inv owner i (hist @ (if ce_container e = i then [e] else [])) t"
  using assms
  by (auto simp: live_inv_def sendContainerEvent_def row_to_be_def drawn_def no_removal_def split: if_splits)

lemma live_send:
  assumes "live_inv owner i hist s" "csend s = Some w" "writer_call w s = Some u"
  shows "live_inv owner i hist (u\<lparr>csend := None\<rparr>)"
proof (cases "tui_returned (ui_wr s)")
  case True
  then have "u = s" using assms(3) by (auto simp: calls split: ui_write.splits)
  with assms(1) True show ?thesis by (simp add: live_inv_def)
next
  case False
  with assms show ?thesis
    by (cases w) (auto simp: live_inv_def calls row_to_be_def drawn_def no_removal_def split: if_splits)
qed

lemma live_recv_container:
  assumes inv: "live_inv owner i hist s" and q: "cch s = c # cs"
    and t: "writer_turn (TuiContainer (container_key c) (container_cells c)) (s\<lparr>cch := cs\<rparr>) = Some t"
  shows "live_inv owner i hist t"
proof -
  let ?k = "owner i @ i" and ?u = "s\<lparr>cch := cs\<rparr>"
  note f = writer_turn_fields [OF t]
  have "no_removal ?k t \<and> row_to_be ?k t = map_option container_cells (ui_containers (ui_proc s) i)"
    if nr: "\<not> tui_returned (ui_wr t)"
  proof -
    have "\<not> tui_returned (ui_wr s)" using f by simp
    then have old: "no_removal ?k s" "row_to_be ?k s = map_option container_cells (ui_containers (ui_proc s) i)"
      using inv by (simp_all add: live_inv_def)
    have "?k \<notin> cdelete (ui_wr ?u)" using old(1) by (simp add: no_removal_def)
    from writer_turn_drawn [OF t nr this] f
    have "?k \<notin> cdelete (ui_wr t) \<and> drawn t ?k = upd ?k c (drawn s ?k)"
      by (simp add: upd_def drawn_def)
    with old f q show ?thesis by (simp add: no_removal_def row_to_be_def)
  qed
  with inv f show ?thesis by (simp add: live_inv_def)
qed

lemma live_recv_delete:
  assumes inv: "live_inv owner i hist s" and q: "dch s = c # cs"
    and t: "writer_turn (TuiDelete (container_key c)) (s\<lparr>dch := cs\<rparr>) = Some t"
  shows "live_inv owner i hist t"
proof -
  let ?k = "owner i @ i" and ?u = "s\<lparr>dch := cs\<rparr>"
  note f = writer_turn_fields [OF t]
  have "no_removal ?k t \<and> row_to_be ?k t = map_option container_cells (ui_containers (ui_proc s) i)"
    if nr: "\<not> tui_returned (ui_wr t)"
  proof -
    have "\<not> tui_returned (ui_wr s)" using f by simp
    then have old: "no_removal ?k s" "row_to_be ?k s = map_option container_cells (ui_containers (ui_proc s) i)"
      using inv by (simp_all add: live_inv_def)
    have "?k \<notin> cdelete (ui_wr ?u)" "TuiDelete (container_key c) \<noteq> TuiDelete ?k"
      using old(1) q by (auto simp: no_removal_def)
    from writer_turn_drawn [OF t nr this] f
    have "?k \<notin> cdelete (ui_wr t) \<and> drawn t ?k = drawn s ?k" by (simp add: drawn_def)
    with old f q show ?thesis by (simp add: no_removal_def row_to_be_def)
  qed
  with inv f show ?thesis by (simp add: live_inv_def)
qed

text \<open>The turns that have nothing to do with the queues of the containers.\<close>

lemma live_recv_other:
  assumes inv: "live_inv owner i hist s" and e: "case e of TuiContainer k cs \<Rightarrow> False | TuiDelete k \<Rightarrow> False | _ \<Rightarrow> True"
    and st: "e = TuiDraw \<Longrightarrow> app_started s"
    and t: "writer_turn e (s\<lparr>pch := ps\<rparr>) = Some t"
  shows "live_inv owner i hist t"
proof (rule live_inv_same [OF inv])
  note f = writer_turn_fields [OF t]
  show "ui_containers (ui_proc t) = ui_containers (ui_proc s)" "filed (ui_proc t)"
    "containerch t = containerch s" "cch t = cch s" "dch t = dch s" "csend t = csend s"
    using f inv by (simp_all add: live_inv_def owned_def)
  assume nr: "\<not> tui_returned (ui_wr t)"
  have "owner i @ i \<notin> cdelete (ui_wr t) \<and> drawn t (owner i @ i) = drawn s (owner i @ i)"
    if "owner i @ i \<notin> cdelete (ui_wr s)"
  proof -
    have "e \<noteq> TuiDelete (owner i @ i)" using e by (cases e) simp_all
    from writer_turn_drawn [OF t nr _ this] that e st show ?thesis by (cases e) (simp_all add: drawn_def)
  qed
  then show "\<not> tui_returned (ui_wr s) \<and> (owner i @ i \<notin> cdelete (ui_wr s) \<longrightarrow>
      owner i @ i \<notin> cdelete (ui_wr t) \<and> drawn t (owner i @ i) = drawn s (owner i @ i))"
    using f by simp
qed

lemma live_step:
  assumes inv: "live_inv owner i hist s" and i: "length i = 64" and t: "screen_exec owner op s = Some t"
    and x: "\<forall>e \<in> set (emitted i [op]). ce_id e \<noteq> CeventExited"
  shows "live_inv owner i (hist @ emitted i [op]) t"
proof -
  have f: "filed (ui_proc s)" using inv by (simp add: live_inv_def owned_def)
  show ?thesis
  proof (cases op)
    case (EmitPool e)
    with t have "t = s\<lparr>poolch := poolch s @ [e]\<rparr>" by (auto simp: screen_exec_def calls split: if_splits)
    with live_inv_same [OF inv, of t] f EmitPool show ?thesis by (simp add: drawn_def)
  next
    case (EmitContainer e)
    with t have "well_emitted owner e" "sendContainerEvent e s = Some t" by (auto simp: screen_exec_def split: if_splits)
    with live_emit [OF inv, of e t] x EmitContainer show ?thesis by (cases "ce_container e = i") simp_all
  next
    case HandlePool
    with t obtain es e where "t = s\<lparr>poolch := es, ui_proc := pool_event_step e (ui_proc s),
        psend := Some (last (writes (pool_event_step e (ui_proc s))))\<rparr>"
      by (auto simp: screen_exec_def handlePoolEvents_def Let_def split: list.splits option.splits)
    with live_inv_same [OF inv, of t] filed_pool [OF f] HandlePool show ?thesis by (simp add: drawn_def)
  next
    case HandleContainer
    with t have "handleContainerEvents s = Some t" by (simp add: screen_exec_def)
    with live_handle [OF inv i] HandleContainer show ?thesis by simp
  next
    case SendPool
    with t have "t = s\<lparr>pch := pch s, psend := None\<rparr> \<or> (\<exists>p. t = s\<lparr>pch := pch s @ [p], psend := None\<rparr>)"
      by (auto simp: screen_exec_def updatePool_def split: option.splits ui_write.splits if_splits)
    then obtain ps where "t = s\<lparr>pch := ps, psend := None\<rparr>" by blast
    with live_inv_same [OF inv, of t] f SendPool show ?thesis by (simp add: drawn_def)
  next
    case SendContainer
    with t live_send [OF inv] show ?thesis by (auto simp: screen_exec_def split: option.splits)
  next
    case RecvPool
    with t obtain p ps where "writer_turn (TuiPool (pool_key p) (pool_cols p)) (s\<lparr>pch := ps\<rparr>) = Some t"
      by (auto simp: screen_exec_def split: list.splits)
    with live_recv_other [OF inv, of "TuiPool (pool_key p) (pool_cols p)" ps t] RecvPool show ?thesis by simp
  next
    case RecvContainer
    with t live_recv_container [OF inv] show ?thesis by (auto simp: screen_exec_def split: list.splits)
  next
    case RecvDelete
    with t live_recv_delete [OF inv] show ?thesis by (auto simp: screen_exec_def split: list.splits)
  next
    case RecvDrain
    with t live_recv_other [OF inv, of TuiDrain "pch s"] show ?thesis by (simp add: screen_exec_def)
  next
    case RecvDraw
    with t have "app_started s" "writer_turn TuiDraw s = Some t" by (auto simp: screen_exec_def split: if_splits)
    with RecvDraw live_recv_other [OF inv, of TuiDraw "pch s"] show ?thesis by simp
  next
    case AppStarts
    with t have "t = s\<lparr>app_started := True\<rparr>" by (simp add: screen_exec_def)
    with live_inv_same [OF inv, of t] f AppStarts show ?thesis by (simp add: drawn_def)
  next
    case (RunPosted k)
    with t obtain b bs m m' where b: "posted s = b # bs" "m = apply_batch b (cscreen s)"
      and t': "t = s\<lparr>posted := bs, cscreen := m, pscreen := m'\<rparr>"
      by (cases "posted s") (auto simp: screen_exec_def Let_def split: if_splits)
    have "drawn t = drawn s" by (simp add: t' drawn_def b)
    with live_inv_same [OF inv, of t] f RunPosted t' show ?thesis by simp
  qed
qed

lemma live_run:
  "run (screen_exec owner) ops s = Some t \<Longrightarrow> live_inv owner i hist s \<Longrightarrow> length i = 64 \<Longrightarrow>
     \<forall>e \<in> set (emitted i ops). ce_id e \<noteq> CeventExited \<Longrightarrow> live_inv owner i (hist @ emitted i ops) t"
proof (induction ops arbitrary: s hist)
  case (Cons op ops)
  obtain u where u: "screen_exec owner op s = Some u" "run (screen_exec owner) ops u = Some t"
    using Cons.prems(1) by (auto split: option.splits)
  have e: "emitted i (op # ops) = emitted i [op] @ emitted i ops" using emitted_append [of i "[op]" ops] by simp
  have "live_inv owner i (hist @ emitted i [op]) u"
    using live_step [OF Cons.prems(2,3) u(1)] Cons.prems(4) e by auto
  from Cons.IH [OF u(2) this Cons.prems(3)] Cons.prems(4) e show ?case by simp
qed simp

section \<open>Properties\<close>

text \<open>
  C15: The terminal is right about every container that has not exited, when the application has
  started before the first drawing and runs what is posted in order: whatever the order in which
  the emitters, the two handlers and the writer's loop take their turns, once the reports have
  arrived the row of the container is the one for the state that its own reports, in their
  order, lead to, and there is none before its first report. The reports are those of the
  program's emitters: identifiers of docker's length, each with the name of its own pool.
\<close>

theorem screen_shows_live:
  assumes "run screen_step ops newScreen = Some s" and "in_order False ops" and "list_all (well_reported owner) ops"
    and "settled s" and "length i = 64" and "\<forall>e \<in> set (emitted i ops). ce_id e \<noteq> CeventExited"
  shows "cscreen s (owner i @ i) = map_option container_cells (fold track (emitted i ops) None)"
proof -
  have "run (screen_exec owner) ops newScreen = Some s"
    using in_order_run [OF assms(1) _ assms(3)] assms(2) by (simp add: newScreen_def)
  then have "live_inv owner i (emitted i ops) s"
    using live_run [OF _ live_inv_start assms(5,6)] by simp
  then have i: "ui_containers (ui_proc s) i = fold track (emitted i ops) None" and "owner i @ i \<notin> cdelete (ui_wr s)"
    and r: "apply_batch (pending_batch (ui_wr s)) (cscreen s) (owner i @ i) = map_option container_cells (ui_containers (ui_proc s) i)"
    using assms(4) by (simp_all add: live_inv_def settled_def row_to_be_def drawn_def no_removal_def)
  then have "apply_batch (pending_batch (ui_wr s)) (cscreen s) (owner i @ i) = cscreen s (owner i @ i)"
    using assms(4) by (simp add: apply_batch_at pending_batch_def settled_def)
  with i r show ?thesis by simp
qed

definition sample_id :: string where
  "sample_id = replicate 64 CHR ''a''"

definition shown_steps :: "screen_op list" where
  "shown_steps =
     [AppStarts, EmitContainer (container_emitter ''pg'' sample_id EmitCreated), HandleContainer, SendContainer,
      RecvContainer, RecvDraw, RunPosted 0]"

lemma map_option_holds: "map_option P r = Some True \<Longrightarrow> \<exists>x. r = Some x \<and> P x"
  by auto

lemma sample_length: "length sample_id = 64"
  by (simp add: sample_id_def)

lemmas screen_eval =
  screen_exec_def calls Let_def well_emitted_def plain_cevent_def sample_length newScreen_def newProcessor_def newTUIWriter_def
  container_event_step_def handleContainerCreate_def handleContainerUpdate_def new_container_def apply_cevent_def
  clear_action_def tui_step_def tui_draw_def pBufSiz_def tuiCHBufsiz_def container_key_def apply_batch_def

theorem screen_shows_live_witness:
  "\<exists>s c. run screen_step shown_steps newScreen = Some s
     \<and> cscreen s (''pg'' @ sample_id) = Some (container_cells c) \<and> container_state c = CstateCreated"
proof -
  have "map_option settled (run screen_step shown_steps newScreen) = Some True"
    by (simp add: shown_steps_def screen_eval settled_def)
  then obtain s where s: "run screen_step shown_steps newScreen = Some s" "settled s"
    using map_option_holds by fast
  have e: "emitted sample_id shown_steps = [container_emitter ''pg'' sample_id EmitCreated]"
    by (simp add: shown_steps_def plain_cevent_def)
  have "cscreen s (''pg'' @ sample_id) = map_option container_cells (fold track (emitted sample_id shown_steps) None)"
    by (rule screen_shows_live [where owner = "\<lambda>_. ''pg''", OF s(1) _ _ s(2) sample_length])
      (simp_all only: e, simp_all add: shown_steps_def well_emitted_def plain_cevent_def sample_length)
  also have "\<dots> = Some (container_cells (apply_cevent (container_emitter ''pg'' sample_id EmitCreated)
      (new_container (container_emitter ''pg'' sample_id EmitCreated))))"
    by (simp add: e track_def plain_cevent_def)
  finally show ?thesis using s(1) by (auto simp: apply_cevent_def clear_action_def plain_cevent_def)
qed

text \<open>
  The removal of a container can overtake its last update, because the two go through channels
  of their own between which the writer's loop chooses: then the update is drawn after the
  removal and the row of the exited container stays, although every report came in order and
  nothing is under way any more.
\<close>

theorem removal_overtakes_update:
  "\<exists>ops s. run (screen_exec (\<lambda>_. ''pg'')) ops newScreen = Some s
     \<and> map ce_id (emitted sample_id ops) = [CeventCreated, CeventExited]
     \<and> settled s \<and> dch s = [] \<and> cdelete (ui_wr s) = {} \<and> ui_containers (ui_proc s) sample_id = None
     \<and> cscreen s (''pg'' @ sample_id) \<noteq> None"
proof -
  let ?ops = "[AppStarts, EmitContainer (container_emitter ''pg'' sample_id EmitCreated), HandleContainer, SendContainer,
    EmitContainer (container_emitter ''pg'' sample_id EmitExited), HandleContainer, SendContainer,
    RecvDelete, RecvDraw, RecvContainer, RecvDraw, RunPosted 0, RunPosted 0]"
  define P where "P s \<longleftrightarrow> settled s \<and> dch s = [] \<and> cdelete (ui_wr s) = {} \<and> ui_containers (ui_proc s) sample_id = None
     \<and> cscreen s (''pg'' @ sample_id) \<noteq> None" for s
  have "map_option P (run (screen_exec (\<lambda>_. ''pg'')) ?ops newScreen) = Some True"
    by (simp add: screen_eval settled_def P_def)
  then obtain s where s: "run (screen_exec (\<lambda>_. ''pg'')) ?ops newScreen = Some s" "P s"
    using map_option_holds by fast
  have "map ce_id (emitted sample_id ?ops) = [CeventCreated, CeventExited]" by (simp add: plain_cevent_def)
  then show ?thesis
    by (intro exI [of _ ?ops] exI [of _ s]) (use s in \<open>simp only: P_def simp_thms\<close>)
qed

text \<open>
  What the writer relies on does not hold by itself. Two batches that the application runs in the
  other order leave the older state of a live container on the screen, and one that is drawn
  before the application has its screen is lost.
\<close>

lemma batches_swap:
  "\<exists>s. run screen_step
       [AppStarts, EmitContainer (container_emitter ''pg'' sample_id EmitCreated), HandleContainer, SendContainer,
        RecvContainer, RecvDraw, EmitContainer (container_emitter ''pg'' sample_id EmitStarted), HandleContainer,
        SendContainer, RecvContainer, RecvDraw, RunPosted 1, RunPosted 0] newScreen = Some s
     \<and> settled s \<and> map_option container_state (ui_containers (ui_proc s) sample_id) = Some CstateStarted
     \<and> (\<exists>c. cscreen s (''pg'' @ sample_id) = Some (container_cells c) \<and> container_state c = CstateCreated)"
  by (simp add: screen_eval settled_def) (rule exI, rule conjI, rule refl, simp)

lemma early_drawing_lost:
  "\<exists>s. run screen_step
       [EmitContainer (container_emitter ''pg'' sample_id EmitCreated), HandleContainer, SendContainer,
        RecvContainer, RecvDraw, AppStarts, RecvDraw, RunPosted 0] newScreen = Some s
     \<and> settled s \<and> ui_containers (ui_proc s) sample_id \<noteq> None \<and> cscreen s (''pg'' @ sample_id) = None"
  by (simp add: screen_eval settled_def)

section \<open>Progress\<close>

text \<open>Every report has been taken in, and no handler waits for the writer.\<close>

definition idle :: "screen \<Rightarrow> bool" where
  "idle s \<longleftrightarrow> poolch s = [] \<and> containerch s = [] \<and> psend s = None \<and> csend s = None"

fun emission :: "screen_op \<Rightarrow> bool" where
  "emission (EmitPool e) = True"
| "emission (EmitContainer e) = True"
| "emission _ = False"

text \<open>The steps that move a report on.\<close>

fun quiet :: "screen_op \<Rightarrow> bool" where
  "quiet HandlePool = True"
| "quiet HandleContainer = True"
| "quiet SendPool = True"
| "quiet SendContainer = True"
| "quiet RecvPool = True"
| "quiet RecvContainer = True"
| "quiet RecvDelete = True"
| "quiet _ = False"

lemma quiet_silent: "quiet op \<Longrightarrow> \<not> emission op"
  by (cases op) simp_all

definition pool_writes :: "screen \<Rightarrow> bool" where
  "pool_writes s \<longleftrightarrow> (case psend s of Some (UpdatePool p) \<Rightarrow> True | Some _ \<Rightarrow> False | None \<Rightarrow> True)"

definition work :: "screen \<Rightarrow> nat" where
  "work s = 3 * (length (poolch s) + length (containerch s)) + 2 * (if psend s = None then 0 else 1)
     + 2 * (if csend s = None then 0 else 1) + length (pch s) + length (cch s) + length (dch s)"

lemma pool_event_write: "\<exists>p'. last (writes (pool_event_step e p)) = UpdatePool p'"
  by (simp add: pool_event_step_def handlePoolUpdate_def handlePoolCreate_def Let_def split: option.split)

lemma pool_event_no_container:
  "last (writes (pool_event_step e p)) \<noteq> UpdateContainer c" "last (writes (pool_event_step e p)) \<noteq> DeleteContainer c"
  using pool_event_write [of e p] by auto

lemma pool_writes_step: "pool_writes s \<Longrightarrow> screen_step op s = Some t \<Longrightarrow> pool_writes t"
  by (cases op) (auto simp: pool_writes_def calls Let_def pool_event_no_container split: if_splits list.splits option.splits ui_write.splits prod.splits)

interpretation pool_writes: invariant screen_step newScreen pool_writes
  by unfold_locales (simp add: pool_writes_def newScreen_def, rule pool_writes_step)

lemma writer_turn_some: "\<not> tui_returned (ui_wr s) \<Longrightarrow> \<exists>w ps. writer_turn e s = Some (s\<lparr>ui_wr := w, posted := ps\<rparr>)"
  by (auto simp: writer_turn_def split: prod.split)

lemma queue_moves:
  assumes "\<not> tui_returned (ui_wr s)"
  shows "pch s \<noteq> [] \<Longrightarrow> \<exists>t. screen_step RecvPool s = Some t \<and> work t < work s"
    and "cch s \<noteq> [] \<Longrightarrow> \<exists>t. screen_step RecvContainer s = Some t \<and> work t < work s"
    and "dch s \<noteq> [] \<Longrightarrow> \<exists>t. screen_step RecvDelete s = Some t \<and> work t < work s"
proof -
  have turn: "\<exists>t. writer_turn e u = Some t \<and> work t = work u" if "ui_wr u = ui_wr s" for e u
    using writer_turn_some [of u e] that assms by (auto simp: work_def)
  show "\<exists>t. screen_step RecvPool s = Some t \<and> work t < work s" if "pch s \<noteq> []"
  proof -
    obtain p ps where q: "pch s = p # ps" using \<open>pch s \<noteq> []\<close> by (cases "pch s") auto
    with turn [of "s\<lparr>pch := ps\<rparr>" "TuiPool (pool_key p) (pool_cols p)"] show ?thesis by (auto simp: work_def)
  qed
  show "\<exists>t. screen_step RecvContainer s = Some t \<and> work t < work s" if "cch s \<noteq> []"
  proof -
    obtain c cs where q: "cch s = c # cs" using \<open>cch s \<noteq> []\<close> by (cases "cch s") auto
    with turn [of "s\<lparr>cch := cs\<rparr>" "TuiContainer (container_key c) (container_cells c)"] show ?thesis by (auto simp: work_def)
  qed
  show "\<exists>t. screen_step RecvDelete s = Some t \<and> work t < work s" if "dch s \<noteq> []"
  proof -
    obtain c cs where q: "dch s = c # cs" using \<open>dch s \<noteq> []\<close> by (cases "dch s") auto
    with turn [of "s\<lparr>dch := cs\<rparr>" "TuiDelete (container_key c)"] show ?thesis by (auto simp: work_def)
  qed
qed

text \<open>A call of the writer either goes through or waits for a channel that the writer can empty.\<close>

lemma send_goes_on:
  assumes "csend s = Some w \<and> r = map_option (\<lambda>s. s\<lparr>csend := None\<rparr>) (writer_call w s)
    \<or> psend s = Some w \<and> r = map_option (\<lambda>s. s\<lparr>psend := None\<rparr>) (writer_call w s)"
  shows "(\<exists>t. r = Some t \<and> work t < work s)
    \<or> (\<exists>op \<in> {RecvPool, RecvContainer, RecvDelete}. \<exists>t. screen_step op s = Some t \<and> work t < work s)"
proof (cases "tui_returned (ui_wr s)")
  case True
  then have "writer_call w s = Some s" by (cases w) (simp_all add: calls)
  with assms show ?thesis by (auto simp: work_def)
next
  case False
  then show ?thesis
    using assms queue_moves [OF False]
    by (cases w; cases "pch s = []"; cases "cch s = []"; cases "dch s = []") (auto simp: calls work_def tuiCHBufsiz_def)
qed

lemma work_goes_on:
  assumes "pool_writes s" "\<not> idle s"
  shows "\<exists>op t. quiet op \<and> screen_step op s = Some t \<and> work t < work s"
proof (cases "csend s")
  case (Some w)
  then have c: "screen_step SendContainer s = map_option (\<lambda>s. s\<lparr>csend := None\<rparr>) (writer_call w s)" by simp
  with Some have "csend s = Some w \<and> screen_step SendContainer s = map_option (\<lambda>s. s\<lparr>csend := None\<rparr>) (writer_call w s)" by simp
  from send_goes_on [OF disjI1, OF this] obtain op t where
    "op \<in> {SendContainer, RecvPool, RecvContainer, RecvDelete}" "screen_step op s = Some t" "work t < work s" by blast
  then show ?thesis by (intro exI [of _ op] exI [of _ t]) auto
next
  case no_csend: None
  show ?thesis
  proof (cases "psend s")
    case (Some w)
    with assms(1) obtain p where w: "w = UpdatePool p" by (auto simp: pool_writes_def split: ui_write.splits)
    with Some have "psend s = Some w \<and> screen_step SendPool s = map_option (\<lambda>s. s\<lparr>psend := None\<rparr>) (writer_call w s)"
      by (simp add: writer_call_def)
    from send_goes_on [OF disjI2, OF this] obtain op t where
      "op \<in> {SendPool, RecvPool, RecvContainer, RecvDelete}" "screen_step op s = Some t" "work t < work s" by blast
    then show ?thesis by (intro exI [of _ op] exI [of _ t]) auto
  next
    case None
    with no_csend assms(2) consider e es where "containerch s = e # es" | e es where "poolch s = e # es"
      by (auto simp: idle_def neq_Nil_conv)
    then show ?thesis
    proof cases
      case 1
      with no_csend show ?thesis
        by (intro exI [of _ HandleContainer]) (simp add: handleContainerEvents_def Let_def work_def)
    next
      case 2
      with None show ?thesis
        by (intro exI [of _ HandlePool]) (simp add: handlePoolEvents_def Let_def work_def)
    qed
  qed
qed

lemma work_ends:
  "pool_writes s \<Longrightarrow> \<exists>ops t. run screen_step ops s = Some t \<and> list_all (\<lambda>op. \<not> emission op) ops \<and> idle t"
proof (induction s rule: measure_induct_rule [of work])
  case (less s)
  show ?case
  proof (cases "idle s")
    case True
    then show ?thesis by (intro exI [of _ "[]"]) simp
  next
    case False
    with less.prems obtain op u where u: "quiet op" "screen_step op s = Some u" "work u < work s"
      using work_goes_on by blast
    with less.IH [OF u(3)] pool_writes_step [OF less.prems u(2)] obtain ops t where
      "run screen_step ops u = Some t" "list_all (\<lambda>op. \<not> emission op) ops" "idle t" by blast
    with u quiet_silent show ?thesis by (intro exI [of _ "op # ops"]) auto
  qed
qed

text \<open>
  C17: The interface never holds up the daemon: whatever state its handlers, channels and writer are
  in, drawing, shutting down or gone, they can go on until every report has been taken in, without
  a further report; so the goroutine of a pool or an item that waits in an emitter gets its turn.
\<close>

theorem reports_taken_in:
  assumes "run screen_step ops newScreen = Some s"
  shows "\<exists>ops' t. run screen_step ops' s = Some t \<and> list_all (\<lambda>op. \<not> emission op) ops' \<and> idle t
     \<and> sendContainerEvent e t \<noteq> None \<and> sendPoolEvent e' t \<noteq> None"
proof -
  have "pool_writes s" using assms by (rule pool_writes.run_inv)
  then obtain ops' t where "run screen_step ops' s = Some t" "list_all (\<lambda>op. \<not> emission op) ops'" "idle t"
    using work_ends by blast
  moreover from this(3) have "sendContainerEvent e t \<noteq> None" "sendPoolEvent e' t \<noteq> None"
    by (simp_all add: idle_def calls pBufSiz_def)
  ultimately show ?thesis by blast
qed

theorem reports_taken_in_witness:
  "\<exists>s ops' t. run screen_step [EmitContainer (container_emitter ''pg'' sample_id EmitCreated)] newScreen = Some s
     \<and> \<not> idle s \<and> run screen_step ops' s = Some t \<and> idle t"
proof -
  obtain s where s: "run screen_step [EmitContainer (container_emitter ''pg'' sample_id EmitCreated)] newScreen = Some s" "\<not> idle s"
    by (simp add: screen_eval idle_def)
  with reports_taken_in [OF s(1)] show ?thesis by blast
qed

end
