(* ===== verification/Daemon_Shutdown.thy ===== *)
theory Daemon_Shutdown
  imports Daemon_Main Ui_Window
begin

text \<open>
  The end of a serving daemon with the terminal interface, \<^verbatim>\<open>ephemerald/main.go\<close>: \<open>main\<close>, the
  goroutine of \<open>handleSignals\<close>, the server's \<open>Run\<close> (\<^verbatim>\<open>net/server.go\<close>), the batching writer
  (\<^verbatim>\<open>ui/tuiwriter.go\<close>) and the event loop of the terminal application, as one machine.
\<close>

section \<open>State\<close>

text \<open>
  The application's event loop waits for an event, is blocked in the window's \<open>HandleEvent\<close> (in the
  send on \<open>shutdownch\<close>), or has restored the terminal and returned.
\<close>

datatype app_pc = AppPolling | AppSending | AppFinished

datatype handler_pc = HSelect | HWaitDone | HReturned

datatype server_pc = SServing | SStoppingPools | SPoolsStopped | SClosed

datatype main_pc = MWaitDone | MStopUI | MWaitWriter | MReturned

text \<open>\<open>quit_posted\<close>: the writer has told the application to quit.\<close>

record daemon =
  app :: app_pc
  handler :: handler_pc
  listening :: bool
  server :: server_pc
  main_at :: main_pc
  writer :: tui_writer
  quit_posted :: bool

definition daemon_start :: daemon where
  "daemon_start =
     \<lparr>app = AppPolling, handler = HSelect, listening = True, server = SServing, main_at = MWaitDone,
      writer = newTUIWriter, quit_posted = False\<rparr>"

section \<open>Steps\<close>

datatype daemon_op =
    Press tui_input \<comment> \<open>the application's loop receives an input event\<close>
  | TakeQuit \<comment> \<open>\<open>handleSignals\<close> receives on \<open>uishutdown\<close>\<close>
  | TakeSignal \<comment> \<open>it receives on \<open>sigch\<close>\<close>
  | HandlerDone \<comment> \<open>it finds \<open>donech\<close> closed\<close>
  | ServeReturns
  | PoolsStop \<comment> \<open>\<open>pools.Stop\<close> returns\<close>
  | CloseNotify \<comment> \<open>\<open>Run\<close> returns and closes \<open>closech\<close>\<close>
  | MainDone \<comment> \<open>\<open>main\<close> finds \<open>donech\<close> closed\<close>
  | MainDrain \<comment> \<open>the writer's loop receives \<open>main\<close>'s send on \<open>drainch\<close>\<close>
  | WriterDraw
  | MainReturns \<comment> \<open>\<open>main\<close> finds the writer's \<open>donech\<close> closed\<close>
  | AppQuits

text \<open>
  \<open>Close\<close> closes the listener, on which \<open>Serve\<close> then fails. That \<open>Serve\<close> does not fail before is
  taken from its documentation: it retries what is temporary.
\<close>

definition server_Close :: "daemon \<Rightarrow> daemon" where
  "server_Close d = d\<lparr>listening := False\<rparr>"

text \<open>The branches of \<open>handleSignals\<close>: the first two close the server, then all wait for \<open>donech\<close>.\<close>

definition signal_branch :: "stop_cause \<Rightarrow> daemon \<Rightarrow> daemon" where
  "signal_branch c d =
     (if CloseServer \<in> set (handleSignals c) then (server_Close d)\<lparr>handler := HWaitDone\<rparr> else d\<lparr>handler := HReturned\<rparr>)"

text \<open>The writer's loop posts the quit event and closes its \<open>donech\<close> as it returns.\<close>

definition writer_draw :: "daemon \<Rightarrow> daemon" where
  "writer_draw d =
     (let w = snd (tui_step TuiDraw (writer d)) in d\<lparr>writer := w, quit_posted := quit_posted d \<or> tui_returned w\<rparr>)"

fun daemon_step :: "daemon_op \<Rightarrow> daemon \<Rightarrow> daemon option" where
  "daemon_step (Press ev) d =
     (if app d = AppPolling
      then Some (case HandleEvent ev of SendShutdown \<Rightarrow> d\<lparr>app := AppSending\<rparr> | PanelEvent e \<Rightarrow> d)
      else None)"
| "daemon_step TakeQuit d =
     (if app d = AppSending \<and> handler d = HSelect
      then Some (signal_branch UiShutdown (d\<lparr>app := AppPolling\<rparr>)) else None)"
| "daemon_step TakeSignal d =
     (if handler d = HSelect then Some (signal_branch Signal d) else None)"
| "daemon_step HandlerDone d =
     (if server d = SClosed \<and> handler d \<noteq> HReturned then Some (d\<lparr>handler := HReturned\<rparr>) else None)"
| "daemon_step ServeReturns d =
     (if server d = SServing \<and> \<not> listening d then Some (d\<lparr>server := SStoppingPools\<rparr>) else None)"
| "daemon_step PoolsStop d =
     (if server d = SStoppingPools then Some (d\<lparr>server := SPoolsStopped\<rparr>) else None)"
| "daemon_step CloseNotify d =
     (if server d = SPoolsStopped then Some (d\<lparr>server := SClosed\<rparr>) else None)"
| "daemon_step MainDone d =
     (if main_at d = MWaitDone \<and> server d = SClosed then Some (d\<lparr>main_at := MStopUI\<rparr>) else None)"
| "daemon_step MainDrain d =
     (if main_at d = MStopUI \<and> \<not> tui_returned (writer d)
      then Some (d\<lparr>main_at := MWaitWriter, writer := snd (tui_step TuiDrain (writer d))\<rparr>) else None)"
| "daemon_step WriterDraw d = (if tui_returned (writer d) then None else Some (writer_draw d))"
| "daemon_step MainReturns d =
     (if main_at d = MWaitWriter \<and> tui_returned (writer d) then Some (d\<lparr>main_at := MReturned\<rparr>) else None)"
| "daemon_step AppQuits d =
     (if app d = AppPolling \<and> quit_posted d then Some (d\<lparr>app := AppFinished\<rparr>) else None)"

text \<open>When \<open>main\<close> returns the process ends, and with it every goroutine.\<close>

definition daemon_exec :: "daemon_op \<Rightarrow> daemon \<Rightarrow> daemon option" where
  "daemon_exec op d = (if main_at d = MReturned then None else daemon_step op d)"

section \<open>What always holds\<close>

text \<open>
  The order of the stages: the server stops serving only after the listener was closed, \<open>main\<close> goes
  on only after the server has closed \<open>closech\<close>, and the writer drains only for \<open>main\<close>.
\<close>

definition stages_ok :: "daemon \<Rightarrow> bool" where
  "stages_ok d \<longleftrightarrow>
     (handler d = HWaitDone \<longrightarrow> \<not> listening d) \<and> (server d \<noteq> SServing \<longrightarrow> \<not> listening d)
     \<and> (handler d = HReturned \<longrightarrow> server d = SClosed)
     \<and> (main_at d \<noteq> MWaitDone \<longrightarrow> server d = SClosed)
     \<and> (main_at d \<in> {MWaitDone, MStopUI} \<longrightarrow> shuttingdown (writer d) = 0)
     \<and> (main_at d = MWaitWriter \<longrightarrow> 0 < shuttingdown (writer d))
     \<and> (tui_returned (writer d) \<longrightarrow> quit_posted d \<and> main_at d \<in> {MWaitWriter, MReturned})
     \<and> (quit_posted d \<longrightarrow> tui_returned (writer d))
     \<and> (app d = AppFinished \<longrightarrow> quit_posted d)
     \<and> (main_at d = MReturned \<longrightarrow> tui_returned (writer d))"

lemma stages_start: "stages_ok daemon_start"
  by (simp add: stages_ok_def daemon_start_def newTUIWriter_def)

lemma signal_branch_simps [simp]:
  "signal_branch UiShutdown d = d\<lparr>listening := False, handler := HWaitDone\<rparr>"
  "signal_branch Signal d = d\<lparr>listening := False, handler := HWaitDone\<rparr>"
  by (simp_all add: signal_branch_def server_Close_def)

lemma draw_cases:
  "writer_draw d = d\<lparr>writer := (writer d)\<lparr>tui_returned := True\<rparr>, quit_posted := True\<rparr> \<and> 2 < shuttingdown (writer d)
   \<or> (\<exists>w. writer_draw d = d\<lparr>writer := w\<rparr> \<and> \<not> tui_returned w \<and> shuttingdown (writer d) \<le> 2
        \<and> shuttingdown w = (if 0 < shuttingdown (writer d) then shuttingdown (writer d) + 1 else 0))"
  if "\<not> tui_returned (writer d)"
  using that by (auto simp: writer_draw_def tui_step_def tui_draw_def Let_def)

lemma stages_step: "stages_ok d \<Longrightarrow> daemon_exec op d = Some e \<Longrightarrow> stages_ok e"
proof -
  assume ok: "stages_ok d" and "daemon_exec op d = Some e"
  then have t: "daemon_step op d = Some e" "main_at d \<noteq> MReturned" by (simp_all add: daemon_exec_def split: if_splits)
  show ?thesis
  proof (cases op)
    case (Press ev)
    with t have "e = d \<or> e = d\<lparr>app := AppSending\<rparr>"
      by (cases "HandleEvent ev") (simp_all split: if_splits)
    then show ?thesis using ok by (elim disjE) (simp_all add: stages_ok_def)
  next
    case MainDrain
    with t have "e = d\<lparr>main_at := MWaitWriter, writer := (writer d)\<lparr>shuttingdown := shuttingdown (writer d) + 1\<rparr>\<rparr>"
      "main_at d = MStopUI" "\<not> tui_returned (writer d)"
      by (simp_all add: tui_step_def split: if_splits)
    with ok show ?thesis by (auto simp: stages_ok_def)
  next
    case WriterDraw
    with t have n: "\<not> tui_returned (writer d)" and e: "e = writer_draw d" by (simp_all split: if_splits)
    have w: "shuttingdown (writer d) \<noteq> 0 \<longrightarrow> main_at d = MWaitWriter"
      using ok t(2) by (cases "main_at d") (simp_all add: stages_ok_def)
    from draw_cases [OF n] show ?thesis unfolding e
    proof (elim disjE exE conjE)
      assume "writer_draw d = d\<lparr>writer := (writer d)\<lparr>tui_returned := True\<rparr>, quit_posted := True\<rparr>" "2 < shuttingdown (writer d)"
      with w ok show "stages_ok (writer_draw d)" by (simp add: stages_ok_def)
    next
      fix w
      assume "writer_draw d = d\<lparr>writer := w\<rparr>" "\<not> tui_returned w"
        "shuttingdown w = (if 0 < shuttingdown (writer d) then shuttingdown (writer d) + 1 else 0)"
      with n ok show "stages_ok (writer_draw d)" by (simp add: stages_ok_def split: if_splits)
    qed
  next
    case TakeQuit
    with t have "e = d\<lparr>app := AppPolling, listening := False, handler := HWaitDone\<rparr>" by (simp split: if_splits)
    with ok show ?thesis by (simp add: stages_ok_def)
  next
    case TakeSignal
    with t have "e = d\<lparr>listening := False, handler := HWaitDone\<rparr>" by (simp split: if_splits)
    with ok show ?thesis by (simp add: stages_ok_def)
  next
    case HandlerDone
    with t have "e = d\<lparr>handler := HReturned\<rparr>" "server d = SClosed" by (simp_all split: if_splits)
    with ok show ?thesis by (simp add: stages_ok_def)
  next
    case ServeReturns
    with t have "e = d\<lparr>server := SStoppingPools\<rparr>" "server d = SServing" "\<not> listening d" by (simp_all split: if_splits)
    with ok show ?thesis by (auto simp: stages_ok_def)
  next
    case PoolsStop
    with t have "e = d\<lparr>server := SPoolsStopped\<rparr>" "server d = SStoppingPools" by (simp_all split: if_splits)
    with ok show ?thesis by (auto simp: stages_ok_def)
  next
    case CloseNotify
    with t have "e = d\<lparr>server := SClosed\<rparr>" "server d = SPoolsStopped" by (simp_all split: if_splits)
    with ok show ?thesis by (auto simp: stages_ok_def)
  next
    case MainDone
    with t have "e = d\<lparr>main_at := MStopUI\<rparr>" "main_at d = MWaitDone" "server d = SClosed" by (simp_all split: if_splits)
    with ok show ?thesis by (auto simp: stages_ok_def)
  next
    case MainReturns
    with t have "e = d\<lparr>main_at := MReturned\<rparr>" "main_at d = MWaitWriter" "tui_returned (writer d)" by (simp_all split: if_splits)
    with ok show ?thesis by (auto simp: stages_ok_def)
  next
    case AppQuits
    with t have "e = d\<lparr>app := AppFinished\<rparr>" "quit_posted d" by (simp_all split: if_splits)
    with ok show ?thesis by (simp add: stages_ok_def)
  qed
qed

interpretation stages: invariant daemon_exec daemon_start stages_ok
  by unfold_locales (use stages_start stages_step in blast)+

text \<open>
  A quit key that is pressed when nobody receives on \<open>uishutdown\<close> any more blocks the loop.
\<close>

definition frozen :: "daemon \<Rightarrow> bool" where
  "frozen d \<longleftrightarrow> app d = AppSending \<and> handler d \<noteq> HSelect"

interpretation frozen: trap daemon_exec frozen
proof
  fix d op e
  assume "frozen d" "daemon_exec op d = Some e"
  then show "frozen e"
    by (cases op) (auto simp: frozen_def daemon_exec_def writer_draw_def Let_def split: if_splits input_action.splits)
qed

section \<open>Exiting\<close>

definition exits :: "daemon \<Rightarrow> bool" where
  "exits d \<longleftrightarrow> (\<exists>ops e. run daemon_exec ops d = Some e \<and> main_at e = MReturned)"

lemma exits_step: "daemon_exec op d = Some e \<Longrightarrow> exits e \<Longrightarrow> exits d"
proof -
  assume e: "daemon_exec op d = Some e" and "exits e"
  then obtain ops f where "run daemon_exec ops e = Some f" "main_at f = MReturned" by (auto simp: exits_def)
  with e have "run daemon_exec (op # ops) d = Some f \<and> main_at f = MReturned" by simp
  then show "exits d" unfolding exits_def by blast
qed

text \<open>After the drain request at most three drawings are needed.\<close>

lemma exits_writer: "main_at d = MWaitWriter \<Longrightarrow> 0 < shuttingdown (writer d) \<Longrightarrow> exits d"
proof (induction "3 - shuttingdown (writer d)" arbitrary: d rule: less_induct)
  case less
  show ?case
  proof (cases "tui_returned (writer d)")
    case True
    then have "daemon_exec MainReturns d = Some (d\<lparr>main_at := MReturned\<rparr>)" using less.prems by (simp add: daemon_exec_def)
    moreover have "exits (d\<lparr>main_at := MReturned\<rparr>)"
      unfolding exits_def by (rule exI [of _ "[]"]) simp
    ultimately show ?thesis by (rule exits_step)
  next
    case False
    have x: "daemon_exec WriterDraw d = Some (writer_draw d)" using False less.prems by (simp add: daemon_exec_def)
    from draw_cases [OF False] show ?thesis
    proof (elim disjE exE conjE)
      let ?e = "d\<lparr>writer := (writer d)\<lparr>tui_returned := True\<rparr>, quit_posted := True\<rparr>"
      assume e: "writer_draw d = ?e"
      have "daemon_exec MainReturns ?e = Some (?e\<lparr>main_at := MReturned\<rparr>)" using less.prems by (simp add: daemon_exec_def)
      moreover have "exits (?e\<lparr>main_at := MReturned\<rparr>)"
        unfolding exits_def by (rule exI [of _ "[]"]) simp
      ultimately have "exits ?e" by (rule exits_step)
      with x e show "exits d" using exits_step by simp
    next
      fix w
      assume w: "writer_draw d = d\<lparr>writer := w\<rparr>" "shuttingdown (writer d) \<le> 2"
        "shuttingdown w = (if 0 < shuttingdown (writer d) then shuttingdown (writer d) + 1 else 0)"
      have "exits (d\<lparr>writer := w\<rparr>)" by (rule less.hyps) (use w less.prems in simp_all)
      with x w(1) show "exits d" using exits_step by simp
    qed
  qed
qed

lemma exits_stop_ui: "stages_ok d \<Longrightarrow> main_at d = MStopUI \<Longrightarrow> exits d"
proof -
  assume ok: "stages_ok d" and m: "main_at d = MStopUI"
  let ?e = "d\<lparr>main_at := MWaitWriter, writer := snd (tui_step TuiDrain (writer d))\<rparr>"
  have "daemon_exec MainDrain d = Some ?e" using ok m by (auto simp: daemon_exec_def stages_ok_def)
  moreover have "exits ?e" by (rule exits_writer) (simp_all add: tui_step_def)
  ultimately show "exits d" by (rule exits_step)
qed

lemma exits_wait_done: "stages_ok d \<Longrightarrow> main_at d = MWaitDone \<Longrightarrow> \<not> listening d \<Longrightarrow> exits d"
proof -
  assume ok: "stages_ok d" and m: "main_at d = MWaitDone" and l: "\<not> listening d"
  have c: "exits d" if "stages_ok d" "main_at d = MWaitDone" "server d = SClosed" for d
  proof -
    have x: "daemon_exec MainDone d = Some (d\<lparr>main_at := MStopUI\<rparr>)" using that by (simp add: daemon_exec_def)
    show ?thesis by (rule exits_step [OF x], rule exits_stop_ui) (use stages_step [OF that(1) x] in simp_all)
  qed
  have p: "exits d" if "stages_ok d" "main_at d = MWaitDone" "server d = SPoolsStopped" for d
  proof -
    have x: "daemon_exec CloseNotify d = Some (d\<lparr>server := SClosed\<rparr>)" using that by (simp add: daemon_exec_def)
    show ?thesis by (rule exits_step [OF x], rule c) (use stages_step [OF that(1) x] that(2) in simp_all)
  qed
  have s: "exits d" if "stages_ok d" "main_at d = MWaitDone" "server d = SStoppingPools" for d
  proof -
    have x: "daemon_exec PoolsStop d = Some (d\<lparr>server := SPoolsStopped\<rparr>)" using that by (simp add: daemon_exec_def)
    show ?thesis by (rule exits_step [OF x], rule p) (use stages_step [OF that(1) x] that(2) in simp_all)
  qed
  show ?thesis
  proof (cases "server d")
    case SServing
    then have x: "daemon_exec ServeReturns d = Some (d\<lparr>server := SStoppingPools\<rparr>)" using m l by (simp add: daemon_exec_def)
    show ?thesis by (rule exits_step [OF x], rule s) (use stages_step [OF ok x] m in simp_all)
  qed (use c p s ok m in blast)+
qed

section \<open>Properties\<close>

text \<open>
  C14: A request to stop is never lost: once \<open>handleSignals\<close> has taken a quit key or a signal, every
  state the daemon gets into has a continuation in which \<open>main\<close> returns, if the pools can still
  stop; no goroutine of the shutdown waits for another that waits for it.
\<close>

theorem daemon_can_exit:
  assumes "run daemon_exec ops daemon_start = Some d" and "handler d \<noteq> HSelect"
  shows "\<exists>ops' e. run daemon_exec ops' d = Some e \<and> main_at e = MReturned"
proof -
  have ok: "stages_ok d" using assms(1) by (rule stages.run_inv)
  then have l: "\<not> listening d" using assms(2) by (cases "handler d") (auto simp: stages_ok_def)
  have "exits d"
  proof (cases "main_at d")
    case MWaitWriter
    then show ?thesis using ok by (intro exits_writer) (simp_all add: stages_ok_def)
  next
    case MReturned
    then show ?thesis unfolding exits_def by (intro exI [of _ "[]"]) simp
  qed (use ok l exits_wait_done exits_stop_ui in blast)+
  then show ?thesis by (simp add: exits_def)
qed

theorem daemon_can_exit_witness:
  "\<exists>d ops' e. run daemon_exec [Press (KeyRune CHR ''q''), TakeQuit] daemon_start = Some d
     \<and> run daemon_exec ops' d = Some e \<and> main_at e = MReturned"
proof -
  let ?d = "daemon_start\<lparr>listening := False, handler := HWaitDone\<rparr>"
  have r: "run daemon_exec [Press (KeyRune CHR ''q''), TakeQuit] daemon_start = Some ?d"
    by (simp add: daemon_exec_def daemon_start_def HandleEvent_def)
  from daemon_can_exit [OF r] r show ?thesis by auto
qed

text \<open>
  The daemon never ends on its own accord and never before its pools: \<open>main\<close> goes on to stop
  the interface only after somebody asked for it by a key or a signal and after \<open>pools.Stop\<close> has
  returned.
\<close>

theorem daemon_exits_after_pools:
  assumes "run daemon_exec ops daemon_start = Some d" and "main_at d \<noteq> MWaitDone"
  shows "PoolsStop \<in> set ops \<and> (TakeQuit \<in> set ops \<or> TakeSignal \<in> set ops)"
proof -
  have "(server d \<in> {SPoolsStopped, SClosed} \<longrightarrow> PoolsStop \<in> set ops)
      \<and> (\<not> listening d \<longrightarrow> TakeQuit \<in> set ops \<or> TakeSignal \<in> set ops)"
    using assms(1)
  proof (induction ops arbitrary: d rule: rev_induct)
    case Nil
    then show ?case by (auto simp: daemon_start_def)
  next
    case (snoc op ops)
    then obtain c where c: "run daemon_exec ops daemon_start = Some c" "daemon_exec op c = Some d"
      by (auto simp: run_append split: option.splits)
    show ?case using snoc.IH [OF c(1)] c(2)
      by (cases op) (auto simp: daemon_exec_def writer_draw_def Let_def split: if_splits input_action.splits)
  qed
  moreover have "server d = SClosed \<and> \<not> listening d"
    using stages.run_inv [OF assms(1)] assms(2) by (simp add: stages_ok_def)
  ultimately show ?thesis by simp
qed

definition quit_steps :: "daemon_op list" where
  "quit_steps = [ServeReturns, PoolsStop, CloseNotify, HandlerDone, MainDone, MainDrain, WriterDraw, WriterDraw, WriterDraw, MainReturns]"

theorem daemon_exits_after_pools_witness:
  "\<exists>d. run daemon_exec (TakeSignal # quit_steps) daemon_start = Some d \<and> main_at d = MReturned
     \<and> PoolsStop \<in> set (TakeSignal # quit_steps)"
proof -
  have "map_option main_at (run daemon_exec (TakeSignal # quit_steps) daemon_start) = Some MReturned"
    by (simp add: quit_steps_def daemon_exec_def daemon_start_def writer_draw_def tui_step_def tui_draw_def newTUIWriter_def Let_def)
  then obtain d where d: "run daemon_exec (TakeSignal # quit_steps) daemon_start = Some d" "main_at d = MReturned"
    unfolding map_option_eq_Some by metis
  then have "PoolsStop \<in> set (TakeSignal # quit_steps)" using daemon_exits_after_pools [OF d(1)] by simp
  with d show ?thesis by blast
qed

text \<open>
  C40: A quit key that is pressed after \<open>handleSignals\<close> has left its \<^theory_text>\<open>select\<close> freezes the
  terminal: the application's event loop stays blocked in the window's send for ever, so it never
  runs the drawings or the quit that are posted to it, and \<open>main\<close> returns without the terminal
  having been restored.
\<close>

theorem late_quit_freezes:
  assumes "app d = AppSending" "handler d \<noteq> HSelect" and "run daemon_exec ops d = Some e"
  shows "app e = AppSending \<and> daemon_step AppQuits e = None"
proof -
  have "frozen e" using frozen.reach_stuck run_reach [OF assms(3)] assms(1,2) by (auto simp: frozen_def)
  then show ?thesis by (simp add: frozen_def)
qed

theorem late_quit_freezes_witness:
  "\<exists>d e. run daemon_exec [Press (KeyRune CHR ''q''), TakeQuit, Press (KeyRune CHR ''q'')] daemon_start = Some d
     \<and> run daemon_exec quit_steps d = Some e \<and> main_at e = MReturned \<and> app e = AppSending"
proof -
  let ?d = "daemon_start\<lparr>listening := False, handler := HWaitDone, app := AppSending\<rparr>"
  have d: "run daemon_exec [Press (KeyRune CHR ''q''), TakeQuit, Press (KeyRune CHR ''q'')] daemon_start = Some ?d"
    by (simp add: daemon_exec_def daemon_start_def HandleEvent_def)
  have "map_option main_at (run daemon_exec quit_steps ?d) = Some MReturned"
    by (simp add: quit_steps_def daemon_exec_def daemon_start_def writer_draw_def tui_step_def tui_draw_def newTUIWriter_def Let_def)
  then obtain e where e: "run daemon_exec quit_steps ?d = Some e" "main_at e = MReturned"
    unfolding map_option_eq_Some by metis
  from late_quit_freezes [OF _ _ e(1)] have "app e = AppSending" by (simp add: daemon_start_def)
  with d e show ?thesis by blast
qed

end
