(* ===== verification/Sample_Client.thy ===== *)
theory Sample_Client
  imports Net_Client "HOL-Library.State_Monad" "HOL-Library.Word"
begin

text \<open>
  The sample program of the repository, \<^verbatim>\<open>_example/main.go\<close>: ten goroutines that check containers
  out of a running daemon, run a test on them and return them in deferred calls. A goroutine is a
  program of the state monad whose state is the history of its calls; the answers of the world are
  any function of that history.
\<close>

section \<open>Calls and their answers\<close>

datatype 't call =
    Sleep int
  | CheckedOutSet "'t params param_set" "go_error option"
  | CheckedOut string "'t params" "go_error option"
  | ReturnedSet "'t params param_set" "go_error option"
  | Returned string string "go_error option"
  | DialRedis string
  | OpenPostgres string
  | Close string
  | Exec string string
  | Count bool \<comment> \<open>the atomic increment of \<open>passed\<close> or of \<open>failed\<close>\<close>
  | Log string

record 't world =
  w_client :: client
  w_send :: "'t call list \<Rightarrow> request \<Rightarrow> go_error + reply"
  w_decode_set :: "string \<Rightarrow> 't params param_set \<times> go_error option"
  w_decode :: "string \<Rightarrow> 't params \<times> go_error option"
  w_marshal :: "'t params param_set \<Rightarrow> go_error + string"
  w_zero :: "'t params" \<comment> \<open>\<open>params.Params{}\<close>\<close>
  w_random :: "'t call list \<Rightarrow> int" \<comment> \<open>\<open>rand.Intn(5)\<close>\<close>
  w_dial :: "'t call list \<Rightarrow> string \<Rightarrow> go_error option"
  w_open :: "'t call list \<Rightarrow> string \<Rightarrow> go_error option"
  w_exec :: "'t call list \<Rightarrow> go_error option"
  w_rows :: "'t call list \<Rightarrow> go_error + int"

type_synonym ('t, 'a) sample = "('t call list, 'a) state"

definition record_call :: "'t call \<Rightarrow> ('t, unit) sample" where
  "record_call c = State (\<lambda>h. ((), h @ [c]))"

definition look :: "('t call list \<Rightarrow> 'a) \<Rightarrow> ('t, 'a) sample" where
  "look f = State (\<lambda>h. (f h, h))"

text \<open>The rest of a function's body, and then the call that it has deferred.\<close>

definition deferred :: "('t, 'b) sample \<Rightarrow> ('t, 'a) sample \<Rightarrow> ('t, 'a) sample" where
  "deferred d m = do { r \<leftarrow> m; d; State_Monad.return r }"

definition log_error :: "string \<Rightarrow> go_error option \<Rightarrow> ('t, unit) sample" where
  "log_error msg e = (case e of None \<Rightarrow> State_Monad.return () | Some err \<Rightarrow> record_call (Log msg))"

section \<open>The client's operations\<close>

definition sample_CheckoutBatch :: "'t world \<Rightarrow> ('t, 't params param_set \<times> go_error option) sample" where
  "sample_CheckoutBatch w = do {
     (ps, err) \<leftarrow> look (\<lambda>h. Client_CheckoutBatch (w_send w h) (w_decode_set w) (w_client w) []);
     record_call (CheckedOutSet ps err);
     State_Monad.return (ps, err) }"

definition sample_Checkout :: "'t world \<Rightarrow> string \<Rightarrow> ('t, 't params \<times> go_error option) sample" where
  "sample_Checkout w name = do {
     (p, err) \<leftarrow> look (\<lambda>h. Client_Checkout (w_send w h) (w_decode w) (w_zero w) (w_client w) name);
     record_call (CheckedOut name p err);
     State_Monad.return (p, err) }"

definition sample_ReturnBatch :: "'t world \<Rightarrow> 't params param_set \<Rightarrow> ('t, unit) sample" where
  "sample_ReturnBatch w ps = do {
     err \<leftarrow> look (\<lambda>h. Client_ReturnBatch (w_marshal w) (w_send w h) (w_client w) ps);
     record_call (ReturnedSet ps err);
     log_error ''return multi'' err }"

definition sample_Return :: "'t world \<Rightarrow> string \<Rightarrow> 't params \<Rightarrow> ('t, unit) sample" where
  "sample_Return w name p = do {
     err \<leftarrow> look (\<lambda>h. Client_Return (w_send w h) (w_client w) name (param_id p));
     record_call (Returned name (param_id p) err);
     log_error (''return '' @ name) err }"

section \<open>A worker\<close>

definition runTests :: "'t world \<Rightarrow> ('t, go_error option) sample" where
  "runTests w = do {
     err \<leftarrow> look (w_exec w);
     record_call (Exec ''INSERT INTO users (name) VALUES($1);'' ''foo'');
     case err of
       Some e \<Rightarrow> State_Monad.return (Some e)
     | None \<Rightarrow> do {
         count \<leftarrow> look (w_rows w);
         case count of
           Inl e \<Rightarrow> State_Monad.return (Some e)
         | Inr k \<Rightarrow>
             if k \<noteq> 1 then State_Monad.return (Some (ErrExtern (''invalid rows affected: 1 != '' @ itoa k)))
             else do {
               secs \<leftarrow> look (w_random w);
               record_call (Sleep (secs * 500));
               State_Monad.return None } } }"

text \<open>From the two addresses on: the connections, the tests, and the verdict, if it comes to one.\<close>

definition run_on :: "'t world \<Rightarrow> string \<Rightarrow> string \<Rightarrow> ('t, bool option) sample" where
  "run_on w redisUrl pgUrl = do {
     err \<leftarrow> look (\<lambda>h. w_dial w h redisUrl);
     record_call (DialRedis redisUrl);
     case err of
       Some e \<Rightarrow> do { log_error ''dialing redis'' err; State_Monad.return None }
     | None \<Rightarrow> deferred (record_call (Close ''redis'')) (do {
         err \<leftarrow> look (\<lambda>h. w_open w h pgUrl);
         record_call (OpenPostgres pgUrl);
         case err of
           Some e \<Rightarrow> do { log_error ''dialing postgres'' err; State_Monad.return None }
         | None \<Rightarrow> deferred (record_call (Close ''postgres'')) (do {
             err \<leftarrow> runTests w;
             record_call (Count (err = None));
             record_call (Log (if err = None then ''test passed'' else ''test failed''));
             State_Monad.return (Some (err = None)) }) }) }"

definition url_in :: "'t world \<Rightarrow> 't params param_set \<Rightarrow> string \<Rightarrow> string" where
  "url_in w ps name = url (case ps name of None \<Rightarrow> w_zero w | Some p \<Rightarrow> p)"

definition multi_checkout :: "'t world \<Rightarrow> ('t, bool option) sample" where
  "multi_checkout w = do {
     (items, err) \<leftarrow> sample_CheckoutBatch w;
     case err of
       Some e \<Rightarrow> do { log_error ''checkout multi'' err; State_Monad.return None }
     | None \<Rightarrow> deferred (sample_ReturnBatch w items)
         (run_on w (url_in w items ''redis'') (url_in w items ''postgres'')) }"

text \<open>The deferred return of the postgres container passes the parameters of the redis one.\<close>

definition single_checkout :: "'t world \<Rightarrow> ('t, bool option) sample" where
  "single_checkout w = do {
     (rparam, err) \<leftarrow> sample_Checkout w ''redis'';
     case err of
       Some e \<Rightarrow> do { log_error ''checkout redis'' err; State_Monad.return None }
     | None \<Rightarrow> deferred (sample_Return w ''redis'' rparam) (do {
         (pgparam, err) \<leftarrow> sample_Checkout w ''postgres'';
         case err of
           Some e \<Rightarrow> do { log_error ''checkout postgres'' err; State_Monad.return None }
         | None \<Rightarrow> deferred (sample_Return w ''postgres'' rparam)
             (run_on w (url rparam) (url pgparam)) }) }"

text \<open>The goroutine's function: \<open>i\<close> is what the loop variable holds when the sleep is over.\<close>

definition worker :: "'t world \<Rightarrow> int \<Rightarrow> ('t, bool option) sample" where
  "worker w i = do {
     secs \<leftarrow> look (w_random w);
     record_call (Sleep (secs * 1000));
     if i mod 2 = 0 then multi_checkout w else single_checkout w }"

section \<open>The main function\<close>

text \<open>
  \<open>loop_i\<close>: the loop variable, which all goroutines share, and \<open>in_body\<close>: the loop has started a
  goroutine and not incremented it yet; \<open>asleep\<close>: workers that have not read it;
  \<open>awake\<close>: those that have, with the value; \<open>passed\<close>, \<open>failed\<close>: the counters. The wait group counts
  the first two lists.
\<close>

record sample_state =
  loop_i :: int
  in_body :: bool
  asleep :: "nat list"
  awake :: "(nat \<times> int) list"
  passed :: "32 word"
  failed :: "32 word"

definition sample_start :: sample_state where
  "sample_start = \<lparr>loop_i = 0, in_body = False, asleep = [], awake = [], passed = 0, failed = 0\<rparr>"

datatype 't sample_op =
    SampleSpawn \<comment> \<open>the body of the loop\<close>
  | SampleNext \<comment> \<open>its increment\<close>
  | SampleWake nat
  | SampleFinish nat "'t world"

fun sample_step :: "'t sample_op \<Rightarrow> sample_state \<Rightarrow> sample_state option" where
  "sample_step SampleSpawn s =
     (if loop_i s < 10 \<and> \<not> in_body s then Some (s\<lparr>in_body := True, asleep := asleep s @ [nat (loop_i s)]\<rparr>) else None)"
| "sample_step SampleNext s = (if in_body s then Some (s\<lparr>in_body := False, loop_i := loop_i s + 1\<rparr>) else None)"
| "sample_step (SampleWake k) s =
     (if k \<in> set (asleep s) then Some (s\<lparr>asleep := remove1 k (asleep s), awake := awake s @ [(k, loop_i s)]\<rparr>) else None)"
| "sample_step (SampleFinish k w) s =
     (case map_of (awake s) k of
        None \<Rightarrow> None
      | Some i \<Rightarrow>
          let t = s\<lparr>awake := filter (\<lambda>(j, _). j \<noteq> k) (awake s)\<rparr> in
          Some (case fst (run_state (worker w i) []) of
                  None \<Rightarrow> t
                | Some True \<Rightarrow> t\<lparr>passed := passed t + 1\<rparr>
                | Some False \<Rightarrow> t\<lparr>failed := failed t + 1\<rparr>))"

text \<open>What \<open>main\<close> reports once the wait group is at zero.\<close>

definition sample_report :: "sample_state \<Rightarrow> (32 word \<times> 32 word \<times> 32 word) option" where
  "sample_report s = (if loop_i s = 10 \<and> \<not> in_body s \<and> asleep s = [] \<and> awake s = []
     then Some (passed s + failed s, passed s, failed s) else None)"

section \<open>What a worker takes and what it gives back\<close>

text \<open>A call that has given the caller the container \<open>i\<close> of pool \<open>n\<close>, and one that returns it.\<close>

fun takes_out :: "string \<Rightarrow> string \<Rightarrow> 't call \<Rightarrow> bool" where
  "takes_out n i (CheckedOutSet ps err) \<longleftrightarrow> err = None \<and> map_option param_id (ps n) = Some i"
| "takes_out n i (CheckedOut m p err) \<longleftrightarrow> err = None \<and> m = n \<and> param_id p = i"
| "takes_out n i _ \<longleftrightarrow> False"

fun gives_back :: "string \<Rightarrow> string \<Rightarrow> 't call \<Rightarrow> bool" where
  "gives_back n i (ReturnedSet ps err) \<longleftrightarrow> map_option param_id (ps n) = Some i"
| "gives_back n i (Returned m j err) \<longleftrightarrow> m = n \<and> j = i"
| "gives_back n i _ \<longleftrightarrow> False"

text \<open>The calls a program adds to the history, and those that matter for the containers.\<close>

definition relevant :: "'t call \<Rightarrow> bool" where
  "relevant c = (case c of CheckedOutSet ps e \<Rightarrow> True | CheckedOut n p e \<Rightarrow> True
     | ReturnedSet ps e \<Rightarrow> True | Returned n i e \<Rightarrow> True | _ \<Rightarrow> False)"

definition adds :: "('t, 'a) sample \<Rightarrow> 't call list \<Rightarrow> 't call list \<Rightarrow> bool" where
  "adds m h cs \<longleftrightarrow> filter relevant (snd (run_state m h)) = filter relevant h @ cs"

lemma run_record_call [simp]: "run_state (record_call c) h = ((), h @ [c])"
  by (simp add: record_call_def)

lemma run_look [simp]: "run_state (look f) h = (f h, h)"
  by (simp add: look_def)

lemma takes_out_relevant: "takes_out n i c \<Longrightarrow> relevant c"
  by (cases c) (auto simp: relevant_def)

lemma gives_back_relevant: "gives_back n i c \<Longrightarrow> relevant c"
  by (cases c) (auto simp: relevant_def)

lemma adds_deferred:
  assumes "adds m h cs" "\<And>h'. \<exists>e. adds d h' [f e]"
  shows "\<exists>e. adds (deferred d m) h (cs @ [f e])"
proof -
  obtain r h' where b: "run_state m h = (r, h')" by fastforce
  obtain e where "adds d h' [f e]" using assms(2) by blast
  with assms(1) b show ?thesis by (auto simp: adds_def deferred_def split: prod.split)
qed

lemma adds_log: "adds (log_error msg e) h []"
  by (simp add: adds_def log_error_def relevant_def split: option.split)

lemma run_on_adds: "adds (run_on w r p) h []"
  by (auto simp: adds_def run_on_def runTests_def deferred_def log_error_def relevant_def
      split: option.splits sum.splits prod.splits)

lemma return_batch_adds: "\<exists>e. adds (sample_ReturnBatch w ps) h [ReturnedSet ps e]"
  by (auto simp: adds_def sample_ReturnBatch_def log_error_def relevant_def split: option.splits)

lemma return_adds: "\<exists>e. adds (sample_Return w n p) h [Returned n (param_id p) e]"
  by (auto simp: adds_def sample_Return_def log_error_def relevant_def split: option.splits)

text \<open>The calls of the two ways to check out, by which of them succeed.\<close>

definition multi_calls :: "'t params param_set \<Rightarrow> go_error option \<Rightarrow> go_error option \<Rightarrow> 't call list" where
  "multi_calls ps e e' = CheckedOutSet ps e # (if e = None then [ReturnedSet ps e'] else [])"

definition single_calls ::
  "'t params \<Rightarrow> go_error option \<Rightarrow> 't params \<Rightarrow> go_error option \<Rightarrow> go_error option \<Rightarrow> go_error option \<Rightarrow> 't call list" where
  "single_calls r e p f e' f' = CheckedOut ''redis'' r e #
     (if e \<noteq> None then [] else
        CheckedOut ''postgres'' p f #
        (if f \<noteq> None then [] else [Returned ''postgres'' (param_id r) f']) @ [Returned ''redis'' (param_id r) e'])"

lemma multi_checkout_adds: "\<exists>ps e e'. adds (multi_checkout w) h (multi_calls ps e e')"
proof -
  obtain ps e where c: "Client_CheckoutBatch (w_send w h) (w_decode_set w) (w_client w) [] = (ps, e)" by fastforce
  define h1 where "h1 = h @ [CheckedOutSet ps e]"
  obtain e' where d: "adds (deferred (sample_ReturnBatch w ps) (run_on w (url_in w ps ''redis'') (url_in w ps ''postgres''))) h1
      ([] @ [ReturnedSet ps e'])"
    using adds_deferred [OF run_on_adds return_batch_adds] by blast
  have "adds (multi_checkout w) h (multi_calls ps e e')"
    using c d by (auto simp: adds_def multi_checkout_def sample_CheckoutBatch_def multi_calls_def h1_def
      relevant_def log_error_def split: option.splits)
  then show ?thesis by blast
qed

lemma single_checkout_adds: "\<exists>r e p f e' f'. adds (single_checkout w) h (single_calls r e p f e' f')"
proof -
  obtain r e where c: "Client_Checkout (w_send w h) (w_decode w) (w_zero w) (w_client w) ''redis'' = (r, e)" by fastforce
  define h1 where "h1 = h @ [CheckedOut ''redis'' r e]"
  obtain p f where c2: "Client_Checkout (w_send w h1) (w_decode w) (w_zero w) (w_client w) ''postgres'' = (p, f)" by fastforce
  define h2 where "h2 = h1 @ [CheckedOut ''postgres'' p f]"
  define rest where "rest = do {
    (pgparam, err) \<leftarrow> sample_Checkout w ''postgres'';
    case err of
      Some e \<Rightarrow> do { log_error ''checkout postgres'' err; State_Monad.return None }
    | None \<Rightarrow> deferred (sample_Return w ''postgres'' r) (run_on w (url r) (url pgparam)) }"
  obtain f' where d: "adds (deferred (sample_Return w ''postgres'' r) (run_on w (url r) (url p))) h2
      ([] @ [Returned ''postgres'' (param_id r) f'])"
    using adds_deferred [OF run_on_adds return_adds] by blast
  have "adds rest h1 (CheckedOut ''postgres'' p f # (if f \<noteq> None then [] else [Returned ''postgres'' (param_id r) f']))"
    using c2 d by (auto simp: adds_def rest_def sample_Checkout_def h2_def relevant_def log_error_def split: option.splits)
  from adds_deferred [OF this return_adds] obtain e' where
    "adds (deferred (sample_Return w ''redis'' r) rest) h1
       ((CheckedOut ''postgres'' p f # (if f \<noteq> None then [] else [Returned ''postgres'' (param_id r) f'])) @ [Returned ''redis'' (param_id r) e'])"
    by blast
  then have "adds (single_checkout w) h (single_calls r e p f e' f')"
    using c by (auto simp: adds_def single_checkout_def rest_def [symmetric] sample_Checkout_def [of w "''redis''"]
      single_calls_def h1_def relevant_def log_error_def split: option.splits)
  then show ?thesis by blast
qed

lemma worker_adds:
  "if k mod 2 = 0 then \<exists>ps e e'. adds (worker w k) h (multi_calls ps e e')
   else \<exists>r e p f e' f'. adds (worker w k) h (single_calls r e p f e' f')"
proof -
  define h1 where "h1 = h @ [Sleep (w_random w h * 1000)]"
  have "adds (worker w k) h cs \<longleftrightarrow> adds (if k mod 2 = 0 then multi_checkout w else single_checkout w) h1 cs" for cs
    by (simp add: adds_def worker_def h1_def relevant_def)
  then show ?thesis using multi_checkout_adds [of w h1] single_checkout_adds [of w h1] by simp
qed

text \<open>
  A worker of the sample program returns every container of a batch, whatever its tests and
  connections do. One that checks out pool by pool returns the redis container, but sends the
  identifier of that one to the postgres pool too: the postgres container it holds is not returned
  at all, unless the two containers have the same identifier.
\<close>

theorem worker_returns:
  assumes "h = snd (run_state (worker w k) [])" and "\<exists>c \<in> set h. takes_out n i c"
  shows "(\<exists>c \<in> set h. gives_back n i c) \<longleftrightarrow>
     k mod 2 = 0 \<or> n = ''redis'' \<or> (\<exists>c \<in> set h. takes_out ''redis'' i c)"
proof -
  have f: "set (filter relevant h) = {c \<in> set h. relevant c}" by simp
  have t: "(\<exists>c \<in> set h. takes_out m j c) \<longleftrightarrow> (\<exists>c \<in> set (filter relevant h). takes_out m j c)" for m j
    by (auto dest: takes_out_relevant)
  have g: "(\<exists>c \<in> set h. gives_back m j c) \<longleftrightarrow> (\<exists>c \<in> set (filter relevant h). gives_back m j c)" for m j
    by (auto dest: gives_back_relevant)
  show ?thesis
  proof (cases "k mod 2 = 0")
    case True
    then obtain ps e e' where "filter relevant h = multi_calls ps e e'"
      using worker_adds [of k w "[]"] assms(1) by (auto simp: adds_def)
    with True assms(2) show ?thesis unfolding t g by (auto simp: multi_calls_def split: if_splits)
  next
    case False
    then obtain r e p f e' f' where "filter relevant h = single_calls r e p f e' f'"
      using worker_adds [of k w "[]"] assms(1) by (auto simp: adds_def)
    with False assms(2) show ?thesis unfolding t g by (auto simp: single_calls_def split: if_splits)
  qed
qed

text \<open>A world in which the daemon and the databases answer, and everything works.\<close>

definition fine_params :: "string \<Rightarrow> tnode list params" where
  "fine_params b = \<lparr>username = [], password = [], database = [], url = b, url_template = None,
     param_id = b @ ''-1'', hostname = [], port = []\<rparr>"

definition fine_world :: "tnode list world" where
  "fine_world = \<lparr>w_client = NewClientBuilder,
     w_send = \<lambda>h. exchange NewClientBuilder (\<lambda>rt b. \<lparr>reply_status = StatusOK, reply_body = (case rt of CheckoutPool n \<Rightarrow> n | _ \<Rightarrow> [])\<rparr>),
     w_decode_set = \<lambda>b. ((\<lambda>n. if n \<in> {''redis'', ''postgres''} then Some (fine_params n) else None), None),
     w_decode = \<lambda>b. (fine_params b, None), w_marshal = \<lambda>ps. Inr ''{}'', w_zero = fine_params [],
     w_random = \<lambda>h. 3, w_dial = \<lambda>h u. None, w_open = \<lambda>h u. None, w_exec = \<lambda>h. None, w_rows = \<lambda>h. Inr 1\<rparr>"

theorem worker_returns_witness:
  "\<not> (\<exists>c \<in> set (snd (run_state (worker fine_world 1) [])). gives_back ''postgres'' ''postgres-1'' c)
   \<and> fst (run_state (worker fine_world 1) []) = Some True"
proof -
  define h where "h = snd (run_state (worker fine_world 1) [])"
  have "\<exists>c \<in> set h. takes_out ''postgres'' ''postgres-1'' c" unfolding h_def by code_simp
  note w = worker_returns [OF h_def this]
  have "\<not> (\<exists>c \<in> set h. takes_out ''redis'' ''postgres-1'' c)" unfolding h_def by code_simp
  moreover have "fst (run_state (worker fine_world 1) []) = Some True" by code_simp
  ultimately show ?thesis unfolding h_def using w unfolding h_def by simp
qed

section \<open>The report\<close>

definition sample_ok :: "sample_state \<Rightarrow> bool" where
  "sample_ok s \<longleftrightarrow> 0 \<le> loop_i s \<and> loop_i s \<le> 10 \<and> (in_body s \<longrightarrow> loop_i s < 10)
     \<and> length (asleep s) + length (awake s) + unat (passed s) + unat (failed s) \<le> nat (loop_i s) + (if in_body s then 1 else 0)"

lemma unat_inc: "unat (w :: 32 word) < 10 \<Longrightarrow> unat (w + 1) = Suc (unat w)"
  by (simp add: unat_word_ariths take_bit_eq_mod)

lemma fewer_awake: "map_of xs k = Some i \<Longrightarrow> length (filter (\<lambda>(j, _). j \<noteq> k) xs) < length xs"
  by (induction xs) (auto split: if_splits simp: less_Suc_eq_le)

lemma sample_ok_step: "sample_ok s \<Longrightarrow> sample_step op s = Some t \<Longrightarrow> sample_ok t"
proof (cases op)
  case (SampleFinish k w)
  assume ok: "sample_ok s" and st: "sample_step op s = Some t"
  then obtain i where i: "map_of (awake s) k = Some i" using SampleFinish by (auto split: option.splits)
  note len = fewer_awake [OF i]
  with ok have "unat (passed s) < 10" "unat (failed s) < 10" by (auto simp: sample_ok_def split: if_splits)
  with ok st i len show ?thesis
    by (auto simp: SampleFinish sample_ok_def Let_def unat_inc split: option.splits bool.splits)
next
  case (SampleWake k)
  assume ok: "sample_ok s" and st: "sample_step op s = Some t"
  then have "Suc (length (remove1 k (asleep s))) = length (asleep s)"
    using SampleWake by (auto simp: length_remove1 Suc_pred length_pos_if_in_set simp del: length_greater_0_conv split: if_splits)
  with ok st show ?thesis by (auto simp: SampleWake sample_ok_def split: if_splits)
qed (auto simp: sample_ok_def split: if_splits)

interpretation sample: invariant sample_step sample_start sample_ok
  by unfold_locales (simp add: sample_ok_def sample_start_def, rule sample_ok_step)

text \<open>
  The three numbers the sample program reports agree: the counters of 32 bits never wrap, and the
  total is their sum, at most ten.
\<close>

theorem report_adds_up:
  assumes "run sample_step ops sample_start = Some s" and "sample_report s = Some (n, p, f)"
  shows "unat n = unat p + unat f \<and> unat n \<le> 10"
proof -
  have ok: "sample_ok s" using assms(1) by (rule sample.run_inv)
  have r: "loop_i s = 10" "\<not> in_body s" "n = passed s + failed s" "p = passed s" "f = failed s"
    using assms(2) by (auto simp: sample_report_def split: if_splits)
  then have "unat (passed s) + unat (failed s) \<le> 10" using ok by (simp add: sample_ok_def)
  with r show ?thesis by (simp add: unat_word_ariths take_bit_eq_mod)
qed

theorem report_adds_up_witness:
  "\<exists>s n p f. run sample_step (concat (replicate 10 [SampleSpawn, SampleNext]) @ map SampleWake [0..<10] @ map (\<lambda>k. SampleFinish k fine_world) [0..<10])
       sample_start = Some s
     \<and> sample_report s = Some (n, p, f) \<and> unat n = unat p + unat f \<and> p = 10"
proof -
  define ops where "ops = concat (replicate 10 [SampleSpawn, SampleNext]) @ map SampleWake [0..<10] @ map (\<lambda>k. SampleFinish k fine_world) [0..<10]"
  have "map_option sample_report (run sample_step ops sample_start) = Some (Some (10, 10, 0))"
    unfolding ops_def by code_simp
  then obtain s where s: "run sample_step ops sample_start = Some s" "sample_report s = Some (10, 10, 0)" by auto
  with report_adds_up [OF s] show ?thesis unfolding ops_def by blast
qed

text \<open>
  The goroutines share the variable of the loop: one that wakes after the loop has ended reads its
  final value, so it checks out a batch, whichever goroutine it is.
\<close>

lemma late_worker_takes_batch:
  assumes "loop_i s = 10" and "sample_step (SampleWake j) s = Some t"
  shows "awake t = awake s @ [(j, 10)] \<and> loop_i t = 10
    \<and> run_state (worker w 10) h = run_state (multi_checkout w) (h @ [Sleep (w_random w h * 1000)])"
  using assms by (auto simp: worker_def split: if_splits)

end
