(* ===== verification/Test_Support.thy ===== *)
theory Test_Support
  imports Docker_Adapter
begin

text \<open>
  The helpers of the tests, \<^verbatim>\<open>testutil/testutil.go\<close>: reading a fixture, and running a test on a pool
  that is made from it. \<open>require\<close> ends the goroutine of the test, which runs its deferred calls;
  \<open>assert\<close> only marks the test as failed.
\<close>

section \<open>Paths\<close>

text \<open>\<^verbatim>\<open>path.Join\<close> of a directory and a path: the elements without dots, as \<^verbatim>\<open>path.Clean\<close> leaves them.\<close>

fun clean_elements :: "string list \<Rightarrow> string list \<Rightarrow> string list" where
  "clean_elements [] acc = rev acc"
| "clean_elements (e # es) acc =
     (if e = [] \<or> e = ''.'' then clean_elements es acc
      else if e \<noteq> ''..'' then clean_elements es (e # acc)
      else case acc of
        [] \<Rightarrow> clean_elements es [e]
      | e1 # below \<Rightarrow> clean_elements es (if e1 = ''..'' then e # acc else below))"

fun join_elements :: "string list \<Rightarrow> string" where
  "join_elements [] = ''.''"
| "join_elements [e] = e"
| "join_elements (e # es) = e @ CHR ''/'' # join_elements es"

definition fixture_path :: "string \<Rightarrow> string" where
  "fixture_path p = join_elements (clean_elements (split_on CHR ''/'' (''_testdata/'' @ p)) [])"

section \<open>Helpers\<close>

definition CID :: string where
  "CID = replicate 36 CHR ''A''"

text \<open>How the goroutine of a test goes on: with a value, or it has been ended by a requirement.\<close>

datatype 'a test = Value 'a | Ended

definition require_ok :: "go_error + 'a \<Rightarrow> 'a test" where
  "require_ok r = (case r of Inl err \<Rightarrow> Ended | Inr x \<Rightarrow> Value x)"

text \<open>The files, the decoders, the pool's constructor and the pool a test runs against.\<close>

record 't test_env =
  te_file :: "string \<Rightarrow> go_error + string"
  te_yaml_to_json :: "string \<Rightarrow> go_error + string"
  te_json :: "string \<Rightarrow> json"
  te_engine :: "'t engine"
  te_durations :: durations
  te_new_pool :: "'t config \<Rightarrow> go_error option"
  te_wait_ready :: "go_error option"
  te_checkout :: "go_error + 't params"

definition ReadJSON :: "'t test_env \<Rightarrow> string \<Rightarrow> string test" where
  "ReadJSON env fpath =
     (case require_ok (te_file env (fixture_path fpath)) of
        Ended \<Rightarrow> Ended
      | Value buf \<Rightarrow>
          if path_ext fpath = ''.yaml'' then require_ok (te_yaml_to_json env buf) else Value buf)"

datatype pool_call = TestNewPool | TestWaitReady | TestCheckout | TestBody | TestReturn string | TestStop

text \<open>
  \<open>fn\<close>: what the test does with the pool, its calls and whether it ended the goroutine. The result
  is the calls made on the pool and whether the goroutine has been ended.
\<close>

definition WithPoolFromFile ::
  "'t test_env \<Rightarrow> string \<Rightarrow> string \<Rightarrow> (pool_call list \<times> bool) option \<Rightarrow> pool_call list \<times> bool" where
  "WithPoolFromFile env name basename fn =
     (case ReadJSON env basename of
        Ended \<Rightarrow> ([], True)
      | Value buf \<Rightarrow>
          (case require_ok (Parse (te_engine env) (te_durations env) name (te_json env buf)) of
             Ended \<Rightarrow> ([], True)
           | Value c \<Rightarrow>
               if te_new_pool env c \<noteq> None then ([TestNewPool], True)
               else if te_wait_ready env \<noteq> None then ([TestNewPool, TestWaitReady, TestStop], True)
               else case fn of
                 None \<Rightarrow> ([TestNewPool, TestWaitReady, TestStop], False)
               | Some (calls, ended) \<Rightarrow> ([TestNewPool, TestWaitReady] @ calls @ [TestStop], ended)))"

text \<open>\<open>fn\<close> ends the goroutine for some parameters. Only then, or without an item, is nothing returned.\<close>

definition checkout_body :: "'t test_env \<Rightarrow> ('t params \<Rightarrow> bool) option \<Rightarrow> pool_call list \<times> bool" where
  "checkout_body env fn =
     (case require_ok (te_checkout env) of
        Ended \<Rightarrow> ([TestCheckout], True)
      | Value item \<Rightarrow>
          (case fn of
             None \<Rightarrow> ([TestCheckout, TestReturn (param_id item)], False)
           | Some f \<Rightarrow>
               if f item then ([TestCheckout, TestBody], True)
               else ([TestCheckout, TestBody, TestReturn (param_id item)], False)))"

definition RunPoolFromFile :: "'t test_env \<Rightarrow> string \<Rightarrow> string \<Rightarrow> ('t params \<Rightarrow> bool) option \<Rightarrow> pool_call list \<times> bool" where
  "RunPoolFromFile env name path fn = WithPoolFromFile env name path (Some (checkout_body env fn))"

section \<open>Facts\<close>

text \<open>The identifier that the tests use is long enough for the log.\<close>

lemma CID_logged: "lcid CID = Done (replicate 12 CHR ''A'')"
  by (simp add: lcid_def CID_def)

text \<open>The path of a plain fixture, and of one that leaves the directory.\<close>

lemma fixture_paths:
  "fixture_path ''pool.json'' = ''_testdata/pool.json''" "fixture_path ''a//b/./c'' = ''_testdata/a/b/c''"
  "fixture_path ''../x'' = ''x''" "fixture_path [] = ''_testdata''"
  by code_simp+

text \<open>
  A test stops the pool it has created, as its last call on it and only once, even if the pool does
  not become ready or the test is ended in the middle.
\<close>

lemma checkout_body_calls: "set (fst (checkout_body env fn)) \<inter> {TestStop, TestNewPool} = {}"
  by (auto simp: checkout_body_def require_ok_def split: sum.split option.split)

lemma test_pool_stopped:
  assumes "RunPoolFromFile env name path fn = (calls, ended)" "calls \<noteq> []" "calls \<noteq> [TestNewPool]"
  shows "last calls = TestStop \<and> count_list calls TestStop = 1 \<and> hd calls = TestNewPool"
proof -
  have "count_list (fst (checkout_body env fn)) TestStop = 0"
    using checkout_body_calls [of env fn] by (auto simp: count_list_0_iff)
  with assms show ?thesis
    by (auto simp: RunPoolFromFile_def WithPoolFromFile_def split: test.splits if_splits prod.splits)
qed

text \<open>With a fixture that is accepted, the checked out item is returned unless the test body ends the goroutine.\<close>

lemma test_item_returned:
  assumes "te_checkout env = Inr item"
  shows "TestReturn (param_id item) \<in> set (fst (checkout_body env fn)) \<longleftrightarrow> \<not> snd (checkout_body env fn)"
  using assms by (auto simp: checkout_body_def require_ok_def split: option.split)

end
