(* ===== verification/Pool_Reset.thy ===== *)
theory Pool_Reset
  imports Pool_Properties
begin

text \<open>
  From one client to the next: what has to happen in a pool between the return of a container and
  the next checkout that hands it out. The argument follows, for one container, what can still
  become a checkout without a reset: its first start, health check and initialisation, a ready
  event under way, a place in the ready buffer.
\<close>

section \<open>What is still fresh\<close>

definition fresh_tokens :: "pitem \<Rightarrow> nat" where
  "fresh_tokens i =
     start_budget (container i) + count_list (children i) OnChildStarted + count_list (children i) OnChildLive
     + count_list (child_sends i) EvLive + ready_pipe i"

definition fresh :: "sys \<Rightarrow> cid \<Rightarrow> nat" where
  "fresh s i = count_list (buf (buffer s)) i + count_list (todo s) (CallPut i)
     + (case its s i of None \<Rightarrow> 0 | Some it \<Rightarrow> fresh_tokens it)"

text \<open>A step at which the reset action of an item ends well.\<close>

fun reset_succeeds :: "lifecycle_flags \<Rightarrow> item_op \<Rightarrow> bool" where
  "reset_succeeds lc (IChild c par act) \<longleftrightarrow> c = OnChildReset \<and> child_result lc c par act = Some EvReady"
| "reset_succeeds lc _ \<longleftrightarrow> False"

section \<open>The item\<close>

lemma fresh_le_tokens: "fresh_tokens i \<le> item_tokens i"
proof -
  have "count_list cs OnChildStarted + count_list cs OnChildLive \<le> length cs" for cs :: "child list"
    by (induction cs) auto
  from this [of "children i"] show ?thesis
    by (auto simp: fresh_tokens_def item_tokens_def ready_pipe_def event_tokens_def)
qed

lemma fresh_bodies [simp]:
  "fresh_tokens (stop_container i) = fresh_tokens i" "fresh_tokens (emit u i) = fresh_tokens i"
  "fresh_tokens (i\<lparr>posts := ps\<rparr>) = fresh_tokens i"
  "fresh_tokens (run_child c i) = fresh_tokens i + (if c = OnChildReset then 0 else 1)"
  by (cases c; simp add: fresh_tokens_def ready_pipe_def stop_container_def emit_def run_child_def start_budget_steps)+

lemma take_event_fresh:
  assumes "item_ok i" "take_event b e i = Some j"
  shows "fresh_tokens i = fresh_tokens j + (if e = EvLive \<or> e = EvReady then 1 else 0)"
proof -
  have "children j = children i" "container j = container i"
    using assms(2) by (auto simp: take_event_def split: if_splits)
  with take_event_pipes [OF assms] show ?thesis by (auto simp: fresh_tokens_def live_pipe_def)
qed

lemma item_recv_fresh:
  assumes "item_ok i" "item_recv b e i = Done i'"
  shows "fresh_tokens i' \<le> fresh_tokens i"
proof -
  from assms obtain j where j: "take_event b e i = Some j"
    by (auto simp: item_recv_def split: option.splits)
  have ok: "item_ok j" "ipc j = ipc i" using take_event_ok [OF assms(1) j] by simp_all
  have w: "fresh_tokens (wait_join_event e j) = fresh_tokens j"
    by (cases e) (simp_all add: wait_join_event_def)
  have "container_ok (container j)" using ok(1) by (simp add: item_ok_def)
  then have st: "start_budget (container_start (container j)) \<le> start_budget (container j)"
    by (rule start_budget_steps)
  have m: "fresh_tokens (main_loop_event e j) \<le> fresh_tokens j + (if e = EvLive \<or> e = EvReady then 1 else 0)"
    if "ipc j = MainLoop"
    using that st
    by (cases e) (simp_all add: main_loop_event_def, simp_all add: fresh_tokens_def ready_pipe_def emit_def)
  show ?thesis
    using assms(2) j ok(2) w m take_event_fresh [OF assms(1) j] by (cases "ipc i") (auto simp: item_recv_def)
qed

lemma child_results:
  "child_result lc OnChildStarted par act \<noteq> Some EvReady" "child_result lc OnChildLive par act \<noteq> Some EvLive"
  "child_result lc OnChildReset par act \<noteq> Some EvLive"
  by (auto simp: onChildStarted_def onChildLive_def onChildReset_def split: option.split)

lemma item_child_fresh:
  assumes "item_child lc c par act i = Done i'"
  shows "fresh_tokens i' \<le> fresh_tokens i + (if reset_succeeds lc (IChild c par act) then 1 else 0)"
proof -
  from assms have c: "c \<in> set (children i)" by (simp add: item_child_def split: if_splits)
  then have "0 < count_list (children i) c" by (rule count_list_pos)
  with assms c child_results show ?thesis
    by (cases c; cases "child_result lc c par act")
      (auto simp: item_child_def fresh_tokens_def ready_pipe_def start_budget_steps)
qed

lemma item_container_fresh:
  assumes "item_ok i" "item_container e i = Done i'"
  shows "fresh_tokens i' \<le> fresh_tokens i"
proof -
  obtain c where c: "recv_container_event e (container i) = Done c" "ipc i = MainLoop"
    "i' = main_loop_container e (i\<lparr>container := c\<rparr>)"
    using assms(2) by (auto simp: item_container_def go_simps split: if_splits)
  have "container_ok (container i)" using assms(1) by (simp add: item_ok_def)
  from start_budget_recv [OF this c(1)] c(2,3) show ?thesis
    by (cases e) (simp_all add: fresh_tokens_def ready_pipe_def main_loop_container_def run_child_def emit_def)
qed

lemma item_exec_fresh:
  assumes "item_ok i" "item_exec lc op i = Done (x, i')"
  shows "fresh_tokens i' + (if x = Some ItemReady then 1 else 0) \<le> fresh_tokens i + (if reset_succeeds lc op then 1 else 0)"
proof (cases op)
  case IDeliver
  with assms show ?thesis
    by (auto simp: go_simps item_deliver_def fresh_tokens_def ready_pipe_def split: item_pc.splits)
next
  case (IChild c par act)
  with assms item_child_fresh show ?thesis by (auto simp: go_simps simp del: reset_succeeds.simps)
qed (use assms in \<open>auto simp: go_simps item_join_def item_start_def item_reset_def item_kill_def item_drop_post_def
    item_drained_def start_budget_steps fresh_tokens_def [of "_ \<lparr>container := _\<rparr>"]
    fresh_tokens_def [of "_ \<lparr>ipc := _\<rparr>"] fresh_tokens_def [of i] ready_pipe_def
    dest: item_recv_fresh item_container_fresh start_budget_steps(3-5)
    split: if_splits\<close>)

section \<open>The system\<close>

definition reset_step :: "lifecycle_flags \<Rightarrow> cid \<Rightarrow> sys_op \<Rightarrow> bool" where
  "reset_step lc i op \<longleftrightarrow> (case op of SysItem j iop \<Rightarrow> j = i \<and> reset_succeeds lc iop | _ \<Rightarrow> False)"

text \<open>\<open>keeps\<close>: the container still exists, and nothing fresh has come up but by the amount \<open>k\<close>.\<close>

definition keeps :: "cid \<Rightarrow> nat \<Rightarrow> sys \<Rightarrow> sys \<Rightarrow> bool" where
  "keeps i k s t \<longleftrightarrow> its t i \<noteq> None \<and> fresh t i \<le> fresh s i + k"

lemma pool_event_puts:
  assumes "pool_event e i p = Done (p', cs)"
  shows "count_list cs (CallPut j) \<le> (if j = i \<and> e = ItemReady then 1 else 0)"
proof (cases "ppc p = PRunning")
  case True
  with assms have "running_event e i p = Done (p', cs)" by (simp add: pool_event_def)
  then show ?thesis
    by (cases e) (auto simp: running_event_def Let_def emit_num_items_def split: go.splits if_splits)
next
  case False
  with pool_event_shape [OF assms] have "list_all drain_call cs" by (auto simp: event_shape_def)
  then have "count_list cs (CallPut j) = 0" using count_drain_calls [of cs j] by simp
  then show ?thesis by simp
qed

lemma fresh_calls:
  "item_join it = Done it' \<Longrightarrow> fresh_tokens it' = fresh_tokens it"
  "fresh_tokens (item_start it) = fresh_tokens it" "fresh_tokens (item_kill it) = fresh_tokens it"
  "fresh_tokens (item_reset it) = fresh_tokens it"
  by (auto simp: item_join_def item_start_def item_kill_def item_reset_def fresh_tokens_def ready_pipe_def split: if_splits)

lemma call_keeps:
  assumes "exec_call c s = Done s'" "todo s = c # cs" "its s i \<noteq> None"
  shows "keeps i 0 s (s'\<lparr>todo := cs\<rparr>)"
proof (cases c)
  case (CallJoin j)
  with assms obtain it it' where "its s j = Some it" "item_join it = Done it'" "s' = s\<lparr>its := (its s)(j \<mapsto> it')\<rparr>"
    by (auto elim: on_item_tickets)
  with assms CallJoin fresh_calls(1) show ?thesis by (simp add: keeps_def fresh_def)
next
  case (CallPut j)
  with assms obtain b where "buffer_put j (buffer s) = Done b" "s' = s\<lparr>buffer := b\<rparr>"
    by (auto simp: go_simps)
  with assms CallPut rbuf.put_Done show ?thesis by (fastforce simp: keeps_def fresh_def)
next
  case CallBufferStop
  with assms show ?thesis by (auto simp: go_simps buffer_stop_def keeps_def fresh_def split: if_splits)
qed (use assms in \<open>auto simp: go_simps keeps_def fresh_def fresh_calls elim!: on_item_tickets\<close>)

lemma handled_keeps:
  assumes "todo s = []" "todo s1 = []" "pool_event e i (pl s) = Done (p', cs)" "its s1 j \<noteq> None"
    and "fresh s1 j + (if j = i \<and> e = ItemReady then 1 else 0) \<le> fresh s j"
  shows "keeps j 0 s (handled s1 (p', cs))"
proof -
  have "fresh (handled s1 (p', cs)) j = fresh s1 j + count_list cs (CallPut j)"
    using assms(2) by (simp add: handled_def fresh_def)
  with pool_event_puts [OF assms(3), of j] assms(4,5) show ?thesis by (simp add: keeps_def handled_def)
qed

lemma event_keeps:
  assumes "sys_inv s" "op = SysItemEvent i \<or> op = SysReturned i" "sys_step lc op s = Some t" "\<not> crashed t" "its s j \<noteq> None"
  shows "keeps j 0 s t"
  using assms(2)
proof
  assume "op = SysItemEvent i"
  then obtain it e it' p' cs where todo: "todo s = []" and it: "its s i = Some it" and d: "item_deliver it = Done (e, it')"
    and e: "pool_event e i (pl s) = Done (p', cs)" and t: "t = handled (s\<lparr>its := (its s)(i \<mapsto> it')\<rparr>) (p', cs)"
    using assms(3,4) by (auto simp: sys_item_event_def outcome_def selecting_def split: option.splits go.splits if_splits)
  have "item_ok it" using assms(1) it by (auto simp: sys_inv_def parts_ok_def)
  moreover have "item_exec lc IDeliver it = Done (Some e, it')" using d by simp
  ultimately have "fresh_tokens it' + (if Some e = Some ItemReady then 1 else 0) \<le> fresh_tokens it + (if reset_succeeds lc IDeliver then 1 else 0)"
    by (rule item_exec_fresh)
  with it have "fresh (s\<lparr>its := (its s)(i \<mapsto> it')\<rparr>) j + (if j = i \<and> e = ItemReady then 1 else 0) \<le> fresh s j"
    by (auto simp: fresh_def)
  from handled_keeps [OF todo _ e _ this] todo assms(5) show ?thesis by (simp add: t)
next
  assume "op = SysReturned i"
  then obtain p' cs where todo: "todo s = []" and e: "pool_event ItemReturned i (pl s) = Done (p', cs)"
    and t: "t = handled (s\<lparr>returning := remove1 i (returning s)\<rparr>) (p', cs)"
    using assms(3,4) by (auto simp: outcome_def selecting_def split: go.splits if_splits)
  from handled_keeps [OF todo _ e, of "s\<lparr>returning := remove1 i (returning s)\<rparr>" j] todo assms(5) show ?thesis
    by (simp add: t fresh_def)
qed

lemma no_puts:
  "count_list (snd (drain_spawner_next r p)) (CallPut j) = 0"
  "count_list (snd (running_shutdown p)) (CallPut j) = 0"
  "count_list (snd (runInitialize e p)) (CallPut j) = 0"
proof -
  have "list_all drain_call (snd (drain_spawner_next r p))"
    by (auto simp: drain_spawner_next_def drain_items_top_def split: option.split)
  from count_drain_calls [OF this] show "count_list (snd (drain_spawner_next r p)) (CallPut j) = 0" by simp
  show "count_list (snd (running_shutdown p)) (CallPut j) = 0"
    using count_drain_calls [OF drain_killItems [of p], of j] by (simp add: running_shutdown_def)
  show "count_list (snd (runInitialize e p)) (CallPut j) = 0"
    by (auto simp: runInitialize_def split: option.split)
qed

lemma fresh_handled: "todo s = [] \<Longrightarrow> count_list (snd r) (CallPut j) = 0 \<Longrightarrow> fresh (handled s r) j = fresh s j"
  by (simp add: fresh_def handled_def)

lemma next_keeps:
  assumes "sys_step lc SysNext s = Some t" "\<not> crashed t" "its s j \<noteq> None"
  shows "keeps j 0 s t"
proof -
  have todo: "todo s = []" using assms(1) by (auto simp: selecting_def split: if_splits)
  have "\<exists>sp r. t = handled (s\<lparr>spawner := sp\<rparr>) r \<and> count_list (snd r) (CallPut j) = 0"
  proof (cases "ppc (pl s) = PRunning")
    case True
    with assms show ?thesis
      by (force simp: sys_next_def outcome_def running_next_def Let_def emit_num_items_def
          split: go.splits option.splits if_splits)
  next
    case False
    with assms obtain r sp where "t = handled (s\<lparr>spawner := sp\<rparr>) (drain_spawner_next r (pl s))"
      by (auto simp: sys_next_def outcome_def split: go.splits pool_pc.splits if_splits)
    with no_puts(1) show ?thesis by blast
  qed
  then obtain sp r where "t = handled (s\<lparr>spawner := sp\<rparr>) r" "count_list (snd r) (CallPut j) = 0" by blast
  with fresh_handled [of "s\<lparr>spawner := sp\<rparr>" r j] todo assms(3) show ?thesis
    by (simp add: keeps_def handled_def fresh_def)
qed

lemma item_keeps:
  assumes "sys_inv s" "sys_step lc (SysItem i iop) s = Some t" "its s j \<noteq> None"
  shows "keeps j (if reset_step lc j (SysItem i iop) then 1 else 0) s t"
proof -
  obtain it x it' where it: "its s i = Some it" and ex: "item_exec lc iop it = Done (x, it')"
    and t: "t = s\<lparr>its := (its s)(i \<mapsto> it')\<rparr>"
    using assms(2) item_own_no_panic [of iop lc]
    by (auto simp: outcome_def split: option.splits if_splits go.splits)
  have "item_ok it" using assms(1) it by (auto simp: sys_inv_def parts_ok_def)
  from item_exec_fresh [OF this ex] it assms(3) show ?thesis
    by (auto simp: t keeps_def fresh_def reset_step_def)
qed

lemma checkout_keeps:
  assumes "sys_step lc (SysCheckout e) s = Some t" "its s j \<noteq> None"
  shows "keeps j 0 s t"
proof -
  have nf: "buffer_get (buffer s) \<noteq> Panic" by (simp add: buffer_get_def split: list.splits)
  consider "t = s" | i b where "buffer_get (buffer s) = Done (Some i, b)"
      "t = s\<lparr>buffer := b, held := held s @ [i]\<rparr> \<or> t = s\<lparr>buffer := b, returning := returning s @ [i]\<rparr>"
    using assms(1) nf by (auto simp: outcome_def split: go.splits option.splits)
  then show ?thesis
  proof cases
    case 1
    with assms(2) show ?thesis by (simp add: keeps_def)
  next
    case 2
    from rbuf.take_Done [OF 2(1)] 2(2) assms(2) show ?thesis by (auto simp: keeps_def fresh_def)
  qed
qed

lemma fresh_step:
  assumes inv: "sys_inv s" and w: "wf_exec lc op s = Some t" and j: "its s j \<noteq> None"
  shows "keeps j (if reset_step lc j op then 1 else 0) s t"
proof -
  from w have t: "sys_step lc op s = Some t" by (auto simp: wf_exec_def sys_exec_def split: if_splits)
  have nc: "\<not> crashed t" using sys_step_inv [OF inv w] by (simp add: sys_inv_def parts_ok_def)
  show ?thesis
  proof (cases op)
    case SysCall
    then obtain c cs s' where "todo s = c # cs" "exec_call c s = Done s'" "t = s'\<lparr>todo := cs\<rparr>"
      using t nc by (auto simp: outcome_def split: list.splits go.splits)
    with call_keeps j SysCall show ?thesis by (simp add: reset_step_def)
  next
    case (SysInit e)
    with t j no_puts(3) show ?thesis
      by (auto simp: keeps_def reset_step_def selecting_def fresh_def handled_def split: if_splits)
  next
    case SysSelfStop
    with t self_stop_blocked [OF inv] show ?thesis by simp
  next
    case SysShutdown
    with t j no_puts(2) show ?thesis
      by (auto simp: keeps_def reset_step_def selecting_def fresh_def handled_def split: if_splits)
  next
    case SysNext
    with next_keeps [of lc s t j] t nc j show ?thesis by (simp add: reset_step_def)
  next
    case (SysItemEvent i)
    with event_keeps [OF inv, of op i lc t j] t nc j show ?thesis by (simp add: reset_step_def)
  next
    case (SysReturned i)
    with event_keeps [OF inv, of op i lc t j] t nc j show ?thesis by (simp add: reset_step_def)
  next
    case SysBufferExit
    then obtain b where "buffer_exit (buffer s) = Done b" "t = s\<lparr>buffer := b\<rparr>"
      using t nc by (auto simp: outcome_def split: go.splits)
    then show ?thesis using j SysBufferExit by (auto simp: keeps_def fresh_def buffer_exit_def split: if_splits)
  next
    case (SysItem i iop)
    with item_keeps [OF inv, of lc i iop t j] t j show ?thesis by simp
  next
    case (SysCheckout e)
    with checkout_keeps [of lc e s t j] t j show ?thesis by (simp add: reset_step_def)
  next
    case SysSpawnRecv
    with t nc j show ?thesis by (auto simp: keeps_def fresh_def reset_step_def outcome_def split: go.splits)
  next
    case (SysSpawnResult r)
    with t nc j show ?thesis
      by (auto simp: keeps_def fresh_def reset_step_def outcome_def split: go.splits option.splits if_splits)
  qed (use t j in \<open>auto simp: keeps_def fresh_def reset_step_def split: if_splits\<close>)
qed

lemma fresh_run:
  "run (fair_exec lc) ops s = Some t \<Longrightarrow> excl_inv s \<Longrightarrow> its s i \<noteq> None \<Longrightarrow>
     list_all (\<lambda>op. \<not> reset_step lc i op) ops \<Longrightarrow> fresh t i \<le> fresh s i"
proof (induction ops arbitrary: s)
  case (Cons op ops)
  obtain u where u: "fair_exec lc op s = Some u" "run (fair_exec lc) ops u = Some t"
    using Cons.prems(1) by (auto split: option.splits)
  then have w: "wf_exec lc op s = Some u"
    by (auto simp: fair_exec_def wf_exec_def fair_well_formed split: if_splits)
  have "sys_inv s" using Cons.prems(2) by (simp add: excl_inv_def)
  from fresh_step [OF this w Cons.prems(3)] Cons.prems(4) have k: "its u i \<noteq> None" "fresh u i \<le> fresh s i"
    by (auto simp: keeps_def)
  have "excl_inv u" using fair.step_inv Cons.prems(2) u(1) by blast
  from Cons.IH [OF u(2) this k(1)] Cons.prems(4) k(2) show ?case by simp
qed simp

section \<open>Properties\<close>

text \<open>
  C3: No container passes from one client to the next unreset, as long as clients return only what
  they hold, once: between the return of a container and the next checkout that hands it out, its
  reset action has been run and has succeeded, whatever the pool, docker and the other clients
  have done in the meantime. (A second return breaks it: the item waits in the buffer twice, and
  what the next client returns can be handed out again before it is reset.)
\<close>

theorem reset_between_clients:
  assumes "run (fair_exec lc) (before_return @ SysReturn i # after_return) (newSys n) = Some s"
    and "fair_exec lc (SysCheckout None) s = Some t" and "count_list (held s) i < count_list (held t) i"
  shows "\<exists>par act. SysItem i (IChild OnChildReset par act) \<in> set after_return
     \<and> child_result lc OnChildReset par act = Some EvReady"
proof (rule ccontr)
  assume "\<not> ?thesis"
  then have none: "list_all (\<lambda>op. \<not> reset_step lc i op) after_return"
    by (auto simp: list_all_iff reset_step_def elim!: reset_succeeds.elims split: sys_op.splits)
  obtain u v where u: "run (fair_exec lc) before_return (newSys n) = Some u"
    and v: "fair_exec lc (SysReturn i) u = Some v" and r: "run (fair_exec lc) after_return v = Some s"
    using assms(1) by (auto simp: run_append split: option.splits)
  have inv: "excl_inv u" using u by (rule fair.run_inv)
  then have inv': "excl_inv v" using v fair.step_inv by blast
  have i: "i \<in> set (returning v)"
    using v by (auto simp: fair_exec_def sys_exec_def split: if_splits)
  then have "0 < count_list (returning v) i" by (rule count_list_pos)
  moreover obtain it where it: "its v i = Some it" using inv' i by (auto simp: excl_inv_def)
  moreover have "tickets v i \<le> 1" using inv' by (simp add: excl_inv_def)
  ultimately have "count_list (buf (buffer v)) i = 0" "count_list (todo v) (CallPut i) = 0" "item_tokens it = 0"
    by (simp_all add: tickets_def)
  with it fresh_le_tokens [of it] have "fresh v i = 0" by (simp add: fresh_def)
  with fresh_run [OF r inv' _ none] it have "i \<notin> set (buf (buffer s))"
    by (auto simp: fresh_def dest: count_list_pos)
  moreover have "i \<in> set (buf (buffer s))"
    using assms(2,3) rbuf.take_Done [of "buffer s"]
    by (fastforce simp: fair_exec_def sys_exec_def outcome_def split: if_splits go.splits option.splits)
  ultimately show False by simp
qed

theorem reset_between_clients_witness:
  "\<exists>par act. SysItem (cid_of CHR ''a'') (IChild OnChildReset par act) \<in> set (reset_steps (cid_of CHR ''a''))"
proof -
  let ?i = "cid_of CHR ''a''"
  let ?ops = "(one_ready @ [SysCheckout None]) @ SysReturn ?i # reset_steps ?i"
  define s where "s = the (run (fair_exec all_actions) ?ops (newSys 1))"
  define t where "t = the (fair_exec all_actions (SysCheckout None) s)"
  have r: "run (fair_exec all_actions) ?ops (newSys 1) = Some s
      \<and> (fair_exec all_actions (SysCheckout None) s \<noteq> None \<and> count_list (held s) ?i < count_list (held t) ?i)"
    unfolding s_def t_def by (rule is_run) code_simp
  then have "fair_exec all_actions (SysCheckout None) s = Some t" by (auto simp: t_def)
  with reset_between_clients [of all_actions "one_ready @ [SysCheckout None]" ?i "reset_steps ?i" 1 s t] r show ?thesis
    by blast
qed

end
