(* ===== verification/Pool_Protocol.thy ===== *)
theory Pool_Protocol
  imports Pool_Reset
begin

text \<open>
  What a pool is for a single container, as a protocol of eight phases, and that the pool with all
  its goroutines refines it: each of their steps is a step of the protocol for every container, or
  leaves its phase as it is.
\<close>

section \<open>The protocol\<close>

text \<open>
  \<open>Preparing\<close>: on its way to a ready event (first start or reset). \<open>Offered\<close>: reported ready, but
  not in the buffer yet. \<open>Returning\<close>: a \<open>Return\<close> is under way. \<open>Recycled\<close>: the pool has taken it
  back and will ask for its reset. \<open>Spent\<close>: it will not be handed out any more.
\<close>

datatype phase = Absent | Preparing | Offered | Waiting | InUse | Returning | Recycled | Spent

inductive moves :: "phase \<Rightarrow> phase \<Rightarrow> bool" where
  created: "moves Absent Preparing"
| reported: "moves Preparing Offered"
| queued: "moves Offered Waiting"
| taken: "moves Waiting InUse"
| refused: "moves Waiting Returning" \<comment> \<open>its parameters could not be made\<close>
| given_back: "moves InUse Returning"
| accepted: "moves Returning Recycled"
| reset: "moves Recycled Preparing"
| failed: "moves Preparing Spent"
| unwanted: "moves Returning Spent"

declare moves.intros [intro]

inductive_cases from_Spent: "moves Spent p"
inductive_simps to_InUse: "moves p InUse"

section \<open>The phase of a container\<close>

definition tokens_of :: "sys \<Rightarrow> cid \<Rightarrow> nat" where
  "tokens_of s i = (case its s i of None \<Rightarrow> 0 | Some it \<Rightarrow> item_tokens it)"

definition phase_of :: "sys \<Rightarrow> cid \<Rightarrow> phase" where
  "phase_of s i =
     (if its s i = None then Absent
      else if i \<in> set (held s) then InUse
      else if i \<in> set (buf (buffer s)) then Waiting
      else if i \<in> set (returning s) then Returning
      else if CallPut i \<in> set (todo s) then Offered
      else if CallReset i \<in> set (todo s) then Recycled
      else if 0 < tokens_of s i then Preparing
      else Spent)"

text \<open>
  How many tickets of a container are with clients, in the buffer, in returns, in puts and resets
  that the pool still has to make, and with the item; a step moves at most one of them.
\<close>

datatype hands = Hands nat nat nat nat nat nat

definition hands_of :: "sys \<Rightarrow> cid \<Rightarrow> hands" where
  "hands_of s i = Hands (count_list (held s) i) (count_list (buf (buffer s)) i) (count_list (returning s) i)
     (count_list (todo s) (CallPut i)) (count_list (todo s) (CallReset i)) (tokens_of s i)"

inductive flows :: "hands \<Rightarrow> hands \<Rightarrow> bool" where
  flow_drop: "k' \<le> k \<Longrightarrow> flows (Hands h b r p q k) (Hands h b r p q k')"
| flow_report: "k' < k \<Longrightarrow> flows (Hands h b r p q k) (Hands h b r (Suc p) q k')"
| flow_put: "flows (Hands h b r (Suc p) q k) (Hands h (Suc b) r p q k)"
| flow_reset: "flows (Hands h b r p (Suc q) k) (Hands h b r p q (Suc k))"
| flow_take: "flows (Hands h (Suc b) r p q k) (Hands (Suc h) b r p q k)"
| flow_refuse: "flows (Hands h (Suc b) r p q k) (Hands h b (Suc r) p q k)"
| flow_return: "flows (Hands (Suc h) b r p q k) (Hands h b (Suc r) p q k)"
| flow_accept: "flows (Hands h b (Suc r) p q k) (Hands h b r p (Suc q) k)"
| flow_forget: "flows (Hands h b (Suc r) p q k) (Hands h b r p q k)"

fun total :: "hands \<Rightarrow> nat" where
  "total (Hands h b r p q k) = h + b + r + p + q + k"

fun phase_at :: "hands \<Rightarrow> phase" where
  "phase_at (Hands h b r p q k) =
     (if 0 < h then InUse else if 0 < b then Waiting else if 0 < r then Returning
      else if 0 < p then Offered else if 0 < q then Recycled else if 0 < k then Preparing else Spent)"

lemma count_list_pos_iff: "0 < count_list xs x \<longleftrightarrow> x \<in> set xs"
  by (induction xs) auto

lemma tickets_hands: "tickets s i = total (hands_of s i)"
  by (simp add: tickets_def hands_of_def tokens_of_def)

lemma phase_hands: "its s i \<noteq> None \<Longrightarrow> phase_of s i = phase_at (hands_of s i)"
  by (auto simp: phase_of_def hands_of_def count_list_pos_iff)

lemma flows_phase: "flows a b \<Longrightarrow> total a \<le> 1 \<Longrightarrow> phase_at b = phase_at a \<or> moves (phase_at a) (phase_at b)"
  by (induction rule: flows.induct) (auto split: if_split)

lemma flows_moves:
  assumes "its s i \<noteq> None" "its t i \<noteq> None" "tickets s i \<le> 1" "flows (hands_of s i) (hands_of t i)"
  shows "phase_of t i = phase_of s i \<or> moves (phase_of s i) (phase_of t i)"
  using flows_phase [OF assms(4)] assms(3)
  by (simp add: phase_hands [OF assms(1)] phase_hands [OF assms(2)] tickets_hands)

section \<open>The steps of the pool\<close>

text \<open>\<open>passes\<close>: the container is still there, and one of its tickets at most has moved.\<close>

definition passes :: "cid \<Rightarrow> sys \<Rightarrow> sys \<Rightarrow> bool" where
  "passes i s t \<longleftrightarrow> its t i \<noteq> None \<and> flows (hands_of s i) (hands_of t i)"

lemma passes_same: "its t i \<noteq> None \<Longrightarrow> hands_of t i = hands_of s i \<Longrightarrow> passes i s t"
  by (simp add: passes_def hands_of_def flow_drop)

lemma pool_event_resets:
  assumes "pool_event e i p = Done (p', cs)"
  shows "count_list cs (CallReset j) \<le> (if j = i \<and> e = ItemReturned then 1 else 0)"
proof (cases "ppc p = PRunning")
  case True
  with assms have "running_event e i p = Done (p', cs)" by (simp add: pool_event_def)
  then show ?thesis
    by (cases e) (auto simp: running_event_def Let_def emit_num_items_def split: go.splits if_splits)
next
  case False
  with pool_event_shape [OF assms] have "list_all drain_call cs" by (auto simp: event_shape_def)
  then have "count_list cs (CallReset j) = 0" using count_drain_calls [of cs j] by simp
  then show ?thesis by simp
qed

lemma call_passes:
  assumes "exec_call c s = Done s'" "todo s = c # cs" "its s i \<noteq> None"
  shows "passes i s (s'\<lparr>todo := cs\<rparr>)"
proof (cases c)
  case (CallJoin j)
  with assms obtain it it' where "its s j = Some it" "item_join it = Done it'" "s' = s\<lparr>its := (its s)(j \<mapsto> it')\<rparr>"
    by (auto elim: on_item_tickets)
  with assms CallJoin item_calls_tokens(1) show ?thesis
    by (intro passes_same) (simp_all add: hands_of_def tokens_of_def)
next
  case (CallPut j)
  with assms obtain b where b: "buffer_put j (buffer s) = Done b" "s' = s\<lparr>buffer := b\<rparr>"
    by (auto simp: go_simps)
  from rbuf.put_Done [OF b(1)] have "buf b = buf (buffer s) @ [j]" by simp
  with assms b CallPut show ?thesis
    by (cases "i = j") (simp_all add: passes_def hands_of_def tokens_of_def flow_drop flow_put)
next
  case (CallReset j)
  with assms obtain it where "its s j = Some it" "s' = s\<lparr>its := (its s)(j \<mapsto> item_reset it)\<rparr>"
    by (auto elim: on_item_tickets)
  with assms CallReset show ?thesis
    by (cases "i = j") (simp_all add: passes_def hands_of_def tokens_of_def item_calls_tokens flow_drop flow_reset)
next
  case CallBufferStop
  with assms show ?thesis
    by (intro passes_same) (auto simp: go_simps buffer_stop_def hands_of_def tokens_of_def split: if_splits)
qed (rule passes_same; use assms in \<open>auto simp: go_simps hands_of_def tokens_of_def item_calls_tokens elim!: on_item_tickets\<close>)+

text \<open>A step after which the pool has the calls \<open>cs\<close> to make.\<close>

lemma hands_handled:
  "todo s1 = [] \<Longrightarrow> hands_of (handled s1 (p', cs)) j =
     Hands (count_list (held s1) j) (count_list (buf (buffer s1)) j) (count_list (returning s1) j)
       (count_list cs (CallPut j)) (count_list cs (CallReset j)) (tokens_of s1 j)"
  by (simp add: hands_of_def handled_def tokens_of_def)

lemma item_event_passes:
  assumes inv: "sys_inv s" and t: "sys_step lc (SysItemEvent i) s = Some t" "\<not> crashed t" and j: "its s j \<noteq> None"
  shows "passes j s t"
proof -
  obtain it e it' p' cs where todo: "todo s = []" and it: "its s i = Some it" and d: "item_deliver it = Done (e, it')"
    and e: "pool_event e i (pl s) = Done (p', cs)"
    and tt: "t = handled (s\<lparr>its := (its s)(i \<mapsto> it')\<rparr>) (p', cs)"
    using t by (auto simp: sys_item_event_def outcome_def selecting_def split: option.splits go.splits if_splits)
  have "item_ok it" using inv it by (auto simp: sys_inv_def parts_ok_def)
  moreover have "item_exec lc IDeliver it = Done (Some e, it')" using d by simp
  ultimately have k: "item_tokens it' + (if e = ItemReady then 1 else 0) \<le> item_tokens it"
    using item_exec_tokens [of it lc IDeliver "Some e" it'] by simp
  have "e \<noteq> ItemReturned" using d by (auto simp: item_deliver_def split: item_pc.splits)
  then have q: "count_list cs (CallReset j) = 0" using pool_event_resets [OF e, of j] by simp
  have p: "count_list cs (CallPut j) \<le> (if j = i \<and> e = ItemReady then 1 else 0)" using e by (rule pool_event_puts)
  let ?s1 = "s\<lparr>its := (its s)(i \<mapsto> it')\<rparr>"
  have t1: "todo ?s1 = []" by (simp add: todo)
  have "its t j \<noteq> None" using j it by (simp add: tt handled_def)
  moreover have "flows (hands_of s j) (hands_of t j)"
  proof (cases "count_list cs (CallPut j)")
    case 0
    with q todo k it j show ?thesis
      by (simp add: tt hands_handled [OF t1]) (simp add: hands_of_def tokens_of_def flow_drop)
  next
    case (Suc n)
    then have "n = 0" "j = i" "e = ItemReady" using p by (auto split: if_splits)
    with Suc q todo k it show ?thesis
      by (simp add: tt hands_handled [OF t1]) (simp add: hands_of_def tokens_of_def flow_report)
  qed
  ultimately show ?thesis by (simp add: passes_def)
qed

lemma returned_passes:
  assumes t: "sys_step lc (SysReturned i) s = Some t" "\<not> crashed t" and j: "its s j \<noteq> None"
  shows "passes j s t"
proof -
  obtain p' cs where todo: "todo s = []" and i: "i \<in> set (returning s)"
    and e: "pool_event ItemReturned i (pl s) = Done (p', cs)"
    and tt: "t = handled (s\<lparr>returning := remove1 i (returning s)\<rparr>) (p', cs)"
    using t by (auto simp: outcome_def selecting_def split: go.splits if_splits)
  let ?s1 = "s\<lparr>returning := remove1 i (returning s)\<rparr>"
  have t1: "todo ?s1 = []" by (simp add: todo)
  have p: "count_list cs (CallPut j) = 0" using pool_event_puts [OF e, of j] by simp
  have q: "count_list cs (CallReset j) \<le> (if j = i then 1 else 0)" using pool_event_resets [OF e, of j] by simp
  have r: "count_list (remove1 i (returning s)) j + (if i = j then 1 else 0) = count_list (returning s) j"
    using i by (rule count_remove_in)
  have "its t j \<noteq> None" using j by (simp add: tt handled_def)
  moreover have "flows (hands_of s j) (hands_of t j)"
  proof (cases "i = j")
    case False
    with p q r todo show ?thesis
      by (simp add: tt hands_handled [OF t1]) (simp add: hands_of_def tokens_of_def flow_drop del: count_list_remove1)
  next
    case True
    then have "count_list (returning s) j = Suc (count_list (remove1 i (returning s)) j)" using r by simp
    moreover have "count_list cs (CallReset j) = 0 \<or> count_list cs (CallReset j) = Suc 0"
      using q by (auto split: if_splits)
    ultimately show ?thesis using p todo
      by (elim disjE; simp add: tt hands_handled [OF t1] del: count_list_remove1)
        (simp_all add: hands_of_def tokens_of_def flow_accept flow_forget del: count_list_remove1)
  qed
  ultimately show ?thesis by (simp add: passes_def)
qed

text \<open>The pool's other turns touch no ticket.\<close>

lemma no_resets:
  "count_list (snd (drain_spawner_next r p)) (CallReset j) = 0"
  "count_list (snd (running_shutdown p)) (CallReset j) = 0"
  "count_list (snd (runInitialize e p)) (CallReset j) = 0"
proof -
  have "list_all drain_call (snd (drain_spawner_next r p))"
    by (auto simp: drain_spawner_next_def drain_items_top_def split: option.split)
  from count_drain_calls [OF this] show "count_list (snd (drain_spawner_next r p)) (CallReset j) = 0" by simp
  show "count_list (snd (running_shutdown p)) (CallReset j) = 0"
    using count_drain_calls [OF drain_killItems [of p], of j] by (simp add: running_shutdown_def)
  show "count_list (snd (runInitialize e p)) (CallReset j) = 0"
    by (auto simp: runInitialize_def split: option.split)
qed

lemma handled_passes:
  assumes "t = handled s1 r" "todo s = []" "todo s1 = []" "its s j \<noteq> None"
    and "held s1 = held s" "buffer s1 = buffer s" "returning s1 = returning s" "its s1 = its s"
    and "count_list (snd r) (CallPut j) = 0" "count_list (snd r) (CallReset j) = 0"
  shows "passes j s t"
  using assms by (intro passes_same) (simp_all add: hands_of_def handled_def tokens_of_def)

lemma next_passes:
  assumes "sys_step lc SysNext s = Some t" "\<not> crashed t" "its s j \<noteq> None"
  shows "passes j s t"
proof -
  have todo: "todo s = []" using assms(1) by (auto simp: selecting_def split: if_splits)
  have "\<exists>sp r. t = handled (s\<lparr>spawner := sp\<rparr>) r \<and> count_list (snd r) (CallPut j) = 0 \<and> count_list (snd r) (CallReset j) = 0"
  proof (cases "ppc (pl s) = PRunning")
    case True
    with assms show ?thesis
      by (force simp: sys_next_def outcome_def running_next_def Let_def emit_num_items_def
          split: go.splits option.splits if_splits)
  next
    case False
    with assms obtain r sp where "t = handled (s\<lparr>spawner := sp\<rparr>) (drain_spawner_next r (pl s))"
      by (auto simp: sys_next_def outcome_def split: go.splits pool_pc.splits if_splits)
    with no_puts(1) no_resets(1) show ?thesis by blast
  qed
  then obtain sp r where "t = handled (s\<lparr>spawner := sp\<rparr>) r"
    "count_list (snd r) (CallPut j) = 0" "count_list (snd r) (CallReset j) = 0" by blast
  with handled_passes [of t "s\<lparr>spawner := sp\<rparr>" r s j] todo assms(3) show ?thesis by simp
qed

lemma checkout_passes:
  assumes "sys_step lc (SysCheckout e) s = Some t" "its s j \<noteq> None"
  shows "passes j s t"
proof -
  have nf: "buffer_get (buffer s) \<noteq> Panic" by (simp add: buffer_get_def split: list.splits)
  consider "t = s" | i b where "buffer_get (buffer s) = Done (Some i, b)"
      "t = s\<lparr>buffer := b, held := held s @ [i]\<rparr> \<or> t = s\<lparr>buffer := b, returning := returning s @ [i]\<rparr>"
    using assms(1) nf by (auto simp: outcome_def split: go.splits option.splits)
  then show ?thesis
  proof cases
    case 1
    with assms(2) show ?thesis by (simp add: passes_same)
  next
    case 2
    from rbuf.take_Done [OF 2(1)] have b: "buf (buffer s) = i # buf b" by simp
    from 2(2) show ?thesis
    proof
      assume t: "t = s\<lparr>buffer := b, held := held s @ [i]\<rparr>"
      show ?thesis using assms(2) b
        by (cases "i = j") (simp_all add: t passes_def hands_of_def tokens_of_def flow_take flow_drop)
    next
      assume t: "t = s\<lparr>buffer := b, returning := returning s @ [i]\<rparr>"
      show ?thesis using assms(2) b
        by (cases "i = j") (simp_all add: t passes_def hands_of_def tokens_of_def flow_refuse flow_drop)
    qed
  qed
qed

lemma return_passes:
  assumes "i \<in> set (held s)" "t = s\<lparr>held := remove1 i (held s), returning := returning s @ [i]\<rparr>" "its s j \<noteq> None"
  shows "passes j s t"
proof (cases "i = j")
  case True
  then have "count_list (held s) j = Suc (count_list (remove1 i (held s)) j)" using count_remove_in [OF assms(1), of j] by simp
  with True assms(2,3) show ?thesis
    by (simp add: passes_def hands_of_def tokens_of_def flow_return del: count_list_remove1)
next
  case False
  with assms(2,3) show ?thesis by (simp add: passes_def hands_of_def tokens_of_def flow_drop)
qed

lemma return_done_passes:
  assumes "i \<in> set (returning s)" "t = s\<lparr>returning := remove1 i (returning s)\<rparr>" "its s j \<noteq> None"
  shows "passes j s t"
proof (cases "i = j")
  case True
  then have "count_list (returning s) j = Suc (count_list (remove1 i (returning s)) j)"
    using count_remove_in [OF assms(1), of j] by simp
  with True assms(2,3) show ?thesis
    by (simp add: passes_def hands_of_def tokens_of_def flow_forget del: count_list_remove1)
next
  case False
  with assms(2,3) show ?thesis by (simp add: passes_def hands_of_def tokens_of_def flow_drop)
qed

lemma item_passes:
  assumes "sys_inv s" "sys_step lc (SysItem i iop) s = Some t" "its s j \<noteq> None"
  shows "passes j s t"
proof -
  obtain it x it' where it: "its s i = Some it" and own: "own_step iop"
    and ex: "item_exec lc iop it = Done (x, it')" and t: "t = s\<lparr>its := (its s)(i \<mapsto> it')\<rparr>"
    using assms(2) item_own_no_panic [of iop lc]
    by (auto simp: outcome_def split: option.splits if_splits go.splits)
  have "item_ok it" using assms(1) it by (auto simp: sys_inv_def parts_ok_def)
  from item_exec_tokens [OF this ex] own have "item_tokens it' \<le> item_tokens it" by (cases iop) auto
  with it assms(3) show ?thesis by (simp add: t passes_def hands_of_def tokens_of_def flow_drop)
qed

lemma fair_passes:
  assumes inv: "excl_inv s" and f: "fair_exec lc op s = Some t" and j: "its s j \<noteq> None"
  shows "passes j s t"
proof -
  from f have t: "sys_step lc op s = Some t" and d: "disciplined op"
    by (auto simp: fair_exec_def sys_exec_def split: if_splits)
  have si: "sys_inv s" "sys_inv t" using inv excl_step [OF inv f] by (simp_all add: excl_inv_def)
  then have nc: "\<not> crashed t" by (simp add: sys_inv_def parts_ok_def)
  show ?thesis
  proof (cases op)
    case SysCall
    then obtain c cs s' where "todo s = c # cs" "exec_call c s = Done s'" "t = s'\<lparr>todo := cs\<rparr>"
      using t nc by (auto simp: outcome_def split: list.splits go.splits)
    with call_passes j show ?thesis by simp
  next
    case (SysInit e)
    with t j no_puts(3) no_resets(3) handled_passes [of t s "runInitialize e (pl s)" s j] show ?thesis
      by (auto simp: selecting_def split: if_splits)
  next
    case SysSelfStop
    with t self_stop_blocked [OF si(1)] show ?thesis by simp
  next
    case SysShutdown
    with t j no_puts(2) no_resets(2) show ?thesis
      by (auto simp: selecting_def split: if_splits intro!: handled_passes)
  next
    case SysNext
    with next_passes t nc j show ?thesis by blast
  next
    case (SysItemEvent i)
    with item_event_passes si t nc j show ?thesis by blast
  next
    case (SysReturned i)
    with returned_passes t nc j show ?thesis by blast
  next
    case SysBufferExit
    then obtain b where "buffer_exit (buffer s) = Done b" "t = s\<lparr>buffer := b\<rparr>"
      using t nc by (auto simp: outcome_def split: go.splits)
    then show ?thesis using j
      by (intro passes_same) (auto simp: hands_of_def tokens_of_def buffer_exit_def split: if_splits)
  next
    case (SysItem i iop)
    with item_passes si t j show ?thesis by blast
  next
    case (SysCheckout e)
    with checkout_passes t j show ?thesis by blast
  next
    case (SysReturn i)
    with t j return_passes show ?thesis by (auto split: if_splits)
  next
    case (SysReturnDone i)
    with t j return_done_passes show ?thesis by (auto split: if_splits)
  next
    case SysSpawnRecv
    with t nc j show ?thesis
      by (intro passes_same) (auto simp: hands_of_def tokens_of_def outcome_def split: go.splits)
  next
    case (SysSpawnResult r)
    with t nc j show ?thesis
      by (intro passes_same) (auto simp: hands_of_def tokens_of_def outcome_def split: go.splits option.splits if_splits)
  next
    case (SysReturnAny i)
    with d show ?thesis by simp
  next
    case SysStop
    with t j show ?thesis by (intro passes_same) (auto simp: hands_of_def tokens_of_def)
  next
    case SysStopped
    with t j show ?thesis by (intro passes_same) (auto simp: hands_of_def tokens_of_def split: if_splits)
  qed
qed

section \<open>Before it exists\<close>

lemma absent_hands:
  assumes "excl_inv s" "its s i = None"
  shows "hands_of s i = Hands 0 0 0 0 0 0"
proof -
  have "sys_inv s" "set (returning s) \<subseteq> dom (its s)" using assms(1) by (simp_all add: excl_inv_def)
  then have "i \<notin> set (held s)" "i \<notin> set (buf (buffer s))" "i \<notin> set (returning s)"
    "CallPut i \<notin> set (todo s)" "CallReset i \<notin> set (todo s)"
    using assms(2) by (auto simp: sys_inv_def ids_ok_def)
  with assms(2) show ?thesis by (simp add: hands_of_def tokens_of_def not_in_count)
qed

lemma stays_absent:
  assumes "sys_step lc op s = Some t" "its s i = None" "op \<noteq> SysSpawnResult (Some i)"
  shows "its t i = None"
proof (cases op)
  case SysCall
  with assms obtain c cs where c: "todo s = c # cs" "outcome s (exec_call c s) (\<lambda>s'. s'\<lparr>todo := cs\<rparr>) = Some t"
    by (auto split: list.splits)
  have "its s' i = None" if "exec_call c s = Done s'" for s'
    using that assms(2) by (cases c) (auto simp: go_simps elim!: on_item_tickets)
  with c(2) assms(2) show ?thesis by (auto simp: outcome_def split: go.splits)
next
  case SysNext
  with assms show ?thesis
    by (auto simp: sys_next_def outcome_def handled_def split: pool_pc.splits go.splits if_splits)
next
  case (SysItemEvent j)
  with assms show ?thesis
    by (auto simp: sys_item_event_def outcome_def handled_def split: option.splits go.splits if_splits)
next
  case (SysItem j iop)
  with assms show ?thesis by (auto simp: outcome_def split: option.splits go.splits if_splits)
next
  case (SysSpawnResult r)
  with assms show ?thesis by (auto simp: outcome_def split: option.splits go.splits if_splits)
next
  case (SysCheckout e)
  with assms show ?thesis by (auto simp: outcome_def split: option.splits go.splits)
qed (use assms in \<open>auto simp: outcome_def handled_def split: go.splits if_splits list.splits\<close>)

lemma absent_step:
  assumes inv: "excl_inv s" and f: "fair_exec lc op s = Some t" and i: "its s i = None"
  shows "phase_of t i = Absent \<or> phase_of t i = Preparing"
proof (cases "its t i")
  case None
  then show ?thesis by (simp add: phase_of_def)
next
  case (Some it)
  from f have t: "sys_step lc op s = Some t" by (auto simp: fair_exec_def sys_exec_def split: if_splits)
  have nc: "\<not> crashed t" using excl_step [OF inv f] by (simp add: excl_inv_def sys_inv_def parts_ok_def)
  have op: "op = SysSpawnResult (Some i)" using stays_absent [OF t i] Some by auto
  then have it: "it = createPoolItem" and e: "held t = held s" "buffer t = buffer s" "returning t = returning s" "todo t = todo s"
    using t nc Some by (auto simp: outcome_def split: go.splits if_splits)
  have "hands_of t i = Hands 0 0 0 0 0 1"
    using absent_hands [OF inv i] e Some by (simp add: hands_of_def tokens_of_def it create_tokens)
  then show ?thesis using Some by (simp add: phase_hands)
qed

section \<open>Properties\<close>

lemma protocol_step:
  assumes "excl_inv s" "fair_exec lc op s = Some t"
  shows "phase_of t i = phase_of s i \<or> moves (phase_of s i) (phase_of t i)"
proof (cases "its s i = None")
  case True
  then have "phase_of s i = Absent" by (simp add: phase_of_def)
  with absent_step [OF assms True] show ?thesis by auto
next
  case False
  from fair_passes [OF assms this] have "its t i \<noteq> None" "flows (hands_of s i) (hands_of t i)"
    by (simp_all add: passes_def)
  with False assms(1) show ?thesis by (intro flows_moves) (simp_all add: excl_inv_def)
qed

lemma protocol_run:
  "run (fair_exec lc) ops s = Some t \<Longrightarrow> excl_inv s \<Longrightarrow> moves\<^sup>*\<^sup>* (phase_of s i) (phase_of t i)"
proof (induction ops arbitrary: s)
  case (Cons op ops)
  then obtain u where u: "fair_exec lc op s = Some u" "run (fair_exec lc) ops u = Some t"
    by (auto split: option.splits)
  from protocol_step [OF Cons.prems(2) u(1), of i] have "moves\<^sup>*\<^sup>* (phase_of s i) (phase_of u i)" by auto
  moreover have "moves\<^sup>*\<^sup>* (phase_of u i) (phase_of t i)"
    using Cons.IH u excl_step [OF Cons.prems(2) u(1)] by blast
  ultimately show ?case by (rule rtranclp_trans)
qed simp

text \<open>A container that is spent stays so, and one in use has come from the buffer.\<close>

lemma spent_final: "moves\<^sup>*\<^sup>* Spent p \<Longrightarrow> p = Spent"
  by (induction rule: rtranclp_induct) (auto elim: from_Spent)

lemma spent_for_good:
  "run (fair_exec lc) ops s = Some t \<Longrightarrow> excl_inv s \<Longrightarrow> phase_of s i = Spent \<Longrightarrow> phase_of t i = Spent"
  using protocol_run spent_final by metis

lemma used_from_buffer:
  "excl_inv s \<Longrightarrow> fair_exec lc op s = Some t \<Longrightarrow> phase_of t i = InUse \<Longrightarrow> phase_of s i = InUse \<or> phase_of s i = Waiting"
  using protocol_step [of s lc op t i] by (auto simp: to_InUse)

text \<open>
  C4: The pool refines the protocol, as long as clients return only what they hold, once: every step
  of its goroutines, docker, the lifecycle actions and the clients leaves the phase of a container as it is or takes it to the next one as the
  protocol allows. A client gets a container from the ready buffer only, where it comes after a
  ready event only; from a client it comes back by a return, and from there it is reset or is
  never used again.
\<close>

theorem pool_refines_protocol:
  assumes "run (fair_exec lc) ops (newSys n) = Some s" and "fair_exec lc op s = Some t"
  shows "moves\<^sup>=\<^sup>= (phase_of s i) (phase_of t i)"
proof -
  have "excl_inv s" using assms(1) by (rule fair.run_inv)
  from protocol_step [OF this assms(2), of i] show ?thesis by auto
qed

theorem pool_refines_protocol_witness:
  "\<exists>s t. run (fair_exec all_actions) (one_ready @ [SysCheckout None]) (newSys 1) = Some s
     \<and> fair_exec all_actions (SysReturn (cid_of CHR ''a'')) s = Some t
     \<and> phase_of s (cid_of CHR ''a'') = InUse \<and> phase_of t (cid_of CHR ''a'') = Returning \<and> moves\<^sup>=\<^sup>= InUse Returning"
proof -
  let ?i = "cid_of CHR ''a''"
  define s where "s = the (run (fair_exec all_actions) (one_ready @ [SysCheckout None]) (newSys 1))"
  define t where "t = the (fair_exec all_actions (SysReturn ?i) s)"
  have r: "run (fair_exec all_actions) (one_ready @ [SysCheckout None]) (newSys 1) = Some s
      \<and> (fair_exec all_actions (SysReturn ?i) s \<noteq> None \<and> phase_of s ?i = InUse \<and> phase_of t ?i = Returning)"
    unfolding s_def t_def by (rule is_run) code_simp
  then have t: "fair_exec all_actions (SysReturn ?i) s = Some t" by (auto simp: t_def)
  with pool_refines_protocol [of all_actions "one_ready @ [SysCheckout None]" 1 s "SysReturn ?i" t ?i] r show ?thesis
    by auto
qed

end
