(* ===== verification/Pool_Reports.thy ===== *)
theory Pool_Reports
  imports Pool_Properties Ui_Processor
begin

text \<open>
  What a pool reports to the user interface, compared with what it is. Its goroutine, its spawner
  and its buffer report to one emitter; at every \<^theory_text>\<open>select\<close> of the pool the reports made so far
  describe its state exactly.
\<close>

section \<open>The row a pool should have\<close>

fun row_state :: "pool_pc \<Rightarrow> pstate" where
  "row_state PInit = PstateInit"
| "row_state PSelfStop = PstateErr"
| "row_state PRunning = PstateRunning"
| "row_state PDrainSpawner = PstateDraining"
| "row_state PDrainItems = PstateDraining"
| "row_state PDone = PstateStopped"

text \<open>What the pool's goroutine itself reports; the two counts come from the spawner and the buffer.\<close>

definition own_row :: "string \<Rightarrow> pool \<Rightarrow> ui_pool" where
  "own_row n p =
     \<lparr>pool_name = n, pool_state = row_state (ppc p), numItems = int (length (pitems p)), numPending = 0, numReady = 0,
      pool_err = init_err p\<rparr>"

definition row_of :: "string \<Rightarrow> sys \<Rightarrow> ui_pool" where
  "row_of n s = (own_row n (pl s))
     \<lparr>numPending := num_pending (spawner s), numReady := (if outch_closed (buffer s) then 0 else int (length (buf (buffer s))))\<rparr>"

section \<open>The reports of the pool's goroutine\<close>

fun emissions :: "pool_call list \<Rightarrow> pool_emit list" where
  "emissions [] = []"
| "emissions (CallEmit e # cs) = e # emissions cs"
| "emissions (_ # cs) = emissions cs"

definition hears :: "string \<Rightarrow> pool_emit list \<Rightarrow> ui_pool \<Rightarrow> ui_pool" where
  "hears n es q = fold apply_pevent (map (pool_emitter n) es) q"

definition blank :: "string \<Rightarrow> ui_pool" where
  "blank n = \<lparr>pool_name = n, pool_state = PstateUnset, numItems = 0, numPending = 0, numReady = 0, pool_err = None\<rparr>"

lemma hears_simps [simp]:
  "hears n [] q = q" "hears n (e # es) q = hears n es (apply_pevent (pool_emitter n e) q)"
  "hears n (es @ es') q = hears n es' (hears n es q)"
  by (simp_all add: hears_def)

lemma emissions_append [simp]: "emissions (cs @ cs') = emissions cs @ emissions cs'"
  by (induction cs rule: emissions.induct) simp_all

lemma emissions_kill [simp]: "emissions (killItems p) = []"
proof -
  have "emissions (map CallKill is) = []" for "is" by (induction "is") simp_all
  then show ?thesis by (simp add: killItems_def)
qed

lemma emissions_prime [simp]: "emissions (primeBacklog p) = []"
  by (simp add: primeBacklog_def Let_def)

text \<open>\<open>tells\<close>: a turn of the pool's goroutine reports exactly what it changes.\<close>

definition tells :: "pool \<Rightarrow> pool \<times> pool_call list \<Rightarrow> bool" where
  "tells p r \<longleftrightarrow> (\<forall>n. hears n (emissions (snd r)) (own_row n p) = own_row n (fst r))"

lemma tells_initialize: "ppc p = PInit \<Longrightarrow> tells p (runInitialize err p)"
  by (simp add: tells_def runInitialize_def own_row_def apply_pevent_def split: option.split)

lemma tells_shutdown: "ppc p = PRunning \<Longrightarrow> tells p (running_shutdown p)"
  by (simp add: tells_def running_shutdown_def own_row_def apply_pevent_def)

lemma tells_next: "ppc p = PRunning \<Longrightarrow> running_next r p = Done h \<Longrightarrow> tells p h"
  by (auto simp: tells_def running_next_def own_row_def apply_pevent_def emit_num_items_def Let_def split: option.splits)

lemma tells_drain_top: "ppc p = PDrainItems \<Longrightarrow> tells p (drain_items_top p)"
  by (simp add: tells_def drain_items_top_def own_row_def apply_pevent_def)

lemma tells_drain_next: "ppc p = PDrainSpawner \<Longrightarrow> tells p (drain_spawner_next r p)"
  by (simp add: tells_def drain_spawner_next_def drain_items_top_def own_row_def apply_pevent_def split: option.split)

lemma tells_event: "pool_event e i p = Done h \<Longrightarrow> tells p h"
  by (cases "ppc p"; cases e)
    (auto simp: tells_def pool_event_def running_event_def drain_event_def handleDrainingEvent_def drain_items_top_def
      own_row_def apply_pevent_def emit_num_items_def Let_def go_simps split: go.splits if_splits pool_pc.splits prod.splits)

text \<open>The reports made and still to be made agree with the pool's state.\<close>

definition told :: "string \<Rightarrow> sys \<Rightarrow> bool" where
  "told n s \<longleftrightarrow> hears n (pool_emits s @ emissions (todo s)) (blank n) = own_row n (pl s)"

lemma told_new: "told n (newSys k)"
  by (simp add: told_def newSys_def newPool_def own_row_def blank_def apply_pevent_def)

lemma told_handled: "told n s \<Longrightarrow> selecting s \<Longrightarrow> pool_emits s1 = pool_emits s \<Longrightarrow> tells (pl s) r \<Longrightarrow> told n (handled s1 r)"
  by (simp add: told_def selecting_def handled_def tells_def)

lemma told_same: "told n s \<Longrightarrow> pl t = pl s \<Longrightarrow> todo t = todo s \<Longrightarrow> pool_emits t = pool_emits s \<Longrightarrow> told n t"
  by (simp add: told_def)

lemma told_call:
  assumes "told n s" "todo s = c # cs" "exec_call c s = Done s'"
  shows "told n (s'\<lparr>todo := cs\<rparr>)"
  using assms by (cases c) (auto simp: told_def go_simps own_row_def on_item_def split: option.splits)

lemma told_outcome:
  assumes "Pool_System.outcome s r f = Some t" "told n s" "\<And>x. r = Done x \<Longrightarrow> told n (f x)"
  shows "told n t"
  using assms by (cases r) (auto simp: Pool_System.outcome_def told_def)

lemma told_step:
  assumes "sys_inv s" "told n s" "sys_step lc op s = Some t"
  shows "told n t"
proof (cases op)
  case SysCall
  with assms(3) obtain c cs where "todo s = c # cs" "Pool_System.outcome s (exec_call c s) (\<lambda>s'. s'\<lparr>todo := cs\<rparr>) = Some t"
    by (auto split: list.splits)
  with assms(2) told_call show ?thesis by (blast intro: told_outcome)
next
  case (SysInit e)
  with assms show ?thesis by (auto intro: told_handled tells_initialize split: if_splits)
next
  case SysSelfStop
  with assms(3) self_stop_blocked [OF assms(1)] show ?thesis by simp
next
  case SysShutdown
  with assms show ?thesis by (auto intro!: told_handled [OF assms(2)] tells_shutdown split: if_splits)
next
  case SysNext
  with assms(3) have sel: "selecting s" and nx: "sys_next s = Some t" by (auto split: if_splits)
  from nx show ?thesis
  proof (cases "ppc (pl s)")
    case PRunning
    with nx sel assms(2) show ?thesis
      by (auto simp: sys_next_def elim!: told_outcome intro!: told_handled [OF assms(2)] tells_next
          split: go.splits) (simp_all add: told_def)
  next
    case PDrainSpawner
    with nx sel assms(2) show ?thesis
      by (auto simp: sys_next_def elim!: told_outcome intro!: told_handled [OF assms(2)] tells_drain_next)
  qed (simp_all add: sys_next_def)
next
  case (SysItemEvent i)
  with assms show ?thesis
    by (auto simp: sys_item_event_def split: option.splits if_splits go.splits elim!: told_outcome
        intro!: told_handled [OF assms(2)] intro: tells_event)
next
  case (SysReturned i)
  with assms show ?thesis
    by (auto split: if_splits elim!: told_outcome intro!: told_handled [OF assms(2)] intro: tells_event)
next
  case (SysSpawnResult r)
  with assms show ?thesis
    by (auto split: option.splits if_splits elim!: told_outcome intro: told_same [OF assms(2)])
next
  case (SysCheckout e)
  with assms show ?thesis
    by (auto split: option.splits elim!: told_outcome intro: told_same [OF assms(2)])
next
  case (SysItem i iop)
  with assms show ?thesis
    by (auto split: option.splits if_splits elim!: told_outcome intro: told_same [OF assms(2)])
qed (use assms in \<open>auto split: if_splits elim!: told_outcome intro: told_same [OF assms(2)]\<close>)

text \<open>The steps that touch the buffer are the operations of its goroutine.\<close>

lemma buffer_steps:
  assumes "sys_step lc op s = Some t"
  shows "buffer t = buffer s \<or> (\<exists>bop x. buffer_exec bop (buffer s) = Done (x, buffer t))"
proof -
  have call: "buffer s' = buffer s \<or> (\<exists>bop x. buffer_exec bop (buffer s) = Done (x, buffer s'))"
    if "exec_call c s = Done s'" for c s'
  proof (cases c)
    case (CallPut i)
    with that have "buffer_exec (BPut i) (buffer s) = Done (None, buffer s')" by (auto simp: go_simps)
    then show ?thesis by blast
  next
    case CallBufferStop
    with that have "buffer_exec BStop (buffer s) = Done (None, buffer s')" by (auto simp: go_simps)
    then show ?thesis by blast
  qed (use that in \<open>auto simp: go_simps on_item_def split: option.splits\<close>)
  show ?thesis
  proof (cases op)
    case SysCall
    with assms obtain c cs where "Pool_System.outcome s (exec_call c s) (\<lambda>s'. s'\<lparr>todo := cs\<rparr>) = Some t"
      by (auto split: list.splits)
    with call [of c] show ?thesis by (cases "exec_call c s") (auto simp: Pool_System.outcome_def)
  next
    case SysBufferExit
    with assms have "buffer t = buffer s \<or> buffer_exec BExit (buffer s) = Done (None, buffer t)"
      by (auto simp: Pool_System.outcome_def go_simps split: go.splits)
    then show ?thesis by blast
  next
    case (SysCheckout e)
    with assms have "buffer t = buffer s \<or> (\<exists>x. buffer_exec BGet (buffer s) = Done (x, buffer t))"
      by (auto simp: Pool_System.outcome_def split: go.splits option.splits)
    then show ?thesis by blast
  qed (use assms in \<open>auto simp: Pool_System.outcome_def handled_def sys_next_def sys_item_event_def
    split: if_splits go.splits option.splits pool_pc.splits\<close>)
qed

definition display_inv :: "string \<Rightarrow> sys \<Rightarrow> bool" where
  "display_inv n s \<longleftrightarrow> sys_inv s \<and> told n s \<and> buffer_ok (buffer s)"

interpretation display: invariant "wf_exec lc" "newSys k" "display_inv n" for lc k n
proof unfold_locales
  show "display_inv n (newSys k)"
    using buffer_ok_new by (simp add: display_inv_def sys_inv_new told_new) (simp add: newSys_def)
  fix s l t assume d: "display_inv n s" and w: "wf_exec lc l s = Some t"
  then have "sys_inv t" using sys_step_inv [of s lc l t] by (simp add: display_inv_def)
  moreover have st: "sys_step lc l s = Some t" using w by (auto simp: wf_exec_def sys_exec_def split: if_splits)
  moreover have "buffer_ok (buffer t)"
    using buffer_steps [OF st] buffer_exec_ok d by (auto simp: display_inv_def)
  moreover have "told n t" using told_step [OF _ _ st, of n] d by (simp add: display_inv_def)
  ultimately show "display_inv n t" by (simp add: display_inv_def)
qed

section \<open>The reports of the three together\<close>

text \<open>The last count of a kind among some events, or the one before.\<close>

definition last_count :: "pevent_id \<Rightarrow> pevent list \<Rightarrow> int \<Rightarrow> int" where
  "last_count k es d = fold (\<lambda>e d. if pe_id e = k then pe_count e else d) es d"

definition own_report :: "pevent \<Rightarrow> bool" where
  "own_report e \<longleftrightarrow> pe_id e \<noteq> PeventNumPending \<and> pe_id e \<noteq> PeventNumReady"

text \<open>
  \<open>reports_of\<close>: the events are an interleaving of what the pool's goroutine, its spawner and its
  buffer have reported, each in its order.
\<close>

definition reports_of :: "string \<Rightarrow> sys \<Rightarrow> pevent list \<Rightarrow> bool" where
  "reports_of n s es \<longleftrightarrow> filter own_report es = map (pool_emitter n) (pool_emits s)
     \<and> last_count PeventNumPending es 0 = num_pending (spawner s)
     \<and> last_count PeventNumReady es 0 = int (num_ready (buffer s))"

lemma fold_own_reports:
  "fold apply_pevent es q = (fold apply_pevent (filter own_report es) q)
     \<lparr>numPending := last_count PeventNumPending es (numPending q), numReady := last_count PeventNumReady es (numReady q)\<rparr>"
proof (induction es rule: rev_induct)
  case (snoc e es)
  then show ?case by (cases "pe_id e") (simp_all add: own_report_def last_count_def apply_pevent_def)
qed (simp add: last_count_def)

lemma reports_row:
  assumes "display_inv n s" "selecting s" "reports_of n s es"
  shows "fold apply_pevent es (blank n) = row_of n s"
proof -
  have "hears n (pool_emits s) (blank n) = own_row n (pl s)"
    using assms(1,2) by (simp add: display_inv_def told_def selecting_def)
  with assms(1,3) fold_own_reports [of es "blank n"] show ?thesis
    by (simp add: reports_of_def hears_def row_of_def blank_def display_inv_def buffer_ok_def)
qed

end
