(* ===== verification/Pool_Display.thy ===== *)
theory Pool_Display
  imports Pool_Reports Ui_Screen
begin

text \<open>
  From a pool to its row on the terminal: the pool's reports pass the processor, the batching
  writer and the application, and the row that is shown in the end is compared with the state of
  the pool itself. The rows of pools are easier than those of containers (\<open>Ui_Screen\<close>), since no
  pool is ever removed.
\<close>

section \<open>The reports of one pool\<close>

fun pool_emitted :: "string \<Rightarrow> screen_op list \<Rightarrow> pevent list" where
  "pool_emitted n [] = []"
| "pool_emitted n (EmitPool e # ops) = (if pe_pool e = n then e # pool_emitted n ops else pool_emitted n ops)"
| "pool_emitted n (_ # ops) = pool_emitted n ops"

definition pool_track :: "pevent \<Rightarrow> ui_pool option \<Rightarrow> ui_pool option" where
  "pool_track e q = Some (apply_pevent e (case q of None \<Rightarrow> new_pool e | Some q' \<Rightarrow> q'))"

lemma pool_emitted_append [simp]: "pool_emitted n (xs @ ys) = pool_emitted n xs @ pool_emitted n ys"
  by (induction n xs rule: pool_emitted.induct) simp_all

lemma pool_event_track:
  assumes "filed p"
  shows "ui_pools (pool_event_step e p) n = (if n = pe_pool e then pool_track e (ui_pools p n) else ui_pools p n)"
proof (cases "ui_pools p (pe_pool e)")
  case None
  then show ?thesis
    by (simp add: pool_event_step_def handlePoolCreate_def handlePoolUpdate_def new_pool_def pool_track_def Let_def)
next
  case (Some q)
  then have "pool_name q = pe_pool e" using assms by (simp add: filed_def)
  with Some show ?thesis
    by (simp add: pool_event_step_def handlePoolUpdate_def pool_track_def Let_def)
qed

text \<open>The handler asks the writer to show what it has filed.\<close>

lemma pool_event_written:
  assumes "filed p"
  shows "\<exists>q. last (writes (pool_event_step e p)) = UpdatePool q \<and> ui_pools (pool_event_step e p) (pe_pool e) = Some q
     \<and> pool_name q = pe_pool e"
  using assms
  by (auto simp: pool_event_step_def handlePoolUpdate_def handlePoolCreate_def new_pool_def Let_def filed_def
      split: option.split)

section \<open>The row of a pool\<close>

text \<open>The row as it will be when all updates under way have arrived.\<close>

definition pool_upd :: "string \<Rightarrow> ui_pool \<Rightarrow> cell list option \<Rightarrow> cell list option" where
  "pool_upd n q v = (if pool_key q = n then Some (pool_cols q) else v)"

fun pool_updates :: "ui_write option \<Rightarrow> ui_pool list" where
  "pool_updates (Some (UpdatePool q)) = [q]"
| "pool_updates _ = []"

definition pools_drawn :: "screen \<Rightarrow> string \<rightharpoonup> cell list" where
  "pools_drawn s = fold (\<lambda>b m. m ++ b_pupdate b) (posted s) (pscreen s) ++ pupdate (ui_wr s)"

definition pool_row_to_be :: "string \<Rightarrow> screen \<Rightarrow> cell list option" where
  "pool_row_to_be n s = fold (pool_upd n) (pch s @ pool_updates (psend s)) (pools_drawn s n)"

definition row_inv :: "string \<Rightarrow> pevent list \<Rightarrow> screen \<Rightarrow> bool" where
  "row_inv n hist s \<longleftrightarrow> filed (ui_proc s)
     \<and> fold pool_track (filter (\<lambda>e. pe_pool e = n) (poolch s)) (ui_pools (ui_proc s) n) = fold pool_track hist None
     \<and> (\<not> tui_returned (ui_wr s) \<longrightarrow> pool_row_to_be n s = map_option pool_cols (ui_pools (ui_proc s) n))"

lemma row_inv_start: "row_inv n [] newScreen"
  using filed_new
  by (simp add: row_inv_def newScreen_def pool_row_to_be_def pools_drawn_def newTUIWriter_def newProcessor_def)

lemma row_inv_same:
  assumes "row_inv n hist s" "ui_pools (ui_proc t) = ui_pools (ui_proc s)" "filed (ui_proc t)" "poolch t = poolch s"
    and "\<not> tui_returned (ui_wr t) \<Longrightarrow> \<not> tui_returned (ui_wr s) \<and> pool_row_to_be n t = pool_row_to_be n s"
  shows "row_inv n hist t"
  using assms by (auto simp: row_inv_def)

lemma container_event_pools [simp]: "ui_pools (container_event_step e p) = ui_pools p"
  by (simp add: container_event_step_def handleContainerUpdate_def handleContainerCreate_def Let_def split: option.split)

lemma row_handle:
  assumes inv: "row_inv n hist s" and h: "handlePoolEvents s = Some t"
  shows "row_inv n hist t"
proof -
  let ?p = "ui_proc s"
  obtain e es where q: "poolch s = e # es" "psend s = None"
    and t: "t = s\<lparr>poolch := es, ui_proc := pool_event_step e ?p, psend := Some (last (writes (pool_event_step e ?p)))\<rparr>"
    using h by (auto simp: handlePoolEvents_def Let_def split: list.splits option.splits)
  have f: "filed ?p" using inv by (simp add: row_inv_def)
  obtain r where r: "last (writes (pool_event_step e ?p)) = UpdatePool r"
    "ui_pools (pool_event_step e ?p) (pe_pool e) = Some r" "pool_name r = pe_pool e"
    using pool_event_written [OF f] by blast
  note tr = pool_event_track [OF f, of e n]
  have "pools_drawn t = pools_drawn s" by (simp add: t pools_drawn_def)
  then show ?thesis
    using inv q r tr filed_pool [OF f, of e]
    by (cases "pe_pool e = n") (simp_all add: t row_inv_def pool_row_to_be_def pool_upd_def pool_key_def)
qed

lemma row_emit: "row_inv n hist s \<Longrightarrow> sendPoolEvent e s = Some t \<Longrightarrow> row_inv n (hist @ (if pe_pool e = n then [e] else [])) t"
  by (auto simp: row_inv_def sendPoolEvent_def pool_row_to_be_def pools_drawn_def split: if_splits)

lemma row_send:
  assumes "row_inv n hist s" "psend s = Some (UpdatePool q)" "updatePool q s = Some u"
  shows "row_inv n hist (u\<lparr>psend := None\<rparr>)"
  using assms by (auto simp: row_inv_def updatePool_def pool_row_to_be_def pools_drawn_def split: if_splits)

lemma row_writer_call:
  assumes "row_inv n hist s" "\<forall>q. w \<noteq> UpdatePool q" "writer_call w s = Some u"
  shows "row_inv n hist u"
  using assms by (cases w) (auto simp: calls row_inv_def pool_row_to_be_def pools_drawn_def split: if_splits)

lemma writer_turn_rest:
  "writer_turn e s = Some t \<Longrightarrow> \<not> tui_returned (ui_wr s) \<and> pch t = pch s \<and> psend t = psend s \<and> poolch t = poolch s \<and> ui_proc t = ui_proc s"
  by (auto simp: writer_turn_def split: if_splits prod.splits)

lemma writer_turn_pools:
  assumes "writer_turn e s = Some t" "\<not> tui_returned (ui_wr t)" "e = TuiDraw \<Longrightarrow> app_started s"
  shows "pools_drawn t n = (case e of TuiPool k cs \<Rightarrow> if k = n then Some cs else pools_drawn s n | _ \<Rightarrow> pools_drawn s n)"
  using assms
  by (cases e) (auto simp: writer_turn_def tui_step_def tui_draw_def pools_drawn_def split: if_splits)

lemma row_recv_pool:
  assumes inv: "row_inv n hist s" and q: "pch s = p # ps"
    and t: "writer_turn (TuiPool (pool_key p) (pool_cols p)) (s\<lparr>pch := ps\<rparr>) = Some t"
  shows "row_inv n hist t"
proof (rule row_inv_same [OF inv])
  note f = writer_turn_rest [OF t]
  show "ui_pools (ui_proc t) = ui_pools (ui_proc s)" "filed (ui_proc t)" "poolch t = poolch s"
    using f inv by (simp_all add: row_inv_def)
  assume "\<not> tui_returned (ui_wr t)"
  from writer_turn_pools [OF t this] have "pools_drawn t n = pool_upd n p (pools_drawn s n)"
    by (simp add: pool_upd_def pools_drawn_def)
  with f q show "\<not> tui_returned (ui_wr s) \<and> pool_row_to_be n t = pool_row_to_be n s"
    by (simp add: pool_row_to_be_def)
qed

lemma row_recv_other:
  assumes inv: "row_inv n hist s" and e: "case e of TuiPool k cs \<Rightarrow> False | _ \<Rightarrow> True"
    and st: "e = TuiDraw \<Longrightarrow> app_started s" and t: "writer_turn e (s\<lparr>cch := cs, dch := ds\<rparr>) = Some t"
  shows "row_inv n hist t"
proof (rule row_inv_same [OF inv])
  note f = writer_turn_rest [OF t]
  show "ui_pools (ui_proc t) = ui_pools (ui_proc s)" "filed (ui_proc t)" "poolch t = poolch s"
    using f inv by (simp_all add: row_inv_def)
  assume "\<not> tui_returned (ui_wr t)"
  from writer_turn_pools [OF t this] st e have "pools_drawn t n = pools_drawn s n"
    by (cases e) (simp_all add: pools_drawn_def)
  with f show "\<not> tui_returned (ui_wr s) \<and> pool_row_to_be n t = pool_row_to_be n s"
    by (simp add: pool_row_to_be_def)
qed

text \<open>What the container handler asks of the writer concerns containers.\<close>

definition container_writes :: "screen \<Rightarrow> bool" where
  "container_writes s \<longleftrightarrow> (\<forall>q. csend s \<noteq> Some (UpdatePool q))"

lemma container_event_no_pool: "last (writes (container_event_step e p)) \<noteq> UpdatePool q"
  by (simp add: container_event_write)

lemma container_writes_step: "container_writes s \<Longrightarrow> screen_step op s = Some t \<Longrightarrow> container_writes t"
  by (cases op) (auto simp: container_writes_def calls Let_def container_event_no_pool
      split: if_splits list.splits option.splits ui_write.splits prod.splits)

lemma screen_exec_step: "screen_exec owner op s = Some t \<Longrightarrow> screen_step op s = Some t"
  by (cases op) (auto simp: screen_exec_def simp del: screen_step.simps split: if_splits)

lemma row_step:
  assumes inv: "row_inv n hist s" and w: "container_writes s" and t: "screen_exec owner op s = Some t"
  shows "row_inv n (hist @ pool_emitted n [op]) t"
proof -
  have f: "filed (ui_proc s)" using inv by (simp add: row_inv_def)
  show ?thesis
  proof (cases op)
    case (EmitPool e)
    with t have "sendPoolEvent e s = Some t" by (simp add: screen_exec_def)
    from row_emit [OF inv this] EmitPool show ?thesis by (cases "pe_pool e = n") simp_all
  next
    case (EmitContainer e)
    with t have "t = s\<lparr>containerch := containerch s @ [e]\<rparr>" by (auto simp: screen_exec_def calls split: if_splits)
    with row_inv_same [OF inv, of t] f EmitContainer show ?thesis by (simp add: pool_row_to_be_def pools_drawn_def)
  next
    case HandlePool
    with t row_handle [OF inv] show ?thesis by (simp add: screen_exec_def)
  next
    case HandleContainer
    with t obtain es e where "t = s\<lparr>containerch := es, ui_proc := container_event_step e (ui_proc s),
        csend := Some (last (writes (container_event_step e (ui_proc s))))\<rparr>"
      by (auto simp: screen_exec_def handleContainerEvents_def Let_def split: list.splits option.splits)
    with row_inv_same [OF inv, of t] filed_container [OF f] HandleContainer show ?thesis
      by (simp add: pool_row_to_be_def pools_drawn_def)
  next
    case SendPool
    with t row_send [OF inv] show ?thesis by (auto simp: screen_exec_def split: option.splits ui_write.splits)
  next
    case SendContainer
    with t obtain w u where u: "csend s = Some w" "writer_call w s = Some u" "t = u\<lparr>csend := None\<rparr>"
      by (auto simp: screen_exec_def split: option.splits)
    then have "row_inv n hist u" using row_writer_call [OF inv] w by (auto simp: container_writes_def)
    with u SendContainer show ?thesis by (simp add: row_inv_def pool_row_to_be_def pools_drawn_def)
  next
    case RecvPool
    with t row_recv_pool [OF inv] show ?thesis by (auto simp: screen_exec_def split: list.splits)
  next
    case RecvContainer
    with t obtain c cs where "writer_turn (TuiContainer (container_key c) (container_cells c)) (s\<lparr>cch := cs\<rparr>) = Some t"
      by (auto simp: screen_exec_def split: list.splits)
    with row_recv_other [OF inv, where e = "TuiContainer (container_key c) (container_cells c)" and cs = cs and ds = "dch s" and t = t] RecvContainer
    show ?thesis by simp
  next
    case RecvDelete
    with t obtain c ds where "writer_turn (TuiDelete (container_key c)) (s\<lparr>dch := ds\<rparr>) = Some t"
      by (auto simp: screen_exec_def split: list.splits)
    with row_recv_other [OF inv, where e = "TuiDelete (container_key c)" and cs = "cch s" and ds = ds and t = t] RecvDelete show ?thesis by simp
  next
    case RecvDrain
    with t row_recv_other [OF inv, where e = TuiDrain and cs = "cch s" and ds = "dch s"] show ?thesis by (simp add: screen_exec_def)
  next
    case RecvDraw
    with t have "app_started s" "writer_turn TuiDraw s = Some t" by (auto simp: screen_exec_def split: if_splits)
    with RecvDraw row_recv_other [OF inv, where e = TuiDraw and cs = "cch s" and ds = "dch s"] show ?thesis by simp
  next
    case AppStarts
    with t have "t = s\<lparr>app_started := True\<rparr>" by (simp add: screen_exec_def)
    with row_inv_same [OF inv, of t] f AppStarts show ?thesis by (simp add: pool_row_to_be_def pools_drawn_def)
  next
    case (RunPosted k)
    with t obtain b bs m where b: "posted s = b # bs"
      and t': "t = s\<lparr>posted := bs, cscreen := m, pscreen := pscreen s ++ b_pupdate b\<rparr>"
      by (cases "posted s") (auto simp: screen_exec_def Let_def split: if_splits)
    have "pools_drawn t = pools_drawn s" by (simp add: t' pools_drawn_def b)
    with row_inv_same [OF inv, of t] f RunPosted t' show ?thesis by (simp add: pool_row_to_be_def)
  qed
qed

lemma row_run:
  "run (screen_exec owner) ops s = Some t \<Longrightarrow> row_inv n hist s \<Longrightarrow> container_writes s \<Longrightarrow> row_inv n (hist @ pool_emitted n ops) t"
proof (induction ops arbitrary: s hist)
  case (Cons op ops)
  obtain u where u: "screen_exec owner op s = Some u" "run (screen_exec owner) ops u = Some t"
    using Cons.prems(1) by (auto split: option.splits)
  have "pool_emitted n (op # ops) = pool_emitted n [op] @ pool_emitted n ops"
    using pool_emitted_append [of n "[op]" ops] by simp
  with Cons.IH [OF u(2) row_step [OF Cons.prems(2,3) u(1)] container_writes_step [OF Cons.prems(3) screen_exec_step [OF u(1)]]]
  show ?case by simp
qed simp

text \<open>No report of any pool is on its way to the table any more.\<close>

definition pools_settled :: "screen \<Rightarrow> bool" where
  "pools_settled s \<longleftrightarrow> poolch s = [] \<and> psend s = None \<and> pch s = [] \<and> pupdate (ui_wr s) = Map.empty
     \<and> posted s = [] \<and> \<not> tui_returned (ui_wr s)"

lemma settled_row:
  assumes "run (screen_exec owner) ops newScreen = Some u" "pools_settled u"
  shows "pscreen u n = map_option pool_cols (fold pool_track (pool_emitted n ops) None)"
  using row_run [OF assms(1) row_inv_start, of n] assms(2)
  by (simp add: container_writes_def newScreen_def row_inv_def pools_settled_def pool_row_to_be_def pools_drawn_def)

lemma fold_pool_track: "fold pool_track es (Some q) = Some (fold apply_pevent es q)"
  by (induction es arbitrary: q) (simp_all add: pool_track_def)

lemma fold_pool_blank:
  assumes "es \<noteq> []" "\<forall>e \<in> set es. pe_pool e = n"
  shows "fold pool_track es None = Some (fold apply_pevent es (blank n))"
proof -
  obtain e es' where es: "es = e # es'" using assms(1) by (cases es) auto
  have "pool_track e None = Some (apply_pevent e (blank n))"
    using assms(2) es by (simp add: pool_track_def new_pool_def blank_def)
  then show ?thesis by (simp add: es fold_pool_track)
qed

lemma pool_emitted_mine: "\<forall>e \<in> set (pool_emitted n ops). pe_pool e = n"
  proof (induction ops)
  case (Cons op ops)
  then show ?case by (cases op) simp_all
qed simp

lemma row_right:
  assumes "run (wf_exec lc) ops (newSys k) = Some s" and "selecting s"
    and "run (screen_exec owner) sops newScreen = Some u" and "pools_settled u"
    and "reports_of n s (pool_emitted n sops)"
  shows "pscreen u n = Some (pool_cols (row_of n s))"
proof -
  have inv: "display_inv n s" using assms(1) by (rule display.run_inv)
  have "pool_emits s \<noteq> []"
  proof
    assume "pool_emits s = []"
    then have "blank n = own_row n (pl s)"
      using inv assms(2) by (simp add: display_inv_def told_def selecting_def)
    then show False by (cases "ppc (pl s)") (simp_all add: blank_def own_row_def)
  qed
  then have "pool_emitted n sops \<noteq> []" using assms(5) by (auto simp: reports_of_def)
  with settled_row [OF assms(3,4), of n] fold_pool_blank [OF _ pool_emitted_mine]
    reports_row [OF inv assms(2,5)] show ?thesis by simp
qed

section \<open>The row comes in the end\<close>

text \<open>A writer that nobody has asked to stop, for an application that draws.\<close>

definition drawing :: "screen \<Rightarrow> bool" where
  "drawing s \<longleftrightarrow> app_started s \<and> shuttingdown (ui_wr s) = 0 \<and> \<not> tui_returned (ui_wr s)"

text \<open>The steps that neither report nor stop anything.\<close>

fun onward :: "screen_op \<Rightarrow> bool" where
  "onward (EmitPool e) = False"
| "onward (EmitContainer e) = False"
| "onward RecvDrain = False"
| "onward AppStarts = False"
| "onward _ = True"

lemma quiet_exec: "quiet op \<Longrightarrow> screen_exec owner op s = screen_step op s"
  by (cases op) (simp_all add: screen_exec_def)

lemma quiet_onward: "quiet op \<Longrightarrow> onward op"
  by (cases op) simp_all

lemma quiet_drawing: "quiet op \<Longrightarrow> screen_step op s = Some t \<Longrightarrow> drawing s \<Longrightarrow> drawing t"
  by (cases op) (auto simp: drawing_def calls tui_step_def Let_def
      split: if_splits list.splits option.splits ui_write.splits prod.splits)

definition calm :: "screen \<Rightarrow> bool" where
  "calm s \<longleftrightarrow> idle s \<and> pch s = []"

lemma becomes_calm:
  "drawing s \<Longrightarrow> pool_writes s \<Longrightarrow>
     \<exists>ops t. run (screen_exec owner) ops s = Some t \<and> list_all onward ops \<and> drawing t \<and> calm t"
proof (induction s rule: measure_induct_rule [of work])
  case (less s)
  show ?case
  proof (cases "calm s")
    case True
    with less.prems show ?thesis by (intro exI [of _ "[]"]) simp
  next
    case False
    have "\<exists>op t. quiet op \<and> screen_step op s = Some t \<and> work t < work s"
    proof (cases "idle s")
      case True
      with False have "pch s \<noteq> []" by (simp add: calm_def)
      with queue_moves(1) less.prems have "\<exists>t. screen_step RecvPool s = Some t \<and> work t < work s"
        by (simp add: drawing_def)
      then show ?thesis by (metis quiet.simps)
    next
      case False
      with work_goes_on less.prems show ?thesis by (simp add: drawing_def)
    qed
    then obtain op u where u: "quiet op" "screen_step op s = Some u" "work u < work s" by blast
    with less.IH [OF u(3) quiet_drawing [OF u(1,2) less.prems(1)] pool_writes_step [OF less.prems(2) u(2)]] obtain ops t where
      "run (screen_exec owner) ops u = Some t" "list_all onward ops" "drawing t" "calm t" by blast
    with u quiet_exec quiet_onward show ?thesis by (intro exI [of _ "op # ops"]) auto
  qed
qed

lemma posted_run:
  "posted s = bs \<Longrightarrow> \<exists>t. run (screen_exec owner) (replicate (length bs) (RunPosted 0)) s = Some t \<and> posted t = []
     \<and> poolch t = poolch s \<and> psend t = psend s \<and> pch t = pch s \<and> ui_wr t = ui_wr s"
proof (induction bs arbitrary: s)
  case (Cons b bs)
  let ?u = "s\<lparr>posted := bs, cscreen := apply_batch b (cscreen s), pscreen := pscreen s ++ b_pupdate b\<rparr>"
  have "screen_exec owner (RunPosted 0) s = Some ?u" using Cons.prems by (simp add: screen_exec_def Let_def)
  with Cons.IH [of ?u] show ?case by simp
qed simp

lemma gets_settled:
  assumes "drawing s" "pool_writes s"
  shows "\<exists>ops t. run (screen_exec owner) ops s = Some t \<and> list_all onward ops \<and> pools_settled t"
proof -
  obtain ops t where t: "run (screen_exec owner) ops s = Some t" "list_all onward ops" "drawing t" "calm t"
    using becomes_calm [OF assms] by blast
  obtain w u where u: "screen_exec owner RecvDraw t = Some u" "pch u = []" "psend u = None" "poolch u = []"
    "pupdate (ui_wr u) = Map.empty" "\<not> tui_returned (ui_wr u)"
    using t(3,4) by (simp add: screen_exec_def calls drawing_def calm_def idle_def tui_step_def tui_draw_def)
  obtain v where v: "run (screen_exec owner) (replicate (length (posted u)) (RunPosted 0)) u = Some v"
    "posted v = []" "poolch v = poolch u" "psend v = psend u" "pch v = pch u" "ui_wr v = ui_wr u"
    using posted_run [OF refl] by blast
  from u v have "pools_settled v" by (simp add: pools_settled_def)
  moreover from t u v have "run (screen_exec owner) (ops @ RecvDraw # replicate (length (posted u)) (RunPosted 0)) s = Some v"
    by (simp add: run_append)
  moreover have "list_all onward (ops @ RecvDraw # replicate (length (posted u)) (RunPosted 0))"
    using t(2) by (auto simp: list_all_iff)
  ultimately show ?thesis by blast
qed

lemma exec_run: "run (screen_exec owner) ops s = Some t \<Longrightarrow> run screen_step ops s = Some t"
  by (induction ops arbitrary: s) (auto split: option.splits dest: screen_exec_step)

lemma onward_no_reports: "list_all onward ops \<Longrightarrow> pool_emitted n ops = []"
proof (induction ops)
  case (Cons op ops)
  then show ?case by (cases op) simp_all
qed simp

section \<open>Properties\<close>

text \<open>
  C16: The row of a pool on the terminal is right, when the application has started before the first
  drawing and runs what is posted in order: when the reports of the pool's goroutine, of its
  spawner and of its buffer, in whatever interleaving with each other and with those of other pools
  and of containers (by the program's emitters), have reached the application, the row shows the state the pool is in, the
  number of items in its map, the ready items in its buffer, the pending creations its spawner has
  counted last, and the error of its initialisation.
\<close>

theorem pool_row_right:
  assumes "run (wf_exec lc) ops (newSys k) = Some s" and "selecting s"
    and "run screen_step sops newScreen = Some u" and "in_order False sops" and "list_all (well_reported owner) sops"
    and "pools_settled u" and "reports_of n s (pool_emitted n sops)"
  shows "pscreen u n = Some (pool_cols (row_of n s))"
proof -
  have "run (screen_exec owner) sops newScreen = Some u"
    using in_order_run [OF assms(3) _ assms(5)] assms(4) by (simp add: newScreen_def)
  then show ?thesis by (rule row_right [OF assms(1,2) _ assms(6,7)])
qed

definition taken_in :: "pevent list \<Rightarrow> screen_op list" where
  "taken_in es = AppStarts # concat (map (\<lambda>e. [EmitPool e, HandlePool, SendPool, RecvPool]) es) @ [RecvDraw, RunPosted 0]"

definition sample_reports :: "pevent list" where
  "sample_reports =
     [pool_emitter ''pg'' PoolInitializing, EmitNumReady ''pg'' 0, pool_emitter ''redis'' PoolInitializing,
      EmitNumPending ''pg'' 0, pool_emitter ''pg'' PoolRunning, EmitNumPending ''pg'' 1, pool_emitter ''pg'' (PoolNumItems 1),
      EmitNumPending ''pg'' 0, EmitNumReady ''pg'' 1]"

lemmas pool_screen_eval =
  taken_in_def sample_reports_def EmitNumReady_def EmitNumPending_def pool_event_step_def handlePoolCreate_def
  handlePoolUpdate_def new_pool_def apply_pevent_def pool_key_def

theorem pool_row_right_witness:
  "\<exists>u. run screen_step (taken_in sample_reports) newScreen = Some u
     \<and> map_option (map cell_text) (pscreen u ''pg'') = Some [''pg'', ''running'', ''1'', ''1'', ''0'', []]"
proof -
  define s where "s = the (run (wf_exec all_actions) one_ready (newSys 1))"
  have es: "pool_emitted ''pg'' (taken_in sample_reports) = filter (\<lambda>e. pe_pool e = ''pg'') sample_reports"
    by (simp add: pool_screen_eval)
  have r: "run (wf_exec all_actions) one_ready (newSys 1) = Some s
      \<and> selecting s \<and> reports_of ''pg'' s (filter (\<lambda>e. pe_pool e = ''pg'') sample_reports)
      \<and> map cell_text (pool_cols (row_of ''pg'' s)) = [''pg'', ''running'', ''1'', ''1'', ''0'', []]"
    unfolding s_def by (rule is_run) code_simp
  have "map_option pools_settled (run screen_step (taken_in sample_reports) newScreen) = Some True"
    by (simp add: pool_screen_eval screen_eval pools_settled_def)
  then obtain u where u: "run screen_step (taken_in sample_reports) newScreen = Some u" "pools_settled u"
    using map_option_holds by fast
  have o: "in_order False (taken_in sample_reports)" "list_all (well_reported (\<lambda>_. ''pg'')) (taken_in sample_reports)"
    by (simp_all add: taken_in_def sample_reports_def)
  from r es pool_row_right [OF _ _ u(1) o u(2), of all_actions one_ready 1 s "''pg''"] u(1) show ?thesis
    by auto
qed

text \<open>
  The row of a pool does become right: from every state of the interface in which all the
  reports of the pool have been made and the writer has not been asked to stop, its goroutines
  can bring the row to the screen, without a further report.
\<close>

theorem pool_row_comes:
  assumes "run (wf_exec lc) ops (newSys k) = Some s" and "selecting s"
    and "run (screen_exec owner) sops newScreen = Some u" and "drawing u"
    and "reports_of n s (pool_emitted n sops)"
  shows "\<exists>sops' t. run (screen_exec owner) sops' u = Some t \<and> list_all onward sops' \<and> pscreen t n = Some (pool_cols (row_of n s))"
proof -
  obtain sops' t where t: "run (screen_exec owner) sops' u = Some t" "list_all onward sops'" "pools_settled t"
    using gets_settled [OF assms(4) pool_writes.run_inv [OF exec_run [OF assms(3)]]] by blast
  have r: "run (screen_exec owner) (sops @ sops') newScreen = Some t" using assms(3) t(1) by (simp add: run_append)
  have "reports_of n s (pool_emitted n (sops @ sops'))" using assms(5) onward_no_reports [OF t(2)] by simp
  from row_right [OF assms(1,2) r t(3) this] t show ?thesis by blast
qed

end
