(* ===== verification/Ui_Emitters.thy ===== *)
theory Ui_Emitters
  imports Ui_Screen Test_Support
begin

text \<open>
  The emitters as the pools and items see them (\<^verbatim>\<open>ui/emitter.go\<close>, \<^verbatim>\<open>ui/noop.go\<close>): values that are
  handed from an interface to its pools and from a pool to its containers, and whose methods send.
  What the daemon relies on is that a send does not wait for ever. That is a contract here, which
  the emitters of a processor and of the noop interface both meet.
\<close>

section \<open>The emitters\<close>

text \<open>A processor's emitters are told apart by the names they carry; the noop emitter is all three.\<close>

datatype emitter = ProcessorEmitter | NoopEmitter

datatype pool_uie = ProcessorPoolEmitter string | NoopPoolEmitter

datatype container_uie = ProcessorContainerEmitter string string | NoopContainerEmitter

definition newEmitter :: emitter where
  "newEmitter = ProcessorEmitter"

definition NewNoopEmitter :: emitter where
  "NewNoopEmitter = NoopEmitter"

fun ForPool :: "emitter \<Rightarrow> string \<Rightarrow> pool_uie" where
  "ForPool ProcessorEmitter n = ProcessorPoolEmitter n"
| "ForPool NoopEmitter n = NoopPoolEmitter"

fun ForContainer :: "pool_uie \<Rightarrow> string \<Rightarrow> container_uie" where
  "ForContainer (ProcessorPoolEmitter n) i = ProcessorContainerEmitter n i"
| "ForContainer NoopPoolEmitter i = NoopContainerEmitter"

definition ui_Emitter :: "ui \<Rightarrow> emitter" where
  "ui_Emitter u = (case u of ProcessedUI w p \<Rightarrow> newEmitter | NoopUI \<Rightarrow> NewNoopEmitter)"

section \<open>Sending\<close>

text \<open>
  \<open>ui_screen\<close>: the processor's channels and what comes after them. \<open>proc_done\<close>: the processor's
  \<open>donech\<close> is closed, which \<open>stop\<close> does when the writer's \<open>stop\<close> has returned.
\<close>

record ui_state =
  ui_screen :: screen
  proc_done :: bool

definition processor_stop :: "ui_state \<Rightarrow> ui_state option" where
  "processor_stop u = (if tui_returned (ui_wr (ui_screen u)) then Some (u\<lparr>proc_done := True\<rparr>) else None)"

text \<open>
  \<open>sendPoolEvent\<close> and \<open>sendContainerEvent\<close> take one of two cases: a place in the channel, or \<open>donech\<close>.
  When both are possible the runtime chooses; \<open>gives_up\<close> is its choice.
\<close>

definition send_or_done :: "bool \<Rightarrow> (screen \<Rightarrow> screen option) \<Rightarrow> ui_state \<Rightarrow> ui_state option" where
  "send_or_done gives_up send u =
     (if gives_up then (if proc_done u then Some u else None)
      else map_option (\<lambda>s. u\<lparr>ui_screen := s\<rparr>) (send (ui_screen u)))"

definition pool_sendEvent :: "bool \<Rightarrow> pevent \<Rightarrow> ui_state \<Rightarrow> ui_state option" where
  "pool_sendEvent gives_up e u = send_or_done gives_up (sendPoolEvent e) u"

definition container_sendEvent :: "bool \<Rightarrow> cevent \<Rightarrow> ui_state \<Rightarrow> ui_state option" where
  "container_sendEvent gives_up e u = send_or_done gives_up (sendContainerEvent e) u"

definition emit_pool :: "pool_uie \<Rightarrow> bool \<Rightarrow> pool_emit \<Rightarrow> ui_state \<Rightarrow> ui_state option" where
  "emit_pool h gives_up e u =
     (case h of ProcessorPoolEmitter n \<Rightarrow> pool_sendEvent gives_up (pool_emitter n e) u | NoopPoolEmitter \<Rightarrow> Some u)"

definition emit_container :: "container_uie \<Rightarrow> bool \<Rightarrow> item_emit \<Rightarrow> ui_state \<Rightarrow> ui_state option" where
  "emit_container h gives_up e u =
     (case h of
        ProcessorContainerEmitter n i \<Rightarrow> container_sendEvent gives_up (container_emitter n i e) u
      | NoopContainerEmitter \<Rightarrow> Some u)"

section \<open>The contract\<close>

text \<open>
  \<open>send\<close> is the call of an emitter's method, \<open>go_on\<close> a step of the interface by itself. From
  every state in which the interface is sound, a call can be made to return.
\<close>

locale report_line =
  fixes send :: "'e \<Rightarrow> 's \<Rightarrow> 's option"
    and go_on :: "'l \<Rightarrow> 's \<Rightarrow> 's option"
    and sound :: "'s \<Rightarrow> bool"
  assumes can_send: "sound s \<Longrightarrow> \<exists>ls t u. run go_on ls s = Some t \<and> send e t = Some u"
    and send_sound: "sound s \<Longrightarrow> send e s = Some t \<Longrightarrow> sound t"
    and go_on_sound: "sound s \<Longrightarrow> go_on l s = Some t \<Longrightarrow> sound t"
begin

text \<open>The interface's own steps (\<open>Inl\<close>) and the sends of one goroutine (\<open>Inr\<close>).\<close>

definition both :: "'l + 'e \<Rightarrow> 's \<Rightarrow> 's option" where
  "both x = (case x of Inl l \<Rightarrow> go_on l | Inr e \<Rightarrow> send e)"

fun sends :: "('l + 'e) list \<Rightarrow> 'e list" where
  "sends [] = []"
| "sends (Inl l # xs) = sends xs"
| "sends (Inr e # xs) = e # sends xs"

lemma sends_append [simp]: "sends (xs @ ys) = sends xs @ sends ys"
  by (induction xs rule: sends.induct) simp_all

lemma run_go_on: "run go_on ls s = Some t \<Longrightarrow> run both (map Inl ls) s = Some t \<and> sends (map Inl ls) = []"
  by (induction ls arbitrary: s) (auto simp: both_def split: option.splits)

lemma go_on_run_sound: "run go_on ls s = Some t \<Longrightarrow> sound s \<Longrightarrow> sound t"
  by (induction ls arbitrary: s) (auto split: option.splits dest: go_on_sound)

text \<open>Any sequence of reports can be sent, in its order.\<close>

lemma all_sent: "sound s \<Longrightarrow> \<exists>xs t. run both xs s = Some t \<and> sends xs = es \<and> sound t"
proof (induction es arbitrary: s)
  case Nil
  then show ?case by (intro exI [of _ "[]"]) simp
next
  case (Cons e es)
  obtain ls t u where t: "run go_on ls s = Some t" "send e t = Some u" using can_send [OF Cons.prems] by blast
  have "sound u" using go_on_run_sound [OF t(1) Cons.prems] send_sound t(2) by blast
  then obtain xs v where v: "run both xs u = Some v" "sends xs = es" "sound v" using Cons.IH by blast
  have "both (Inr e) t = Some u" using t(2) by (simp add: both_def)
  with run_go_on [OF t(1)] v show ?case
    by (intro exI [of _ "map Inl ls @ Inr e # xs"] exI [of _ v]) (simp add: run_append)
qed

end

section \<open>Who meets it\<close>

text \<open>A call may take either case of its select; one of them is enough for it to return.\<close>

definition returns :: "(bool \<Rightarrow> ui_state \<Rightarrow> ui_state option) \<Rightarrow> ui_state \<Rightarrow> ui_state option" where
  "returns call u = (case call False u of None \<Rightarrow> call True u | Some v \<Rightarrow> Some v)"

definition ui_go_on :: "screen_op \<Rightarrow> ui_state \<Rightarrow> ui_state option" where
  "ui_go_on op u = (if emission op then None else map_option (\<lambda>s. u\<lparr>ui_screen := s\<rparr>) (screen_step op (ui_screen u)))"

definition ui_sound :: "ui_state \<Rightarrow> bool" where
  "ui_sound u \<longleftrightarrow> pool_writes (ui_screen u)"

lemma ui_go_on_run:
  "run screen_step ops s = Some t \<Longrightarrow> list_all (\<lambda>op. \<not> emission op) ops \<Longrightarrow>
     run ui_go_on ops (u\<lparr>ui_screen := s\<rparr>) = Some (u\<lparr>ui_screen := t\<rparr>)"
proof (induction ops arbitrary: s)
  case (Cons op ops)
  then obtain v where v: "screen_step op s = Some v" "run screen_step ops v = Some t" by (auto split: option.splits)
  with Cons have "run ui_go_on ops (u\<lparr>ui_screen := v\<rparr>) = Some (u\<lparr>ui_screen := t\<rparr>)" by simp
  moreover have "ui_go_on op (u\<lparr>ui_screen := s\<rparr>) = Some (u\<lparr>ui_screen := v\<rparr>)"
    using v(1) Cons.prems(2) by (simp add: ui_go_on_def)
  ultimately show ?case by simp
qed simp

lemma ui_catches_up:
  assumes "ui_sound u"
  shows "\<exists>ops t. run ui_go_on ops u = Some (u\<lparr>ui_screen := t\<rparr>) \<and> idle t"
proof -
  obtain ops t where t: "run screen_step ops (ui_screen u) = Some t" "list_all (\<lambda>op. \<not> emission op) ops" "idle t"
    using work_ends [of "ui_screen u"] assms by (auto simp: ui_sound_def)
  from ui_go_on_run [OF t(1,2), of u] t(3) show ?thesis by auto
qed

lemma ui_go_on_sound: "ui_sound u \<Longrightarrow> ui_go_on op u = Some v \<Longrightarrow> ui_sound v"
  using pool_writes_step by (auto simp: ui_sound_def ui_go_on_def split: if_splits)

lemma idle_sends: "idle t \<Longrightarrow> \<exists>t'. sendPoolEvent e t = Some t'" "idle t \<Longrightarrow> \<exists>t'. sendContainerEvent e' t = Some t'"
  by (simp_all add: idle_def calls pBufSiz_def)

interpretation pool_line: report_line "\<lambda>e. returns (\<lambda>b. emit_pool h b e)" ui_go_on ui_sound for h
proof unfold_locales
  fix s :: ui_state and e assume "ui_sound s"
  then obtain ops t where t: "run ui_go_on ops s = Some (s\<lparr>ui_screen := t\<rparr>)" "idle t" using ui_catches_up by blast
  have "\<exists>u. returns (\<lambda>b. emit_pool h b e) (s\<lparr>ui_screen := t\<rparr>) = Some u"
  proof (cases h)
    case (ProcessorPoolEmitter n)
    with idle_sends(1) [OF t(2), of "pool_emitter n e"] show ?thesis
      by (auto simp: returns_def emit_pool_def pool_sendEvent_def send_or_done_def)
  qed (simp add: returns_def emit_pool_def)
  with t(1) show "\<exists>ls t u. run ui_go_on ls s = Some t \<and> returns (\<lambda>b. emit_pool h b e) t = Some u" by blast
next
  fix s e t assume "ui_sound s" "returns (\<lambda>b. emit_pool h b e) s = Some t"
  then show "ui_sound t"
    by (cases h) (auto simp: returns_def emit_pool_def pool_sendEvent_def send_or_done_def ui_sound_def
        pool_writes_def calls split: option.splits if_splits)
qed (rule ui_go_on_sound)

interpretation container_line: report_line "\<lambda>e. returns (\<lambda>b. emit_container h b e)" ui_go_on ui_sound for h
proof unfold_locales
  fix s :: ui_state and e assume "ui_sound s"
  then obtain ops t where t: "run ui_go_on ops s = Some (s\<lparr>ui_screen := t\<rparr>)" "idle t" using ui_catches_up by blast
  have "\<exists>u. returns (\<lambda>b. emit_container h b e) (s\<lparr>ui_screen := t\<rparr>) = Some u"
  proof (cases h)
    case (ProcessorContainerEmitter n i)
    with idle_sends(2) [OF t(2), of "container_emitter n i e"] show ?thesis
      by (auto simp: returns_def emit_container_def container_sendEvent_def send_or_done_def)
  qed (simp add: returns_def emit_container_def)
  with t(1) show "\<exists>ls t u. run ui_go_on ls s = Some t \<and> returns (\<lambda>b. emit_container h b e) t = Some u" by blast
next
  fix s e t assume "ui_sound s" "returns (\<lambda>b. emit_container h b e) s = Some t"
  then show "ui_sound t"
    by (cases h) (auto simp: returns_def emit_container_def container_sendEvent_def send_or_done_def ui_sound_def
        pool_writes_def calls split: option.splits if_splits)
qed (rule ui_go_on_sound)

section \<open>After the stop\<close>

text \<open>A call on a stopped interface can always return at once, and then changes nothing.\<close>

lemma stopped_drops:
  "processor_stop u = Some v \<Longrightarrow> \<exists>w. emit_pool h True e v = Some w \<and> w = v"
  "processor_stop u = Some v \<Longrightarrow> \<exists>w. emit_container g True x v = Some w \<and> w = v"
  by (auto simp: processor_stop_def emit_pool_def emit_container_def pool_sendEvent_def container_sendEvent_def
      send_or_done_def split: if_splits pool_uie.split container_uie.split)

section \<open>The emitters of the tests\<close>

definition test_Emitter :: emitter where
  "test_Emitter = NewNoopEmitter"

definition test_PoolEmitter :: pool_uie where
  "test_PoolEmitter = ForPool test_Emitter ''pool-name''"

definition test_ContainerEmitter :: container_uie where
  "test_ContainerEmitter = ForContainer test_PoolEmitter CID"

lemma test_emitters_silent: "emit_pool test_PoolEmitter b e u = Some u" "emit_container test_ContainerEmitter b x u = Some u"
  by (simp_all add: test_ContainerEmitter_def test_PoolEmitter_def test_Emitter_def NewNoopEmitter_def emit_pool_def
      emit_container_def)

end
