(* ===== verification/Pool_Process.thy ===== *)
theory Pool_Process
  imports Pool_Properties Docker_Calls Lifecycle_Exec
begin

text \<open>
  The pool in its process: beside the goroutines of \<open>Pool_System\<close>, those that serve one container
  only. Every creation starts a \<open>dumpLogs\<close> (\<^verbatim>\<open>container.go\<close>), every child of an item makes parameters
  and starts attempts of its action (\<^verbatim>\<open>item.go\<close>, \<^verbatim>\<open>lifecycle/runner.go\<close>), and a checkout makes
  parameters in the goroutine of its client. A panic of any of them ends the process.
\<close>

section \<open>State\<close>

text \<open>
  \<open>pdumps\<close>: the containers whose log is still being copied. \<open>pattempts\<close>: the goroutines of \<open>doAttempt\<close>
  in which an action runs, by the item and the kind of child that started them; they can outlive
  the child, which gives an attempt up when its time is over.
\<close>

record process =
  psys :: sys
  pdumps :: "cid list"
  pattempts :: "(cid \<times> child) list"

definition newProcess :: "int \<Rightarrow> process" where
  "newProcess n = \<lparr>psys = newSys n, pdumps = [], pattempts = []\<rparr>"

section \<open>Steps\<close>

text \<open>Which of the three actions a child runs, and whether it is configured.\<close>

fun runs_action :: "lifecycle_flags \<Rightarrow> child \<Rightarrow> bool" where
  "runs_action lc OnChildStarted = has_healthcheck lc"
| "runs_action lc OnChildLive = has_initialize lc"
| "runs_action lc OnChildReset = has_reset lc"

text \<open>
  \<open>PSys\<close>: a step of the pool's system. \<open>PDump\<close>: docker answers \<open>dumpLogs\<close>. \<open>PParams\<close> and
  \<open>PCheckoutParams\<close>: \<open>makeParams\<close> ends in a child, or in a checkout that has been given an item.
  \<open>PAttempt\<close>: a child starts an attempt, and \<open>PDo\<close>: the \<open>Do\<close> of its action ends.
\<close>

datatype process_op =
    PSys sys_op
  | PDump cid "go_error + log_body"
  | PParams cid child "go_error option go"
  | PCheckoutParams "go_error option go"
  | PAttempt cid child
  | PDo cid child "go_error option go"

definition pcrash :: "process \<Rightarrow> process" where
  "pcrash p = p\<lparr>psys := (psys p)\<lparr>crashed := True\<rparr>\<rparr>"

text \<open>A goroutine ends, or panics and the process with it.\<close>

definition goroutine :: "'a go \<Rightarrow> process \<Rightarrow> process option" where
  "goroutine r p = (case r of Done x \<Rightarrow> Some p | Panic \<Rightarrow> Some (pcrash p) | Blocked \<Rightarrow> None)"

definition has_child :: "lifecycle_flags \<Rightarrow> cid \<Rightarrow> child \<Rightarrow> process \<Rightarrow> bool" where
  "has_child lc i c p \<longleftrightarrow> runs_action lc c
     \<and> (case its (psys p) i of None \<Rightarrow> False | Some it \<Rightarrow> c \<in> set (children it))"

text \<open>The goroutines of \<open>createPoolContainer\<close>: the monitor is part of the item, the copy of the log is not.\<close>

fun new_dumps :: "sys_op \<Rightarrow> cid list" where
  "new_dumps (SysSpawnResult (Some i)) = [i]"
| "new_dumps _ = []"

fun process_step :: "lifecycle_flags \<Rightarrow> process_op \<Rightarrow> process \<Rightarrow> process option" where
  "process_step lc (PSys op) p =
     (case sys_step lc op (psys p) of
        None \<Rightarrow> None
      | Some s \<Rightarrow> Some (p\<lparr>psys := s, pdumps := pdumps p @ new_dumps op\<rparr>))"
| "process_step lc (PDump i answer) p =
     (if i \<in> set (pdumps p)
      then goroutine (dump_body answer) (p\<lparr>pdumps := remove1 i (pdumps p)\<rparr>)
      else None)"
| "process_step lc (PParams i c r) p = (if has_child lc i c p then goroutine r p else None)"
| "process_step lc (PCheckoutParams r) p =
     (case buffer_get (buffer (psys p)) of Done (Some i, b) \<Rightarrow> goroutine r p | _ \<Rightarrow> None)"
| "process_step lc (PAttempt i c) p =
     (if has_child lc i c p then Some (p\<lparr>pattempts := pattempts p @ [(i, c)]\<rparr>) else None)"
| "process_step lc (PDo i c r) p =
     (if (i, c) \<in> set (pattempts p)
      then goroutine r (p\<lparr>pattempts := remove1 (i, c) (pattempts p)\<rparr>)
      else None)"

text \<open>A process that has crashed takes no step.\<close>

definition process_exec :: "lifecycle_flags \<Rightarrow> process_op \<Rightarrow> process \<Rightarrow> process option" where
  "process_exec lc op p = (if crashed (psys p) then None else process_step lc op p)"

text \<open>The identifiers that clients send have at least twelve bytes.\<close>

fun well_identified :: "process_op \<Rightarrow> bool" where
  "well_identified (PSys op) = well_formed op"
| "well_identified _ = True"

text \<open>The steps in which one of the goroutines of a container, or of a checkout, panics.\<close>

fun goroutine_panics :: "process_op \<Rightarrow> bool" where
  "goroutine_panics (PSys op) = False"
| "goroutine_panics (PDump i answer) = isl answer"
| "goroutine_panics (PParams i c r) = (r = Panic)"
| "goroutine_panics (PCheckoutParams r) = (r = Panic)"
| "goroutine_panics (PAttempt i c) = False"
| "goroutine_panics (PDo i c r) = (r = Panic)"

section \<open>Facts\<close>

lemma goroutine_crashed:
  "goroutine r p = Some q \<Longrightarrow> crashed (psys q) = (r = Panic \<or> crashed (psys p)) \<and> (r \<noteq> Panic \<longrightarrow> psys q = psys p)"
  by (cases r) (auto simp: goroutine_def pcrash_def)

lemma dump_body_panic: "dump_body answer = Panic \<longleftrightarrow> isl answer"
  by (cases answer) (auto simp: dump_body_def)

lemma process_step_crashed:
  assumes "sys_inv (psys p)" "well_identified op" "process_exec lc op p = Some q"
  shows "if goroutine_panics op then crashed (psys q) else sys_inv (psys q)"
proof (cases op)
  case (PSys sop)
  with assms have "wf_exec lc sop (psys p) = Some (psys q)"
    by (auto simp: process_exec_def wf_exec_def sys_exec_def split: if_splits option.splits)
  with assms(1) PSys show ?thesis using sys.step_inv by auto
qed (use assms in \<open>auto simp: process_exec_def dump_body_panic dest!: goroutine_crashed split: if_splits go.splits option.splits\<close>)

lemma crash_cause:
  "run (process_exec lc) ops p = Some q \<Longrightarrow> sys_inv (psys p) \<Longrightarrow> list_all well_identified ops \<Longrightarrow>
     crashed (psys q) \<longleftrightarrow> list_ex goroutine_panics ops"
proof (induction ops arbitrary: p)
  case Nil
  then show ?case by (simp add: sys_inv_def parts_ok_def)
next
  case (Cons op ops)
  then obtain p1 where p1: "process_exec lc op p = Some p1" "run (process_exec lc) ops p1 = Some q"
    by (auto split: option.splits)
  have step: "if goroutine_panics op then crashed (psys p1) else sys_inv (psys p1)"
    using process_step_crashed [OF Cons.prems(2) _ p1(1)] Cons.prems(3) by simp
  show ?case
  proof (cases "goroutine_panics op")
    case True
    with step have "process_exec lc o' p1 = None" for o' by (simp add: process_exec_def)
    with p1(2) have "q = p1" by (cases ops) simp_all
    with True step show ?thesis by simp
  next
    case False
    with step Cons p1(2) show ?thesis by simp
  qed
qed

section \<open>Properties\<close>

text \<open>
  C1: What ends the process of a pool. Whatever the order in which the pool, its spawner, its buffer,
  its items, docker, the actions and the clients take their steps, and as long as the
  identifiers of docker and those sent to \<open>Return\<close> have at least twelve bytes, the process has panicked exactly when the log of a
  container could not be read, an action panicked in one of its attempts, or the
  computation of parameters panicked. So the goroutines of the pool itself never panic: no send on
  a closed channel, no second close, no second join of an item, no nil item dereferenced.
\<close>

theorem pool_panics_iff:
  assumes "run (process_exec lc) ops (newProcess n) = Some p" and "list_all well_identified ops"
  shows "crashed (psys p) \<longleftrightarrow> list_ex goroutine_panics ops"
proof (rule crash_cause [OF assms(1) _ assms(2)])
  show "sys_inv (psys (newProcess n))" using sys_inv_new by (simp add: newProcess_def)
qed

text \<open>A pool gets its item, stops, and drains; then the log of its container cannot be read.\<close>

definition dump_schedule :: "process_op list" where
  "dump_schedule =
     map PSys (one_ready @ [SysReturnAny (cid_of CHR ''z''), SysReturned (cid_of CHR ''z'')] @ stop_steps (cid_of CHR ''a''))"

theorem pool_panics_iff_witness:
  "\<exists>p q. run (process_exec all_actions) dump_schedule (newProcess 1) = Some p \<and> \<not> crashed (psys p)
     \<and> run (process_exec all_actions) (dump_schedule @ [PDump (cid_of CHR ''a'') (Inl (ErrExtern ''gone''))]) (newProcess 1) = Some q
     \<and> crashed (psys q)"
proof -
  define ops where "ops = dump_schedule @ [PDump (cid_of CHR ''a'') (Inl (ErrExtern ''gone''))]"
  define p where "p = the (run (process_exec all_actions) dump_schedule (newProcess 1))"
  define q where "q = the (run (process_exec all_actions) ops (newProcess 1))"
  have "map_option (\<lambda>_. True) (run (process_exec all_actions) dump_schedule (newProcess 1)) = Some True"
    by code_simp
  then have p: "run (process_exec all_actions) dump_schedule (newProcess 1) = Some p" by (auto simp: p_def)
  have "map_option (\<lambda>_. True) (run (process_exec all_actions) ops (newProcess 1)) = Some True"
    unfolding ops_def by code_simp
  then have q: "run (process_exec all_actions) ops (newProcess 1) = Some q" by (auto simp: q_def)
  have "list_all well_identified dump_schedule" "\<not> list_ex goroutine_panics dump_schedule" by code_simp+
  moreover from this have "list_all well_identified ops" "list_ex goroutine_panics ops" by (simp_all add: ops_def)
  ultimately show ?thesis
    using pool_panics_iff [OF p] pool_panics_iff [OF q] p q unfolding ops_def by blast
qed

text \<open>
  Both causes occur. Every container that has been created can have its log fail, and the \<open>tcp.connect\<close>
  action panics when it is refused: its connection is nil, and closing it is deferred.
\<close>

lemma refused_dial_panics: "actionTCPConnect_run (\<lambda>a t. Some err) ac p = Panic"
  by (simp add: actionTCPConnect_run_def actionTCPConnect_Do_def)

lemma unread_log_ends_process:
  assumes "i \<in> set (pdumps p)" "\<not> crashed (psys p)"
  shows "map_option (crashed \<circ> psys) (process_exec lc (PDump i (Inl err)) p) = Some True"
  using assms by (simp add: process_exec_def goroutine_def dump_body_def pcrash_def)

lemma refused_dial_ends_process:
  assumes "(i, c) \<in> set (pattempts p)" "\<not> crashed (psys p)"
  shows "map_option (crashed \<circ> psys) (process_exec lc (PDo i c (actionTCPConnect_run (\<lambda>a t. Some err) ac q)) p) = Some True"
  using assms by (simp add: process_exec_def goroutine_def refused_dial_panics pcrash_def)

end
