(* ===== verification/Postgres_Truncate.thy ===== *)
theory Postgres_Truncate
  imports Lifecycle_Actions
begin

text \<open>
  The action \<^verbatim>\<open>postgres.truncate\<close> (\<^verbatim>\<open>builtin/postgres/truncate.go\<close>) on a database connection: it
  reads the names of the tables row by row and truncates a table before it asks for the next row.
  What a call does to the connection is the driver's business, so the calls are an argument;
  the driver of the program, \<^verbatim>\<open>lib/pq\<close>, is then modelled by the messages it reads.
\<close>

section \<open>The action\<close>

text \<open>
  The calls of \<^verbatim>\<open>database/sql\<close> on a connection of type \<open>'c\<close>; \<open>None\<close> is a call that does not return.
  A row is its name or the error of \<open>Scan\<close>; \<open>pg_next\<close> answers \<open>None\<close> when \<open>Next\<close> is false, be it for
  the end of the rows or for an error of theirs.
\<close>

record 'c pg_api =
  pg_begin :: "'c \<Rightarrow> (go_error option \<times> 'c) option"
  pg_query :: "string \<Rightarrow> 'c \<Rightarrow> (go_error option \<times> 'c) option"
  pg_next :: "'c \<Rightarrow> ((go_error + string) option \<times> 'c) option"
  pg_exec :: "string \<Rightarrow> 'c \<Rightarrow> (go_error option \<times> 'c) option"
  pg_commit :: "'c \<Rightarrow> (go_error option \<times> 'c) option"
  pg_rollback :: "'c \<Rightarrow> 'c option"
  pg_close :: "'c \<Rightarrow> 'c option" \<comment> \<open>the deferred \<open>Close\<close> of the rows and of the database\<close>

definition excluded :: "string list \<Rightarrow> string \<Rightarrow> bool" where
  "excluded exclude name \<longleftrightarrow> list_ex (\<lambda>skip. ToLower skip = ToLower name) exclude"

definition truncate_statement :: "string \<Rightarrow> string" where
  "truncate_statement name = ''TRUNCATE TABLE '' @ name @ '' CASCADE''"

definition select_tables :: string where
  "select_tables = ''SELECT tablename FROM pg_catalog.pg_tables WHERE schemaname = '' @ [CHR 0x27] @ ''public'' @ [CHR 0x27]"

text \<open>The error of a call, after the transaction has been rolled back.\<close>

definition rolled_back :: "'c pg_api \<Rightarrow> go_error \<Rightarrow> 'c \<Rightarrow> (go_error option \<times> 'c) option" where
  "rolled_back pg err c = Option.bind (pg_rollback pg c) (\<lambda>c. Some (Some err, c))"

text \<open>The loop over the rows. A driver may go on with rows for ever. \<open>rows.Err\<close> is not asked for.\<close>

partial_function (option) truncate_rows ::
  "string list \<Rightarrow> 'c pg_api \<Rightarrow> 'c \<Rightarrow> (go_error option \<times> 'c) option" where
  "truncate_rows exclude pg c =
     Option.bind (pg_next pg c) (\<lambda>(row, c).
       (case row of
          None \<Rightarrow> pg_commit pg c
        | Some (Inl err) \<Rightarrow> rolled_back pg err c
        | Some (Inr name) \<Rightarrow>
            if excluded exclude name then truncate_rows exclude pg c
            else Option.bind (pg_exec pg (truncate_statement name) c) (\<lambda>(err, c).
              (case err of
                 Some err \<Rightarrow> rolled_back pg err c
               | None \<Rightarrow> truncate_rows exclude pg c))))"

text \<open>\<open>opened\<close>: what \<open>openDB\<close> answers.\<close>

definition actionPGTruncate_Do ::
  "string list \<Rightarrow> 'c pg_api \<Rightarrow> go_error + 'c \<Rightarrow> (go_error option \<times> 'c option) option" where
  "actionPGTruncate_Do exclude pg opened =
     (case opened of
        Inl err \<Rightarrow> Some (Some err, None)
      | Inr c \<Rightarrow>
          Option.bind (pg_begin pg c) (\<lambda>(err, c).
            (case err of
               Some err \<Rightarrow> map_option (\<lambda>c. (Some err, Some c)) (pg_close pg c)
             | None \<Rightarrow>
                 Option.bind (pg_query pg select_tables c) (\<lambda>(err, c).
                   (case err of
                      Some err \<Rightarrow> Option.bind (rolled_back pg err c) (\<lambda>(r, c). map_option (\<lambda>c. (r, Some c)) (pg_close pg c))
                    | None \<Rightarrow> Option.bind (truncate_rows exclude pg c) (\<lambda>(r, c). map_option (\<lambda>c. (r, Some c)) (pg_close pg c)))))))"

section \<open>The driver\<close>

text \<open>
  \<^verbatim>\<open>lib/pq\<close> sends a statement without arguments as a simple query. The server answers with messages,
  of which the connection keeps what has not been read: \<open>RowDesc\<close>, \<open>DataRow\<close>, \<open>Complete\<close> with a command
  tag, \<open>Failed\<close>, and in the end \<open>Ready\<close> with the state of the transaction.
\<close>

datatype tx_status = TxIdle | TxOpen | TxFailed

datatype pg_msg = RowDesc | DataRow string | Complete string | Failed go_error | Ready tx_status

text \<open>
  \<open>unread\<close>, \<open>txnStatus\<close> and \<open>rows_done\<close> are the driver's; the others are the server's: its own state of the
  transaction, the statements executed in it and those that have been committed.
\<close>

record pq_conn =
  unread :: "pg_msg list"
  txnStatus :: tx_status
  rows_done :: bool
  server_tx :: tx_status
  in_tx :: "string list"
  committed :: "string list"

definition new_pq_conn :: pq_conn where
  "new_pq_conn =
     \<lparr>unread = [], txnStatus = TxIdle, rows_done = False, server_tx = TxIdle, in_tx = [], committed = []\<rparr>"

definition errAborted :: go_error where
  "errAborted = ErrExtern ''current transaction is aborted''"

definition errUnexpectedReady :: go_error where
  "errUnexpectedReady = ErrText ''unexpected ReadyForQuery''"

definition ErrInFailedTransaction :: go_error where
  "ErrInFailedTransaction = ErrText ''pq: Could not complete operation in a failed transaction''"

text \<open>The server: \<open>tables\<close> are its public tables, \<open>srv\<close> says which truncations and commits it refuses.\<close>

definition serve :: "string list \<Rightarrow> (string \<Rightarrow> go_error option) \<Rightarrow> string \<Rightarrow> pq_conn \<Rightarrow> pq_conn" where
  "serve tables srv q c =
     (if q = ''BEGIN'' then c\<lparr>unread := unread c @ [Complete q, Ready TxOpen], server_tx := TxOpen\<rparr>
      else if q = ''ROLLBACK'' then c\<lparr>unread := unread c @ [Complete q, Ready TxIdle], server_tx := TxIdle, in_tx := []\<rparr>
      else if server_tx c = TxFailed then c\<lparr>unread := unread c @ [Failed errAborted, Ready TxFailed]\<rparr>
      else if q = select_tables then
        c\<lparr>unread := unread c @ RowDesc # map DataRow tables @ [Complete ''SELECT'', Ready (server_tx c)]\<rparr>
      else if q = ''COMMIT'' then
        (case srv q of
           None \<Rightarrow> c\<lparr>unread := unread c @ [Complete q, Ready TxIdle], server_tx := TxIdle,
                     committed := committed c @ in_tx c, in_tx := []\<rparr>
         | Some err \<Rightarrow> c\<lparr>unread := unread c @ [Failed err, Ready TxIdle], server_tx := TxIdle, in_tx := []\<rparr>)
      else
        (case srv q of
           None \<Rightarrow> c\<lparr>unread := unread c @ [Complete ''TRUNCATE TABLE'', Ready (server_tx c)], in_tx := in_tx c @ [q]\<rparr>
         | Some err \<Rightarrow> c\<lparr>unread := unread c @ [Failed err, Ready TxFailed], server_tx := TxFailed, in_tx := []\<rparr>))"

text \<open>
  The loop of \<open>simpleExec\<close>: it reads up to the first \<open>Ready\<close> and passes over rows, whosesoever they
  are. Without that message it waits for ever.
\<close>

fun read_reply ::
  "pg_msg list \<Rightarrow> string option \<Rightarrow> go_error option \<Rightarrow> (string option \<times> go_error option \<times> tx_status \<times> pg_msg list) option" where
  "read_reply [] tag err = None"
| "read_reply (Complete t # ms) tag err = read_reply ms (Some t) err"
| "read_reply (Failed e # ms) tag err = read_reply ms tag (Some e)"
| "read_reply (Ready st # ms) tag err = Some (tag, if tag = None \<and> err = None then Some errUnexpectedReady else err, st, ms)"
| "read_reply (RowDesc # ms) tag err = read_reply ms tag err"
| "read_reply (DataRow r # ms) tag err = read_reply ms tag err"

definition simpleExec ::
  "string list \<Rightarrow> (string \<Rightarrow> go_error option) \<Rightarrow> string \<Rightarrow> pq_conn \<Rightarrow> (string option \<times> go_error option \<times> pq_conn) option" where
  "simpleExec tables srv q c =
     (let c = serve tables srv q c in
      map_option (\<lambda>(tag, err, st, ms). (tag, err, c\<lparr>unread := ms, txnStatus := st\<rparr>)) (read_reply (unread c) None None))"

text \<open>\<open>simpleQuery\<close> stops before the first row; without one it reads to the end, and the rows are done.\<close>

fun read_head :: "pg_msg list \<Rightarrow> go_error option \<Rightarrow> (go_error option \<times> tx_status option \<times> pg_msg list) option" where
  "read_head [] err = None"
| "read_head (DataRow r # ms) err = Some (err, None, DataRow r # ms)"
| "read_head (Ready st # ms) err = Some (err, Some st, ms)"
| "read_head (Failed e # ms) err = read_head ms (Some e)"
| "read_head (_ # ms) err = read_head ms err"

definition simpleQuery ::
  "string list \<Rightarrow> (string \<Rightarrow> go_error option) \<Rightarrow> string \<Rightarrow> pq_conn \<Rightarrow> (go_error option \<times> pq_conn) option" where
  "simpleQuery tables srv q c =
     (let c = serve tables srv q c in
      map_option (\<lambda>(err, st, ms).
         (err, case st of
            None \<Rightarrow> c\<lparr>unread := ms, rows_done := False\<rparr>
          | Some st \<Rightarrow> c\<lparr>unread := ms, txnStatus := st, rows_done := True\<rparr>)) (read_head (unread c) None))"

text \<open>
  \<open>Next\<close> of the rows: a row, or the \<open>Ready\<close> that ends them. An error it has met on the way is kept for
  \<open>rows.Err\<close>.
\<close>

fun read_row :: "pg_msg list \<Rightarrow> (string option \<times> tx_status option \<times> pg_msg list) option" where
  "read_row [] = None"
| "read_row (DataRow r # ms) = Some (Some r, None, ms)"
| "read_row (Ready st # ms) = Some (None, Some st, ms)"
| "read_row (RowDesc # ms) = Some (None, None, ms)"
| "read_row (_ # ms) = read_row ms"

definition rows_Next :: "pq_conn \<Rightarrow> (string option \<times> pq_conn) option" where
  "rows_Next c =
     (if rows_done c then Some (None, c)
      else map_option (\<lambda>(r, st, ms).
         (r, case st of
            None \<Rightarrow> c\<lparr>unread := ms\<rparr>
          | Some st \<Rightarrow> c\<lparr>unread := ms, txnStatus := st, rows_done := True\<rparr>)) (read_row (unread c)))"

text \<open>The transaction's own statements check the command tag that comes back.\<close>

definition tx_statement ::
  "string list \<Rightarrow> (string \<Rightarrow> go_error option) \<Rightarrow> string \<Rightarrow> pq_conn \<Rightarrow> (go_error option \<times> pq_conn) option" where
  "tx_statement tables srv q c =
     map_option (\<lambda>(tag, err, c).
        (case err of
           Some e \<Rightarrow> Some e
         | None \<Rightarrow> if tag = Some q then None else Some (ErrText (''unexpected command tag '' @ the tag)), c))
       (simpleExec tables srv q c)"

definition pq_Commit :: "string list \<Rightarrow> (string \<Rightarrow> go_error option) \<Rightarrow> pq_conn \<Rightarrow> (go_error option \<times> pq_conn) option" where
  "pq_Commit tables srv c =
     (if txnStatus c = TxFailed then
        map_option (\<lambda>(err, c). (case err of None \<Rightarrow> Some ErrInFailedTransaction | Some e \<Rightarrow> Some e, c))
          (tx_statement tables srv ''ROLLBACK'' c)
      else tx_statement tables srv ''COMMIT'' c)"

definition pq :: "string list \<Rightarrow> (string \<Rightarrow> go_error option) \<Rightarrow> pq_conn pg_api" where
  "pq tables srv =
     \<lparr>pg_begin = tx_statement tables srv ''BEGIN'',
      pg_query = simpleQuery tables srv,
      pg_next = map_option (\<lambda>(r, c). (map_option Inr r, c)) \<circ> rows_Next,
      pg_exec = (\<lambda>q c. map_option (\<lambda>(tag, err, c). (err, c)) (simpleExec tables srv q c)),
      pg_commit = pq_Commit tables srv,
      pg_rollback = (\<lambda>c. map_option snd (tx_statement tables srv ''ROLLBACK'' c)),
      pg_close = (\<lambda>c. Some (c\<lparr>unread := [], rows_done := True, server_tx := TxIdle, in_tx := []\<rparr>))\<rparr>"

lemmas pq_calls =
  simpleExec_def simpleQuery_def rows_Next_def tx_statement_def pq_Commit_def serve_def errAborted_def

section \<open>Facts\<close>

lemma read_reply_rows: "read_reply (map DataRow rs @ ms) tag err = read_reply ms tag err"
  by (induction rs) simp_all

lemma statements_differ:
  "truncate_statement t \<noteq> ''BEGIN''" "truncate_statement t \<noteq> ''ROLLBACK''" "truncate_statement t \<noteq> ''COMMIT''"
  "truncate_statement t \<noteq> select_tables" "select_tables \<noteq> ''BEGIN''" "select_tables \<noteq> ''ROLLBACK''"
  by (simp_all add: truncate_statement_def select_tables_def)

text \<open>A connection in a transaction whose remaining rows are \<open>rs\<close>.\<close>

definition reading :: "string list \<Rightarrow> pq_conn \<Rightarrow> bool" where
  "reading rs c \<longleftrightarrow> unread c = map DataRow rs @ [Complete ''SELECT'', Ready TxOpen] \<and> \<not> rows_done c
     \<and> txnStatus c = TxOpen \<and> server_tx c = TxOpen \<and> in_tx c = [] \<and> committed c = []"

text \<open>The end of the transaction of a connection with nothing unread.\<close>

lemma commits:
  assumes "unread c = []" "txnStatus c = TxOpen" "server_tx c = TxOpen"
  shows "\<exists>d. pq_Commit tables srv c = Some (srv ''COMMIT'', d)
     \<and> committed d = (if srv ''COMMIT'' = None then committed c @ in_tx c else committed c)"
  using assms by (cases "srv ''COMMIT''") (simp_all add: pq_calls select_tables_def)

lemma commit_of_failed:
  assumes "unread c = []" "txnStatus c = TxFailed"
  shows "\<exists>d. pq_Commit tables srv c = Some (Some ErrInFailedTransaction, d) \<and> committed d = committed c"
  using assms by (simp add: pq_calls)

text \<open>The rows from the first one on that is not excluded: its statement eats the others.\<close>

lemma truncate_rows_pq:
  assumes "reading rs c"
  shows "\<exists>d. truncate_rows ex (pq tables srv) c =
       (case filter (\<lambda>t. \<not> excluded ex t) rs of
          [] \<Rightarrow> Some (srv ''COMMIT'', d)
        | t # ts \<Rightarrow> Some (if srv (truncate_statement t) = None then srv ''COMMIT'' else Some ErrInFailedTransaction, d))
     \<and> committed d = (if srv ''COMMIT'' = None
          then filter (\<lambda>q. srv q = None) (map truncate_statement (take 1 (filter (\<lambda>t. \<not> excluded ex t) rs))) else [])"
  using assms
proof (induction rs arbitrary: c)
  case Nil
  let ?d = "c\<lparr>unread := [], txnStatus := TxOpen, rows_done := True\<rparr>"
  have n: "pg_next (pq tables srv) c = Some (None, ?d)"
    using Nil by (simp add: reading_def pq_def rows_Next_def)
  have "truncate_rows ex (pq tables srv) c = pq_Commit tables srv ?d"
    by (subst truncate_rows.simps, simp add: n, simp add: pq_def)
  with commits [of ?d tables srv] Nil show ?case by (auto simp: reading_def)
next
  case (Cons r rs)
  let ?c = "c\<lparr>unread := map DataRow rs @ [Complete ''SELECT'', Ready TxOpen]\<rparr>"
  have n: "pg_next (pq tables srv) c = Some (Some (Inr r), ?c)"
    using Cons.prems by (simp add: reading_def pq_def rows_Next_def)
  show ?case
  proof (cases "excluded ex r")
    case True
    have "truncate_rows ex (pq tables srv) c = truncate_rows ex (pq tables srv) ?c"
      by (subst truncate_rows.simps) (simp add: n True)
    moreover have "reading rs ?c" using Cons.prems by (simp add: reading_def)
    ultimately show ?thesis using Cons.IH [of ?c] True
      by (simp only: filter.simps not_True_eq_False if_False)
  next
    case False
    let ?q = "truncate_statement r"
    show ?thesis
    proof (cases "srv ?q")
      case None
      let ?e = "?c\<lparr>unread := [Complete ''TRUNCATE TABLE'', Ready TxOpen], in_tx := [?q]\<rparr>"
      let ?f = "?e\<lparr>unread := [], rows_done := True\<rparr>"
      have e: "pg_exec (pq tables srv) ?q ?c = Some (None, ?e)"
        using Cons.prems None by (simp add: reading_def pq_def simpleExec_def serve_def statements_differ read_reply_rows)
      have f: "pg_next (pq tables srv) ?e = Some (None, ?f)"
        using Cons.prems by (simp add: reading_def pq_def rows_Next_def)
      have "truncate_rows ex (pq tables srv) c = truncate_rows ex (pq tables srv) ?e"
        by (subst truncate_rows.simps) (simp add: n False e)
      also have "\<dots> = pq_Commit tables srv ?f"
        by (subst truncate_rows.simps, simp only: f Option.bind.simps prod.case option.case, simp add: pq_def)
      finally show ?thesis using commits [of ?f tables srv] Cons.prems False None by (auto simp: reading_def)
    next
      case (Some err)
      let ?e = "?c\<lparr>unread := [Failed err, Ready TxFailed], server_tx := TxFailed, in_tx := []\<rparr>"
      let ?f = "?e\<lparr>unread := [], txnStatus := TxFailed, rows_done := True\<rparr>"
      have e: "pg_exec (pq tables srv) ?q ?c = Some (None, ?e)"
        using Cons.prems Some by (simp add: reading_def pq_def simpleExec_def serve_def statements_differ read_reply_rows)
      have f: "pg_next (pq tables srv) ?e = Some (None, ?f)"
        using Cons.prems by (simp add: reading_def pq_def rows_Next_def)
      have "truncate_rows ex (pq tables srv) c = truncate_rows ex (pq tables srv) ?e"
        by (subst truncate_rows.simps) (simp add: n False e)
      also have "\<dots> = pq_Commit tables srv ?f"
        by (subst truncate_rows.simps, simp only: f Option.bind.simps prod.case option.case, simp add: pq_def)
      finally show ?thesis using commit_of_failed [of ?f tables srv] Cons.prems False Some by (auto simp: reading_def)
    qed
  qed
qed

lemma truncate_begins:
  "\<exists>c1 c2. pg_begin (pq tables srv) new_pq_conn = Some (None, c1) \<and> pg_query (pq tables srv) select_tables c1 = Some (None, c2)
     \<and> (if tables = [] then unread c2 = [] \<and> rows_done c2 \<and> txnStatus c2 = TxOpen \<and> server_tx c2 = TxOpen
           \<and> in_tx c2 = [] \<and> committed c2 = []
        else reading tables c2)"
  by (cases tables) (simp_all add: pq_def pq_calls new_pq_conn_def statements_differ reading_def)

section \<open>Properties\<close>

text \<open>
  C26: Of the tables that are not excluded (up to case) \<open>postgres.truncate\<close> truncates the first one
  only: its driver reads the answer to a statement up to the end of the answer under way, which is
  the rest of the tables, and takes the end of its own answer for the end of the rows. The action
  commits and succeeds all the same; if the server refuses that one truncation, nothing is
  committed and the error is that of a failed transaction.
\<close>

theorem truncate_first_only:
  "\<exists>d. actionPGTruncate_Do ex (pq tables srv) (Inr new_pq_conn) =
       (case map truncate_statement (filter (\<lambda>t. \<not> excluded ex t) tables) of
          [] \<Rightarrow> Some (srv ''COMMIT'', Some d)
        | q # qs \<Rightarrow> Some (if srv q = None then srv ''COMMIT'' else Some ErrInFailedTransaction, Some d))
     \<and> committed d = (if srv ''COMMIT'' = None
          then filter (\<lambda>q. srv q = None) (take 1 (map truncate_statement (filter (\<lambda>t. \<not> excluded ex t) tables))) else [])"
proof -
  obtain c1 c2 where c: "pg_begin (pq tables srv) new_pq_conn = Some (None, c1)"
    "pg_query (pq tables srv) select_tables c1 = Some (None, c2)"
    and r: "if tables = [] then unread c2 = [] \<and> rows_done c2 \<and> txnStatus c2 = TxOpen \<and> server_tx c2 = TxOpen
           \<and> in_tx c2 = [] \<and> committed c2 = [] else reading tables c2"
    using truncate_begins [of tables srv] by blast
  have "\<exists>d. truncate_rows ex (pq tables srv) c2 =
       (case filter (\<lambda>t. \<not> excluded ex t) tables of
          [] \<Rightarrow> Some (srv ''COMMIT'', d)
        | t # ts \<Rightarrow> Some (if srv (truncate_statement t) = None then srv ''COMMIT'' else Some ErrInFailedTransaction, d))
     \<and> committed d = (if srv ''COMMIT'' = None
          then filter (\<lambda>q. srv q = None) (map truncate_statement (take 1 (filter (\<lambda>t. \<not> excluded ex t) tables))) else [])"
  proof (cases "tables = []")
    case True
    have "truncate_rows ex (pq tables srv) c2 = pq_Commit tables srv c2"
      using r True by (subst truncate_rows.simps, simp add: pq_def rows_Next_def)
    with commits [of c2 tables srv] r True show ?thesis by auto
  next
    case False
    with r have "reading tables c2" by simp
    from truncate_rows_pq [OF this] show ?thesis .
  qed
  then obtain d where t: "truncate_rows ex (pq tables srv) c2 =
       (case filter (\<lambda>t. \<not> excluded ex t) tables of
          [] \<Rightarrow> Some (srv ''COMMIT'', d)
        | t # ts \<Rightarrow> Some (if srv (truncate_statement t) = None then srv ''COMMIT'' else Some ErrInFailedTransaction, d))"
    and d: "committed d = (if srv ''COMMIT'' = None
          then filter (\<lambda>q. srv q = None) (map truncate_statement (take 1 (filter (\<lambda>t. \<not> excluded ex t) tables))) else [])"
    by blast
  let ?d = "d\<lparr>unread := [], rows_done := True, server_tx := TxIdle, in_tx := []\<rparr>"
  have "pg_close (pq tables srv) d = Some ?d" by (simp add: pq_def)
  with c t have "actionPGTruncate_Do ex (pq tables srv) (Inr new_pq_conn) =
       (case map truncate_statement (filter (\<lambda>t. \<not> excluded ex t) tables) of
          [] \<Rightarrow> Some (srv ''COMMIT'', Some ?d)
        | q # qs \<Rightarrow> Some (if srv q = None then srv ''COMMIT'' else Some ErrInFailedTransaction, Some ?d))"
    by (simp add: actionPGTruncate_Do_def split: list.split)
  moreover have "committed ?d = (if srv ''COMMIT'' = None
          then filter (\<lambda>q. srv q = None) (take 1 (map truncate_statement (filter (\<lambda>t. \<not> excluded ex t) tables))) else [])"
    using d by (simp add: take_map)
  ultimately show ?thesis by blast
qed

text \<open>Two tables, none excluded, a server that refuses nothing: the second one keeps its rows.\<close>

lemma second_table_kept:
  "map_option (\<lambda>(err, d). (err, map_option committed d))
     (actionPGTruncate_Do [] (pq [''users'', ''orders''] (\<lambda>_. None)) (Inr new_pq_conn))
   = Some (None, Some [truncate_statement ''users''])"
  using truncate_first_only [of "[]" "[''users'', ''orders'']" "\<lambda>_. None"] by (auto simp: excluded_def)

end
