(* ===== verification/Spec2Isabelle.thy ===== *)
theory Spec2Isabelle
  imports Pool_Drain Item_Properties Lifecycle_Manager Config_Parse Pool_Set Docker_Adapter
    Builtin_Access Net_Server Net_Client Ui_Processor Ui_Table Daemon_Main
    Docker_Calls Lifecycle_Exec Net_Builder Net_Service Ui_Window Ui_Screen Daemon_Shutdown
    Sample_Client Test_Support Pool_Protocol Pool_Display Ui_Emitters Pool_Process Postgres_Truncate
begin

text \<open>
  \<^bold>\<open>Ephemerald\<close>: a daemon that keeps pools of short-lived docker containers (databases,
  mostly) ready for test suites. A client checks a container out over a REST interface, uses
  it, and returns it; a returned container is reset by a configured action and becomes ready
  again, one that exits is replaced. This library models the Go sources of the repository,
  without its vendored packages (but for the part of \<^verbatim>\<open>lib/pq\<close> that decides what \<open>postgres.truncate\<close>
  does), and proves what its parts promise.

  \<^bold>\<open>The parts and how they interact.\<close> A pool (\<^verbatim>\<open>pool.go\<close>) is one goroutine with a map of
  items. It asks its spawner (\<^verbatim>\<open>spawner.go\<close>) for items over a buffered channel and receives
  them over another; it joins and starts each item (\<^verbatim>\<open>item.go\<close>), hears from it when it is
  ready or has exited, and puts ready items into a buffer (\<^verbatim>\<open>buffer.go\<close>) from which checkouts
  take them. An item drives its container (\<^verbatim>\<open>container.go\<close>) and the actions of its lifecycle
  (\<^verbatim>\<open>lifecycle/\<close>, \<^verbatim>\<open>builtin/\<close>), which run with retries. A pool set (\<^verbatim>\<open>poolset.go\<close>) holds the
  pools of a configuration (\<^verbatim>\<open>config/\<close>), the server and client (\<^verbatim>\<open>net/\<close>) expose it, and
  every part reports to the user interface (\<^verbatim>\<open>ui/\<close>). \<^verbatim>\<open>ephemerald/main.go\<close> ties them together.

  \<^bold>\<open>How goroutines are modelled.\<close> Every goroutine is a record that says where it is and what
  its variables hold, with one function per channel operation or handler; the result of an
  operation is done, blocked or a panic (type \<^typ>\<open>'a go\<close> of \<open>Go_Prelude\<close>). A whole pool is the
  machine of \<open>Pool_System\<close>: a label names the goroutine that moves and the answer it gets from
  docker, an action or a client, and \<open>run\<close> follows any list of labels, so a theorem about \<open>run\<close>
  covers every interleaving. The calls that a handler makes in sequence are queued and executed
  one by one, so other goroutines move between them. No fuel is used: runs are finite lists of
  labels, and the loops of the code are recursive functions with termination proofs
  (\<open>spawner_fill\<close>, \<open>runner_loop\<close>, the drains).

  \<^bold>\<open>The theories.\<close>

  \<^item> \<open>Go_Prelude\<close>: outcomes, errors, machines, the locales \<open>invariant\<close> and \<open>trap\<close>, list facts.
    \<open>Go_Strings\<close>: \<^verbatim>\<open>strconv\<close>, \<^verbatim>\<open>net/url\<close>, \<^verbatim>\<open>strings.Split\<close>, and the texts of errors.
  \<^item> \<open>Item_Params\<close> (\<^verbatim>\<open>params/params.go\<close>): docker's port maps, the parameters of a checkout, url
    templates; the template engine is the locale \<open>template_engine\<close>, interpreted by a parser and
    an evaluator of field references.
  \<^item> \<open>Item_Buffer\<close>, \<open>Item_Spawner\<close>, \<open>Pool_Container\<close>, \<open>Pool_Item\<close>: the goroutines a pool is made of;
    \<open>Item_History\<close> has the lemmas on the histories of one item, \<open>Item_Properties\<close> the properties of
    these parts: the buffer is a queue, the spawner conserves items, both drains end, ready
    events need successful actions, exit codes. The locales \<open>ready_queue\<close> and \<open>item_source\<close> are
    what the pool relies on, interpreted by the buffer and the spawner.
  \<^item> \<open>Pool_Loop\<close> (\<^verbatim>\<open>pool.go\<close>, \<^verbatim>\<open>util.go\<close>): the handlers of the pool's goroutine. \<open>Pool_System\<close>: the
    composition. \<open>Pool_Safety\<close>, \<open>Pool_Exclusive\<close>, \<open>Pool_Supply\<close>: three invariants of it, each an
    interpretation of \<open>invariant\<close>: no step of the pool's own goroutines panics and the map is exact; every identifier is in
    one hand; the stock never falls below the configured size. \<open>Pool_Properties\<close>: what follows
    for a pool, and its deadlocks and leaks, which are interpretations of \<open>trap\<close>. \<open>Pool_Drain\<close>:
    the shutdown, a trap too, can be completed from every state it reaches; \<open>monitorCtx\<close>.
    \<open>Pool_Reset\<close>: what can still become a checkout without a reset, and that nothing can after a
    return. \<open>Pool_Protocol\<close>: the eight phases of a pooled container as an inductive relation, which
    every step of the pool refines. \<open>Pool_Process\<close>: the process around a pool, with the goroutines
    that serve one container (\<open>dumpLogs\<close>, the children that make parameters, the attempts of actions),
    and exactly what makes it panic.
  \<^item> \<open>Docker_Adapter\<close> (\<^verbatim>\<open>adapter.go\<close>): images, creation requests, checkout and readiness.
    \<open>Docker_Calls\<close>: the calls of one container to docker, its event filter, its subscriptions and its
    log, and that the steps of \<open>Pool_Container\<close> are these calls with docker's answers as labels.
  \<^item> \<open>Json_Values\<close>, \<open>Lifecycle_Actions\<close>, \<open>Lifecycle_Runner\<close>, \<open>Lifecycle_Manager\<close> (\<^verbatim>\<open>lifecycle/\<close>, \<^verbatim>\<open>builtin/\<close>):
    decoding of JSON values, the ten action plugins and what they do, the retry loop, the three
    actions of a pool and the checkout timeout. \<open>Builtin_Access\<close>: connection urls and addresses.
    \<open>Lifecycle_Exec\<close>: what the actions do outside (a child process and its two outputs, an HTTP
    exchange, a dial), their environment, the runner of an action, and the registry with the
    \<open>init\<close> functions that fill it. \<open>Postgres_Truncate\<close>: \<open>postgres.truncate\<close> over the calls of a driver,
    and over the messages that \<^verbatim>\<open>lib/pq\<close> reads.
  \<^item> \<open>Config_Parse\<close> (\<^verbatim>\<open>config/\<close>): pools, containers and files. \<open>Pool_Set\<close> (\<^verbatim>\<open>poolset.go\<close>).
  \<^item> \<open>Net_Server\<close>, \<open>Net_Client\<close> (\<^verbatim>\<open>net/\<close>): addresses, routes, handlers; requests; both together.
    \<open>Net_Builder\<close>: the builders and the listener. \<open>Net_Service\<close>: the machine of a whole service, that
    is, the pools of a configuration, each the machine of \<open>Pool_System\<close>, the pool set and any
    number of REST requests in flight; its invariant accounts for every container, lost replies
    included, as long as clients return what they were given.
  \<^item> \<open>Ui_Processor\<close>, \<open>Ui_Table\<close> (\<^verbatim>\<open>ui/\<close>): events, the state of the screen, the plain writer; the
    rows, the sorted table and the batching writer of the terminal. \<open>Ui_Window\<close>: panels, layout,
    keys, and the choice of an interface. \<open>Ui_Screen\<close>: the machine of the processor's channels and
    handlers, the writer's channels and loop, and the application that draws: what it shows, that
    it never holds up an emitter, and what it relies on. \<open>Ui_Emitters\<close>: the emitters that pools and
    containers are given; the locale \<open>report_line\<close> is what they promise, interpreted by those of a
    processor and of the noop interface. \<open>Pool_Reports\<close>: the reports of a pool describe its state.
    \<open>Pool_Display\<close>: so does its row on the terminal, in the end.
  \<^item> \<open>Daemon_Main\<close> (\<^verbatim>\<open>ephemerald/main.go\<close>): the order of starting and stopping.
    \<open>Daemon_Shutdown\<close>: the machine of \<open>main\<close>, \<open>handleSignals\<close>, the server, the writer and the
    application while the daemon stops.
  \<^item> \<open>Sample_Client\<close> (\<^verbatim>\<open>_example/main.go\<close>): the workers as programs of the state monad over the
    history of their calls, and the counting of their results. \<open>Test_Support\<close>
    (\<^verbatim>\<open>testutil/testutil.go\<close>): fixtures and the runs of a test on a pool; its emitters are in \<open>Ui_Emitters\<close>.

  \<^bold>\<open>Which clients.\<close> The machines let clients send any identifier to \<open>Return\<close>, as the code does. Three
  restrictions of them appear in the properties, and each property names its own: \<open>wf_exec\<close> (the
  identifiers have at least twelve bytes), \<open>fair_exec\<close> and \<open>svc_fair\<close> (clients return only what they hold, once).
  What happens without them is stated too (\<open>one_request_crashes\<close>, \<open>double_return_shares\<close>). In the same
  way \<open>in_order\<close> restricts the schedules of the interface, and \<open>batches_swap\<close> and \<open>early_drawing_lost\<close> say
  what it excludes.

  \<^bold>\<open>Numbers.\<close> Numbers of the configuration wrap around at 64 bits when they are read; durations and retries wrap around at 64 bits where the code multiplies them, the
  wait status of a container is a 32-bit word; counters that cannot overflow in the memory of a
  machine are integers. The counters of the sample client are 32-bit
  words. The channels have the code's lengths: five requests of the spawner, fifteen events and
  fifteen updates of the interface.

  \<^bold>\<open>What the code relies on\<close> is an argument: docker's answers, the template engine, the JSON and
  YAML decoders, \<^verbatim>\<open>time.ParseDuration\<close>, the network, the databases, the order in which Go
  visits a map and in which goroutines answer. Where a property needs documented behaviour of
  such code, the behaviour is a named hypothesis (\<open>docker_images\<close>, \<open>docker_events\<close>) or a locale, and a witness
  instantiates it.

  \<^bold>\<open>What modelling showed.\<close> Several theorems state faults of the code: a failed initialisation
  hangs, the pool and its spawner can block each other, a failed reset strands an item, a second
  return of an item shares it, short identifiers crash the daemon, the tag of an image is lost,
  a broken event stream turns a failure into a success, late items are never joined, a late
  report leaves a ghost on the screen, and so does a removal that overtakes an update; only the first
  table is truncated; a lost reply loses its containers; an unreadable log or a refused dial ends
  the daemon; posted drawings can swap or be lost; a second quit key freezes the terminal; \<open>http.get\<close> takes any
  status for success; the sample client does not return one of its containers.

  \<^bold>\<open>Not modelled.\<close> Logging, except where it can panic or is an action's only effect; colours and
  what the terminal library draws; getters of loggers and of the status of a container; the
  logger of the tests. Third-party packages are parameters. In \<open>Pool_System\<close> the
  answers of actions, of \<open>makeParams\<close> and of docker are labels; the goroutines they come from, and
  their panics, are in \<open>Pool_Process\<close>. \<open>Net_Service\<close> takes replies as sent or lost, not in parts. The machine of
  \<open>Daemon_Shutdown\<close> starts when the server serves and takes \<open>Serve\<close> to fail on a closed listener only.
\<close>

end
